(* ===== verification/Prelude.thy ===== *)
theory Prelude
  imports Main "HOL-Library.Word" "HOL-Library.List_Lexorder" "HOL-Library.Char_ord"
begin

text \<open>
  Shared vocabulary of the development: rows (Go's \<open>map[string]*string\<close>), WAL positions
  (\<open>pglogrepl.LSN\<close>, a \<open>uint64\<close>), decimal text of integers, the interface of a row map and
  the interface of an invariant of a step relation, and the lemma collections the component
  theories use.
\<close>

named_theorems row_simps "equations about lookup, update and columns of rows"

section \<open>Rows\<close>

text \<open>
  A column value is \<open>*string\<close>: \<^term>\<open>None\<close> is SQL NULL. A row is a finite map from column
  names to values. Its canonical representation is the association list with strictly
  increasing column names (the order of \<open>sort.Strings\<close>, bytewise), so that two rows are the
  same map exactly when they are the same list. A nil map and an empty map are both \<^term>\<open>[]\<close>.
\<close>

type_synonym pgvalue = "string option"
type_synonym row = "(string \<times> pgvalue) list"

abbreviation row_get :: "row \<Rightarrow> string \<Rightarrow> pgvalue option" where
  "row_get r \<equiv> map_of r"

fun row_put :: "string \<Rightarrow> pgvalue \<Rightarrow> row \<Rightarrow> row" where
  "row_put c v [] = [(c, v)]"
| "row_put c v ((d, w) # r) =
     (if c < d then (c, v) # (d, w) # r
      else if c = d then (c, v) # r
      else (d, w) # row_put c v r)"

definition row_cols :: "row \<Rightarrow> string list" where
  "row_cols r = map fst r"

definition wf_row :: "row \<Rightarrow> bool" where
  "wf_row r = sorted_wrt (<) (map fst r)"

lemma row_get_put [simp, row_simps]: "row_get (row_put c v r) = (row_get r)(c \<mapsto> v)"
  by (induction r) (auto simp: fun_eq_iff)

lemma fst_row_put [simp]: "fst ` set (row_put c v r) = insert c (fst ` set r)"
  by (simp flip: dom_map_of_conv_image_fst)

lemma set_row_cols_put [simp, row_simps]: "set (row_cols (row_put c v r)) = insert c (set (row_cols r))"
  by (simp add: row_cols_def)

lemma row_cols_Nil [simp]: "row_cols [] = []"
  by (simp add: row_cols_def)

lemma row_put_not_Nil [simp]: "row_put c v r \<noteq> []"
  by (cases r) (auto split: if_splits)

lemma wf_row_Nil [simp, intro]: "wf_row []"
  by (simp add: wf_row_def)

lemma wf_row_Cons: "wf_row ((c, v) # r) \<longleftrightarrow> (\<forall>d \<in> fst ` set r. c < d) \<and> wf_row r"
  by (simp add: wf_row_def)

lemma wf_row_put [simp, intro]: "wf_row r \<Longrightarrow> wf_row (row_put c v r)"
proof (induction r)
  case Nil
  then show ?case by (simp add: wf_row_def)
next
  case (Cons a r)
  then show ?case by (cases a) (auto simp: wf_row_Cons)
qed

lemma wf_row_distinct: "wf_row r \<Longrightarrow> distinct (map fst r)"
  unfolding wf_row_def by (simp add: strict_sorted_iff)

lemma wf_row_cols_sorted: "wf_row r \<Longrightarrow> sorted (row_cols r)"
  unfolding wf_row_def row_cols_def by (simp add: strict_sorted_iff)

lemma sort_row_cols [simp]: "wf_row r \<Longrightarrow> sort (row_cols r) = row_cols r"
  by (simp add: wf_row_cols_sorted sorted_sort_id)

lemma dom_row_get: "dom (row_get r) = set (row_cols r)"
  by (simp add: dom_map_of_conv_image_fst row_cols_def)

lemma row_get_None_iff: "row_get r c = None \<longleftrightarrow> c \<notin> set (row_cols r)"
  by (simp add: map_of_eq_None_iff row_cols_def)

lemma row_get_in: "wf_row r \<Longrightarrow> (c, v) \<in> set r \<longleftrightarrow> row_get r c = Some v"
  by (simp add: wf_row_distinct)

text \<open>The representation is canonical: rows are equal exactly when they agree as maps.\<close>

lemma map_of_distinct_expand: "distinct (map fst r) \<Longrightarrow> r = map (\<lambda>k. (k, the (map_of r k))) (map fst r)"
  by (rule sym) (auto intro!: map_idI)

lemma row_ext:
  assumes wf: "wf_row r" "wf_row s" and eq: "row_get r = row_get s"
  shows "r = s"
proof -
  have "set (map fst r) = set (map fst s)"
    using eq by (metis dom_map_of_conv_image_fst set_map)
  then have fst_eq: "map fst r = map fst s"
    using wf by (auto simp: wf_row_def strict_sorted_iff intro: sorted_distinct_set_unique)
  have "r = map (\<lambda>k. (k, the (map_of r k))) (map fst r)"
    using wf(1) by (rule wf_row_distinct [THEN map_of_distinct_expand])
  also have "\<dots> = map (\<lambda>k. (k, the (map_of s k))) (map fst s)"
    by (simp only: fst_eq eq)
  also have "\<dots> = s"
    using wf(2) by (rule wf_row_distinct [THEN map_of_distinct_expand, symmetric])
  finally show ?thesis .
qed

text \<open>A row from a list of columns, as a sequence of map assignments.\<close>

definition row_of :: "(string \<times> pgvalue) list \<Rightarrow> row" where
  "row_of kvs = fold (\<lambda>(c, v). row_put c v) kvs []"

lemma wf_fold_row_put: "wf_row r \<Longrightarrow> wf_row (fold (\<lambda>(c, v). row_put c v) kvs r)"
  by (induction kvs arbitrary: r) auto

lemma wf_row_of [simp, intro]: "wf_row (row_of kvs)"
  by (simp add: row_of_def wf_fold_row_put)

section \<open>WAL positions\<close>

text \<open>
  \<open>pglogrepl.LSN\<close> is a \<open>uint64\<close> (the reader stores it with \<open>uint64(lsn)\<close> and reads it back
  with \<open>pglogrepl.LSN(...)\<close>); comparison is unsigned. Its text form (\<open>LSN.String\<close> and
  \<open>ParseLSN\<close>) is third-party code and stays a parameter of the definitions that use it.
\<close>

datatype lsn = LSN (lsn_val: "64 word")

instantiation lsn :: linorder
begin

definition less_eq_lsn :: "lsn \<Rightarrow> lsn \<Rightarrow> bool" where
  "less_eq_lsn a b \<longleftrightarrow> lsn_val a \<le> lsn_val b"

definition less_lsn :: "lsn \<Rightarrow> lsn \<Rightarrow> bool" where
  "less_lsn a b \<longleftrightarrow> lsn_val a < lsn_val b"

instance
  by standard (auto simp: less_eq_lsn_def less_lsn_def lsn.expand)

end

instantiation lsn :: zero
begin

definition zero_lsn :: lsn where
  "zero_lsn = LSN 0"

instance ..

end

lemma LSN_le [simp]: "LSN a \<le> LSN b \<longleftrightarrow> a \<le> b"
  by (simp add: less_eq_lsn_def)

lemma LSN_less [simp]: "LSN a < LSN b \<longleftrightarrow> a < b"
  by (simp add: less_lsn_def)

lemma lsn_zero_le [simp]: "(0 :: lsn) \<le> l"
  by (simp add: less_eq_lsn_def zero_lsn_def)

section \<open>Decimal text of integers\<close>

text \<open>\<open>strconv.Itoa\<close>, with \<open>digits_value\<close> as its left inverse on the digits.\<close>

definition digit_char :: "nat \<Rightarrow> char" where
  "digit_char d = char_of (48 + d)"

fun nat_digits :: "nat \<Rightarrow> string" where
  "nat_digits n = (if n < 10 then [digit_char n] else nat_digits (n div 10) @ [digit_char (n mod 10)])"

declare nat_digits.simps [simp del]

definition itoa :: "int \<Rightarrow> string" where
  "itoa i = (if i < 0 then CHR ''-'' # nat_digits (nat (- i)) else nat_digits (nat i))"

definition digits_value :: "string \<Rightarrow> nat" where
  "digits_value s = foldl (\<lambda>acc c. 10 * acc + (of_char c - 48)) 0 s"

lemma digits_value_snoc: "digits_value (s @ [c]) = 10 * digits_value s + (of_char c - 48)"
  by (simp add: digits_value_def)

lemma of_char_digit_char [simp]: "d < 10 \<Longrightarrow> (of_char (digit_char d) :: nat) = 48 + d"
  by (simp add: digit_char_def)

lemma digits_value_nat_digits [simp]: "digits_value (nat_digits n) = n"
proof (induction n rule: nat_digits.induct)
  case (1 n)
  then show ?case
    by (subst nat_digits.simps) (auto simp: digits_value_snoc digits_value_def)
qed

lemma nat_digits_inj: "nat_digits m = nat_digits n \<longleftrightarrow> m = n"
  by (metis digits_value_nat_digits)

lemma nat_digits_range: "c \<in> set (nat_digits n) \<Longrightarrow> 48 \<le> (of_char c :: nat) \<and> (of_char c :: nat) < 58"
proof (induction n rule: nat_digits.induct)
  case (1 n)
  then show ?case
    by (cases "n < 10") (auto simp: nat_digits.simps [of n])
qed

lemma nat_digits_no_char: "of_char c < (48 :: nat) \<or> 58 \<le> (of_char c :: nat) \<Longrightarrow> c \<notin> set (nat_digits n)"
  using nat_digits_range by fastforce

lemma itoa_inj: "itoa i = itoa j \<longleftrightarrow> i = j"
proof -
  have "CHR ''-'' \<notin> set (nat_digits n)" for n
    by (rule nat_digits_no_char) simp
  then have "nat_digits m \<noteq> CHR ''-'' # s" for m s
    by (metis list.set_intros(1))
  from this this [symmetric] show ?thesis
    by (auto simp: itoa_def nat_digits_inj)
qed

lemma itoa_no_colon: "CHR '':'' \<notin> set (itoa i)"
  using nat_digits_no_char [of "CHR '':''"] by (auto simp: itoa_def)

text \<open>Splitting at a separator that does not occur in the parts is unambiguous.\<close>

lemma append_sep_inj:
  assumes "a @ x # b = c @ x # d" and "x \<notin> set b" and "x \<notin> set d"
  shows "a = c \<and> b = d"
proof -
  have tw: "x \<notin> set b \<Longrightarrow> takeWhile ((\<noteq>) x) (rev b @ x # rev a) = rev b" for a b
    by (subst takeWhile_append2) auto
  have "rev b @ x # rev a = rev d @ x # rev c"
    using arg_cong [OF assms(1), of rev] by simp
  then have "rev b = rev d"
    using tw [OF assms(2), of a] tw [OF assms(3), of c] by simp
  with assms(1) show ?thesis by simp
qed

lemma append_sep_inj_left:
  assumes "a @ x # b = c @ x # d" and "x \<notin> set a" and "x \<notin> set c"
  shows "a = c \<and> b = d"
proof -
  have "rev b @ x # rev a = rev d @ x # rev c"
    using arg_cong [OF assms(1), of rev] by simp
  then have "rev b = rev d \<and> rev a = rev c"
    using assms(2,3) by (intro append_sep_inj) auto
  then show ?thesis by simp
qed

section \<open>Invariants of step relations\<close>

text \<open>
  The interface the state machines of the reader and of the writer provide: a set of start
  states, a step relation, and a predicate that holds at the start and is kept by every step.
\<close>

locale step_invariant =
  fixes init :: "'s \<Rightarrow> bool"
    and step :: "'s \<Rightarrow> 's \<Rightarrow> bool"
    and inv :: "'s \<Rightarrow> bool"
  assumes inv_init: "init s \<Longrightarrow> inv s"
    and inv_step: "inv s \<Longrightarrow> step s t \<Longrightarrow> inv t"
begin

lemma inv_steps: "step\<^sup>*\<^sup>* s t \<Longrightarrow> inv s \<Longrightarrow> inv t"
  by (induction rule: rtranclp_induct) (auto intro: inv_step)

lemma reachable_inv: "init s \<Longrightarrow> step\<^sup>*\<^sup>* s t \<Longrightarrow> inv t"
  by (auto intro: inv_steps inv_init)

end

end
