(* ===== verification/Errclass.thy ===== *)
theory Errclass
  imports Prelude
begin

text \<open>
  \<open>internal/errclass\<close>: which errors are poison. Go errors are values of \<^term>\<open>goerr\<close>; a
  function returning \<open>error\<close> returns \<open>goerr option\<close> (\<^term>\<open>None\<close> is nil), a function
  returning \<open>(T, error)\<close> returns \<open>goerr + T\<close>. A formatted message is kept as its format
  and its arguments, since no code looks inside the text; what the code inspects is the chain
  that \<open>errors.As\<close> and \<open>errors.Is\<close> walk.
\<close>

named_theorems err_simps "equations about the error chain"

text \<open>
  \<open>Errorf\<close>: \<open>errors.New\<close>, or \<open>fmt.Errorf\<close> without an error argument. \<open>Flatf\<close>:
  \<open>fmt.Errorf\<close> printing an error with \<open>%v\<close> (the error's text only: the chain ends there).
  \<open>Wrapf\<close>: \<open>fmt.Errorf\<close> with \<open>%w\<close>. \<open>PermanentE\<close>: the \<open>permanent\<close> wrapper of this
  package. \<open>PgError\<close>: a \<open>*pgconn.PgError\<close> with its SQLSTATE. \<open>Canceled\<close>: the error of
  an ended context. \<open>ServiceErr\<close>: any other error a library returns (network, broker, file
  system). \<open>Panic\<close>: a Go panic, which ends the process.
\<close>

datatype goerr =
    Errorf string "string list"
  | Flatf string "string list" goerr
  | Wrapf string "string list" goerr
  | PermanentE goerr
  | PgError string
  | ErrNoRows
  | Canceled
  | ServiceErr string
  | Panic string

section \<open>The error chain\<close>

fun unwrap :: "goerr \<Rightarrow> goerr option" where
  "unwrap (Wrapf _ _ e) = Some e"
| "unwrap (PermanentE e) = Some e"
| "unwrap _ = None"

fun errors_as :: "(goerr \<Rightarrow> bool) \<Rightarrow> goerr \<Rightarrow> bool" where
  "errors_as p (Wrapf f a e) \<longleftrightarrow> p (Wrapf f a e) \<or> errors_as p e"
| "errors_as p (PermanentE e) \<longleftrightarrow> p (PermanentE e) \<or> errors_as p e"
| "errors_as p e \<longleftrightarrow> p e"

lemma errors_as_unwrap:
  "errors_as p e \<longleftrightarrow> p e \<or> (case unwrap e of None \<Rightarrow> False | Some e' \<Rightarrow> errors_as p e')"
  by (cases e) auto

definition errors_is :: "goerr \<Rightarrow> goerr \<Rightarrow> bool" where
  "errors_is e target = errors_as (\<lambda>x. x = target) e"

fun is_permanent_type :: "goerr \<Rightarrow> bool" where
  "is_permanent_type (PermanentE _) \<longleftrightarrow> True"
| "is_permanent_type _ \<longleftrightarrow> False"

fun is_pg_error_type :: "goerr \<Rightarrow> bool" where
  "is_pg_error_type (PgError _) \<longleftrightarrow> True"
| "is_pg_error_type _ \<longleftrightarrow> False"

section \<open>The package's functions\<close>

definition Permanent :: "goerr option \<Rightarrow> goerr option" where
  "Permanent err = (case err of None \<Rightarrow> None | Some e \<Rightarrow> Some (PermanentE e))"

definition IsPermanent :: "goerr option \<Rightarrow> bool" where
  "IsPermanent err = (case err of None \<Rightarrow> False | Some e \<Rightarrow> errors_as is_permanent_type e)"

text \<open>
  \<open>Permanentf(format, args...)\<close> is \<open>Permanent(fmt.Errorf(format, args...))\<close>. The callers
  print strings, and at most one error, with \<open>%v\<close>.
\<close>

definition Permanentf :: "string \<Rightarrow> string list \<Rightarrow> goerr option \<Rightarrow> goerr" where
  "Permanentf format args err =
     the (Permanent (Some (case err of None \<Rightarrow> Errorf format args | Some e \<Rightarrow> Flatf format args e)))"

definition PostgresPermanent :: "goerr option \<Rightarrow> bool" where
  "PostgresPermanent err = (case err of None \<Rightarrow> False | Some e \<Rightarrow> errors_as is_pg_error_type e)"

lemma IsPermanent_simps [simp, err_simps]:
  "IsPermanent None = False"
  "IsPermanent (Some (Wrapf f a e)) = IsPermanent (Some e)"
  "IsPermanent (Some (PermanentE e)) = True"
  "IsPermanent (Some (Errorf f a)) = False"
  "IsPermanent (Some (Flatf f a e)) = False"
  "IsPermanent (Some (PgError c)) = False"
  "IsPermanent (Some ErrNoRows) = False"
  "IsPermanent (Some Canceled) = False"
  "IsPermanent (Some (ServiceErr m)) = False"
  "IsPermanent (Some (Panic m)) = False"
  by (simp_all add: IsPermanent_def)

lemma IsPermanent_Permanentf [simp, err_simps]: "IsPermanent (Some (Permanentf f a e))"
  by (simp add: Permanentf_def Permanent_def split: option.split)

lemma PostgresPermanent_simps [simp, err_simps]:
  "PostgresPermanent None = False"
  "PostgresPermanent (Some (Wrapf f a e)) = PostgresPermanent (Some e)"
  "PostgresPermanent (Some (PermanentE e)) = PostgresPermanent (Some e)"
  "PostgresPermanent (Some (Errorf f a)) = False"
  "PostgresPermanent (Some (Flatf f a e)) = False"
  "PostgresPermanent (Some (PgError c)) = True"
  "PostgresPermanent (Some ErrNoRows) = False"
  "PostgresPermanent (Some Canceled) = False"
  "PostgresPermanent (Some (ServiceErr m)) = False"
  "PostgresPermanent (Some (Panic m)) = False"
  by (simp_all add: PostgresPermanent_def)

text \<open>\<open>Error()\<close> of the wrapper is the text of the wrapped error: no text is added.\<close>

fun permanent_Error :: "goerr \<Rightarrow> goerr" where
  "permanent_Error (PermanentE e) = permanent_Error e"
| "permanent_Error e = e"

lemma IsPermanent_Permanent: "IsPermanent (Permanent err) \<longleftrightarrow> err \<noteq> None"
  by (simp add: Permanent_def split: option.split)

lemma PostgresPermanent_Permanent [simp]: "PostgresPermanent (Permanent err) = PostgresPermanent err"
  by (simp add: Permanent_def split: option.split)

end
