(* ===== verification/Cdc_Event.thy ===== *)
theory Cdc_Event
  imports Errclass
begin

text \<open>
  \<open>internal/cdc\<close>: the event that travels from the reader to the writer, its validation and
  the key it is produced under.
\<close>

section \<open>The event\<close>

text \<open>
  \<open>type Operation string\<close> with four constants; any other string is \<open>OtherOp\<close> (never with
  one of the four names, which \<open>op_of\<close> sends to their constructors).
\<close>

datatype operation = OperationInsert | OperationUpdate | OperationDelete | OperationTruncate | OtherOp string

fun op_string :: "operation \<Rightarrow> string" where
  "op_string OperationInsert = ''insert''"
| "op_string OperationUpdate = ''update''"
| "op_string OperationDelete = ''delete''"
| "op_string OperationTruncate = ''truncate''"
| "op_string (OtherOp s) = s"

definition op_of :: "string \<Rightarrow> operation" where
  "op_of s = (if s = ''insert'' then OperationInsert else if s = ''update'' then OperationUpdate
              else if s = ''delete'' then OperationDelete else if s = ''truncate'' then OperationTruncate
              else OtherOp s)"

lemma op_string_op_of [simp]: "op_string (op_of s) = s"
  by (simp add: op_of_def)

text \<open>A \<open>time.Time\<close> is a count of nanoseconds; \<open>Sequence\<close> and the counts are Go \<open>int\<close>s.\<close>

record source_metadata =
  TransactionID :: "32 word"
  CommitLSN :: string
  TransactionEndLSN :: string
  CommitTime :: int
  Sequence :: int
  TransactionEventCount :: int

record event =
  Version :: int
  ID :: string
  Schema :: string
  Table :: string
  Operation :: operation
  Key :: row
  Before :: row
  After :: row
  Source :: source_metadata
  UnchangedColumns :: "string list"

definition EventVersion :: int where
  "EventVersion = 1"

section \<open>Validation\<close>

definition Validate :: "event \<Rightarrow> goerr option" where
  "Validate event =
     (if Version event \<noteq> EventVersion
      then Some (Errorf ''unsupported event version %d'' [itoa (Version event)])
      else if ID event = [] \<or> Schema event = [] \<or> Table event = []
      then Some (Errorf ''event id, schema, and table are required'' [])
      else (case Operation event of
          OperationInsert \<Rightarrow>
            (if Key event = [] then Some (Errorf ''event %s has no key'' [ID event])
             else if After event = []
             then Some (Errorf ''%s event %s has no after row'' [op_string (Operation event), ID event])
             else None)
        | OperationUpdate \<Rightarrow>
            (if Key event = [] then Some (Errorf ''event %s has no key'' [ID event])
             else if After event = []
             then Some (Errorf ''%s event %s has no after row'' [op_string (Operation event), ID event])
             else None)
        | OperationDelete \<Rightarrow>
            (if Key event = [] then Some (Errorf ''event %s has no key'' [ID event]) else None)
        | OperationTruncate \<Rightarrow> None
        | OtherOp s \<Rightarrow> Some (Errorf ''unsupported operation %q'' [s])))"

text \<open>What a valid event is, as a predicate.\<close>

definition valid_event :: "event \<Rightarrow> bool" where
  "valid_event e \<longleftrightarrow>
     Version e = 1 \<and> ID e \<noteq> [] \<and> Schema e \<noteq> [] \<and> Table e \<noteq> [] \<and>
     (case Operation e of
        OperationInsert \<Rightarrow> Key e \<noteq> [] \<and> After e \<noteq> []
      | OperationUpdate \<Rightarrow> Key e \<noteq> [] \<and> After e \<noteq> []
      | OperationDelete \<Rightarrow> Key e \<noteq> []
      | OperationTruncate \<Rightarrow> True
      | OtherOp _ \<Rightarrow> False)"

lemma Validate_None_iff: "Validate e = None \<longleftrightarrow> valid_event e"
  by (simp add: Validate_def valid_event_def EventVersion_def split: operation.split)

lemma Validate_not_permanent: "\<not> IsPermanent (Validate e)"
  by (simp add: Validate_def split: operation.split)

section \<open>The Kafka key\<close>

definition key_value_text :: "row \<Rightarrow> string \<Rightarrow> string" where
  "key_value_text key column =
     (case row_get key column of Some (Some v) \<Rightarrow> v | _ \<Rightarrow> ''NULL'')"

text \<open>
  The columns are collected in the order of the map (here: any order) and sorted; each is then
  written as \<open>|column=value\<close>.
\<close>

definition KafkaKey :: "event \<Rightarrow> string" where
  "KafkaKey event =
     (let columns = sort (row_cols (Key event))
      in Schema event @ ''.'' @ Table event @
         concat (map (\<lambda>column. ''|'' @ column @ ''='' @ key_value_text (Key event) column) columns))"

text \<open>
  Keys whose column names and values keep clear of the two separators, and whose values are
  not NULL, as the decoder produces them for keys without these characters.
\<close>

definition plain_key :: "row \<Rightarrow> bool" where
  "plain_key key \<longleftrightarrow> wf_row key \<and>
     (\<forall>(c, v) \<in> set key. CHR ''='' \<notin> set c \<and> CHR ''|'' \<notin> set c \<and>
        (case v of None \<Rightarrow> False | Some t \<Rightarrow> CHR ''|'' \<notin> set t))"

definition key_part :: "string \<times> pgvalue \<Rightarrow> string" where
  "key_part p = fst p @ ''='' @ (case snd p of Some v \<Rightarrow> v | None \<Rightarrow> ''NULL'')"

lemma KafkaKey_parts:
  assumes "wf_row (Key e)"
  shows "KafkaKey e = Schema e @ ''.'' @ Table e @ concat (map (\<lambda>p. CHR ''|'' # key_part p) (Key e))"
proof -
  have "CHR ''|'' # fst p @ ''='' @ key_value_text (Key e) (fst p) = CHR ''|'' # key_part p" if "p \<in> set (Key e)" for p
    using assms that by (cases p) (auto simp: key_part_def key_value_text_def row_get_in split: option.split)
  then have "map (\<lambda>c. ''|'' @ c @ ''='' @ key_value_text (Key e) c) (row_cols (Key e)) =
        map (\<lambda>p. CHR ''|'' # key_part p) (Key e)"
    by (simp add: row_cols_def)
  then show ?thesis
    using assms by (simp only: KafkaKey_def Let_def sort_row_cols)
qed

lemma bar_parts_inj:
  assumes "concat (map (\<lambda>p. x # f p) ps) = concat (map (\<lambda>p. x # f p) qs)"
    and "\<forall>p \<in> set ps. x \<notin> set (f p)" and "\<forall>q \<in> set qs. x \<notin> set (f q)"
  shows "map f ps = map f qs"
  using assms
proof (induction ps arbitrary: qs)
  case Nil
  then show ?case by (cases qs) auto
next
  case (Cons p ps)
  then obtain q qs' where qs: "qs = q # qs'"
    by (cases qs) auto
  have tw: "takeWhile ((\<noteq>) x) (f p @ concat (map (\<lambda>p. x # f p) ps)) = f p" if "x \<notin> set (f p)" for p ps
  proof -
    have "\<And>y. y \<in> set (f p) \<Longrightarrow> x \<noteq> y"
      using that by blast
    then show ?thesis
      by (cases ps) (simp_all add: takeWhile_append2)
  qed
  have eq: "f p @ concat (map (\<lambda>p. x # f p) ps) = f q @ concat (map (\<lambda>p. x # f p) qs')"
    using Cons.prems(1) qs by simp
  then have "f p = f q"
    using tw [of p ps] tw [of q qs'] Cons.prems(2,3) qs by simp
  with eq have "map f ps = map f qs'"
    using Cons.prems(2,3) qs by (intro Cons.IH) auto
  with \<open>f p = f q\<close> qs show ?case by simp
qed

lemma key_part_inj:
  assumes "key_part p = key_part q"
    and "CHR ''='' \<notin> set (fst p)" "snd p \<noteq> None" and "CHR ''='' \<notin> set (fst q)" "snd q \<noteq> None"
  shows "p = q"
proof -
  obtain v w where vw: "snd p = Some v" "snd q = Some w"
    using assms by auto
  then have "fst p @ CHR ''='' # v = fst q @ CHR ''='' # w"
    using assms(1) by (simp add: key_part_def)
  then show ?thesis
    using append_sep_inj_left assms(2,4) vw by (metis prod.expand)
qed

lemma plain_keys_eq:
  assumes "map key_part r = map key_part s" and "plain_key r" and "plain_key s"
  shows "r = s"
proof -
  have plain: "CHR ''='' \<notin> set (fst p) \<and> snd p \<noteq> None" if "p \<in> set r \<union> set s" for p
    using that assms(2,3) by (auto simp: plain_key_def split: option.splits)
  have "inj_on key_part (set r \<union> set s)"
    by (rule inj_onI) (use plain in \<open>blast intro: key_part_inj\<close>)
  then show ?thesis
    using assms(1) by (simp add: inj_on_map_eq_map)
qed

lemma plain_key_no_bar:
  assumes "plain_key r" and "p \<in> set r"
  shows "CHR ''|'' \<notin> set (key_part p)"
  using assms by (cases p) (auto simp: plain_key_def key_part_def split: option.splits)

lemma KafkaKey_inj:
  assumes "KafkaKey e = KafkaKey f" and "Schema e = Schema f" and "Table e = Table f"
    and "plain_key (Key e)" and "plain_key (Key f)"
  shows "Key e = Key f"
proof -
  have "wf_row (Key e)" "wf_row (Key f)"
    using assms(4,5) by (auto simp: plain_key_def)
  then have "concat (map (\<lambda>p. CHR ''|'' # key_part p) (Key e)) =
             concat (map (\<lambda>p. CHR ''|'' # key_part p) (Key f))"
    using assms(1-3) by (simp add: KafkaKey_parts)
  then have "map key_part (Key e) = map key_part (Key f)"
    by (rule bar_parts_inj) (use assms(4,5) in \<open>auto dest: plain_key_no_bar\<close>)
  then show ?thesis
    using assms(4,5) by (rule plain_keys_eq)
qed

end
