(* ===== verification/Decoder.thy ===== *)
theory Decoder
  imports Cdc_Event
begin

text \<open>
  \<open>internal/source/decoder.go\<close>: the pgoutput decoder. It buffers the row changes of the open
  source transaction (in memory up to \<open>spoolCap\<close>, the rest as JSON lines in a temporary
  file) and, after Commit, hands the events out one at a time.
\<close>

section \<open>Messages\<close>

text \<open>The fields of the \<open>pglogrepl\<close> messages the decoder reads. A pointer that may be nil is an option.\<close>

record rel_column =
  col_Flags :: "8 word"
  col_Name :: string

record relation_message =
  RelationID :: "32 word"
  Namespace :: string
  RelationName :: string
  ReplicaIdentity :: char
  Columns :: "rel_column list"

record tuple_column =
  DataType :: char
  Data :: string

type_synonym tuple_data = "tuple_column list"

datatype message =
    RelationMsg relation_message
  | BeginMsg "32 word"
  | InsertMsg "32 word" "tuple_data option"
  | UpdateMsg "32 word" char "tuple_data option" "tuple_data option"
  | DeleteMsg "32 word" char "tuple_data option"
  | TruncateMsg "32 word list"
  | CommitMsg lsn lsn int
  | OtherMsg

section \<open>State\<close>

definition DefaultSpoolCap :: int where
  "DefaultSpoolCap = 4096"

record committed_transaction =
  ct_TransactionID :: "32 word"
  ct_CommitLSN :: lsn
  ct_EndLSN :: lsn
  ct_CommitTime :: int
  ct_Count :: int

record pending_change =
  ch_Schema :: string
  ch_Table :: string
  ch_Operation :: operation
  ch_Key :: row
  ch_Before :: row
  ch_After :: row
  ch_Unchanged :: "string list"

text \<open>\<open>tx_spool\<close> is nil (\<^term>\<open>None\<close>) or the bytes written to the temporary file so far.\<close>

record pending_transaction =
  tx_id :: "32 word"
  tx_mem :: "pending_change list"
  tx_spool :: "string option"
  tx_spoolPath :: string
  tx_spoolN :: nat

text \<open>\<open>pull_spool\<close> is the spool reader: nil, or the bytes it has not returned yet.\<close>

record pull_state =
  pull_commit :: committed_transaction
  pull_changes :: "pending_change list"
  pull_spool :: "string option"
  pull_spoolPath :: string
  pull_seq :: nat

text \<open>
  \<open>temp_files\<close> is not a field of the Go struct: it is the list of the spool files that exist
  in the temporary directory, which the decoder creates and removes.
\<close>

record decoder =
  relations :: "32 word \<rightharpoonup> relation_message"
  keys :: "32 word \<rightharpoonup> string list"
  identity :: "(string \<Rightarrow> string \<Rightarrow> string list) option"
  transaction :: "pending_transaction option"
  pull :: "pull_state option"
  spoolCap :: int
  temp_files :: "string list"

text \<open>
  What lies outside the code: the text form of an LSN (\<open>pglogrepl\<close>), the JSON encoding of a
  change, and the file system, whose calls may fail (\<open>os.CreateTemp\<close> given the existing files;
  a write after so many spooled lines; the seek; the read of event so-and-so).
\<close>

record source_env =
  lsn_string :: "lsn \<Rightarrow> string"
  marshal :: "pending_change \<Rightarrow> string option"
  unmarshal :: "string \<Rightarrow> pending_change option"
  create_temp :: "string list \<Rightarrow> string option"
  write_ok :: "nat \<Rightarrow> bool"
  seek_ok :: bool
  read_ok :: "nat \<Rightarrow> bool"

definition NewDecoder :: decoder where
  "NewDecoder = \<lparr>relations = Map.empty, keys = Map.empty, identity = None, transaction = None, pull = None,
                 spoolCap = DefaultSpoolCap, temp_files = []\<rparr>"

definition NewDecoderWithIdentity :: "(string \<Rightarrow> string \<Rightarrow> string list) \<Rightarrow> decoder" where
  "NewDecoderWithIdentity resolve = NewDecoder\<lparr>identity := Some resolve\<rparr>"

definition NewDecoderWithSpoolCap :: "int \<Rightarrow> decoder" where
  "NewDecoderWithSpoolCap cap = NewDecoder\<lparr>spoolCap := cap\<rparr>"

section \<open>Rows\<close>

definition is_key_column :: "rel_column \<Rightarrow> bool" where
  "is_key_column column \<longleftrightarrow> bit (col_Flags column) 0"

text \<open>The loop of \<open>decodeTuple\<close> over the relation's columns and the tuple's values.\<close>

fun decode_columns ::
  "bool \<Rightarrow> row \<Rightarrow> (rel_column \<times> tuple_column) list \<Rightarrow> row \<Rightarrow> string list \<Rightarrow> goerr + row \<times> string list" where
  "decode_columns keyOnly fill [] row unchanged = Inr (row, unchanged)"
| "decode_columns keyOnly fill ((column, value) # rest) row unchanged =
     (if keyOnly \<and> \<not> is_key_column column then decode_columns keyOnly fill rest row unchanged
      else if DataType value = CHR ''n''
      then decode_columns keyOnly fill rest (row_put (col_Name column) None row) unchanged
      else if DataType value = CHR ''t''
      then decode_columns keyOnly fill rest (row_put (col_Name column) (Some (Data value)) row) unchanged
      else if DataType value = CHR ''u''
      then (if keyOnly
            then Inl (Errorf ''primary-key column %q cannot be an unchanged TOAST value'' [col_Name column])
            else (case row_get fill (col_Name column) of
                    Some (Some filled) \<Rightarrow>
                      decode_columns keyOnly fill rest (row_put (col_Name column) (Some filled) row) unchanged
                  | _ \<Rightarrow> decode_columns keyOnly fill rest row (unchanged @ [col_Name column])))
      else if DataType value = CHR ''b''
      then Inl (Errorf ''binary column %q is not supported'' [col_Name column])
      else Inl (Errorf ''column %q has unknown tuple type %q'' [col_Name column, [DataType value]]))"

definition decodeTuple ::
  "relation_message \<Rightarrow> tuple_data option \<Rightarrow> bool \<Rightarrow> row \<Rightarrow> goerr + row \<times> string list" where
  "decodeTuple relation tuple keyOnly fill =
     (case tuple of
        None \<Rightarrow> Inl (Errorf ''tuple is missing'' [])
      | Some values \<Rightarrow>
          if length values \<noteq> length (Columns relation)
          then Inl (Errorf ''tuple has %d columns, relation metadata has %d''
                      [itoa (int (length values)), itoa (int (length (Columns relation)))])
          else decode_columns keyOnly fill (zip (Columns relation) values) [] [])"

text \<open>The loop of \<open>primaryKey\<close> over the key columns.\<close>

fun key_columns_row :: "row \<Rightarrow> string list \<Rightarrow> row \<Rightarrow> goerr + row" where
  "key_columns_row row [] key = Inr key"
| "key_columns_row row (column # columns) key =
     (case row_get row column of
        None \<Rightarrow> Inl (Errorf ''primary-key column %q is missing'' [column])
      | Some None \<Rightarrow> Inl (Errorf ''primary-key column %q is NULL'' [column])
      | Some (Some value) \<Rightarrow> key_columns_row row columns (row_put column (Some value) key))"

text \<open>The key columns: those of the catalog resolver, else those flagged by pgoutput.\<close>

definition key_columns :: "decoder \<Rightarrow> relation_message \<Rightarrow> string list" where
  "key_columns d relation =
     (let columns = (case keys d (RelationID relation) of None \<Rightarrow> [] | Some cs \<Rightarrow> cs)
      in if columns = [] then map col_Name (filter is_key_column (Columns relation)) else columns)"

definition primaryKey :: "decoder \<Rightarrow> relation_message \<Rightarrow> row \<Rightarrow> goerr + row" where
  "primaryKey d relation row =
     (case key_columns_row row (key_columns d relation) [] of
        Inl err \<Rightarrow> Inl err
      | Inr key \<Rightarrow>
          if key = [] then Inl (Errorf ''table %s.%s has no primary key'' [Namespace relation, RelationName relation])
          else Inr key)"

fun equalValues :: "pgvalue \<Rightarrow> pgvalue \<Rightarrow> bool" where
  "equalValues None None \<longleftrightarrow> True"
| "equalValues (Some l) (Some r) \<longleftrightarrow> l = r"
| "equalValues _ _ \<longleftrightarrow> False"

definition equalRows :: "row \<Rightarrow> row \<Rightarrow> bool" where
  "equalRows left right \<longleftrightarrow>
     length left = length right \<and>
     list_all (\<lambda>(column, leftValue).
       case row_get right column of None \<Rightarrow> False | Some rightValue \<Rightarrow> equalValues leftValue rightValue) left"

section \<open>The transaction buffer\<close>

definition newline :: char where
  "newline = CHR 0x0A"

text \<open>
  \<open>Decoder.append\<close> on the open transaction and the temporary directory: memory first, then
  the spool file, created when the first change overflows.
\<close>

definition spool_line ::
  "source_env \<Rightarrow> pending_transaction \<Rightarrow> string list \<Rightarrow> pending_change
     \<Rightarrow> goerr option \<times> pending_transaction \<times> string list" where
  "spool_line env tx files change =
     (case marshal env change of
        None \<Rightarrow> (Some (Wrapf ''spool transaction event: %w'' [] (ServiceErr ''json'')), tx, files)
      | Some line \<Rightarrow>
          if \<not> write_ok env (tx_spoolN tx)
          then (Some (Wrapf ''write transaction spool: %w'' [] (ServiceErr ''write'')), tx, files)
          else (None,
                tx\<lparr>tx_spool := Some (the (tx_spool tx) @ line @ [newline]), tx_spoolN := tx_spoolN tx + 1\<rparr>,
                files))"

definition tx_append ::
  "source_env \<Rightarrow> int \<Rightarrow> pending_transaction \<Rightarrow> string list \<Rightarrow> pending_change
     \<Rightarrow> goerr option \<times> pending_transaction \<times> string list" where
  "tx_append env cap tx files change =
     (if int (length (tx_mem tx)) < cap
      then (None, tx\<lparr>tx_mem := tx_mem tx @ [change]\<rparr>, files)
      else if tx_spool tx = None
      then (case create_temp env files of
              None \<Rightarrow> (Some (Wrapf ''create transaction spool: %w'' [] (ServiceErr ''create'')), tx, files)
            | Some path \<Rightarrow>
                spool_line env (tx\<lparr>tx_spool := Some [], tx_spoolPath := path\<rparr>) (path # files) change)
      else spool_line env tx files change)"

definition decoder_append :: "source_env \<Rightarrow> decoder \<Rightarrow> pending_change \<Rightarrow> goerr option \<times> decoder" where
  "decoder_append env d change =
     (case transaction d of
        None \<Rightarrow> (Some (Errorf ''received row change outside a transaction'' []), d)
      | Some tx \<Rightarrow>
          (case tx_append env (spoolCap d) tx (temp_files d) change of
             (err, tx', files) \<Rightarrow> (err, d\<lparr>transaction := Some tx', temp_files := files\<rparr>)))"

definition closePull :: "decoder \<Rightarrow> decoder" where
  "closePull d =
     (case pull d of
        None \<Rightarrow> d
      | Some p \<Rightarrow>
          (case pull_spool p of
             None \<Rightarrow> d\<lparr>pull := None\<rparr>
           | Some _ \<Rightarrow> d\<lparr>pull := None, temp_files := removeAll (pull_spoolPath p) (temp_files d)\<rparr>))"

definition Reset :: "decoder \<Rightarrow> decoder" where
  "Reset d0 =
     (let d = closePull d0;
          files = (case transaction d of
                     None \<Rightarrow> temp_files d
                   | Some tx \<Rightarrow>
                       (case tx_spool tx of None \<Rightarrow> temp_files d
                        | Some _ \<Rightarrow> removeAll (tx_spoolPath tx) (temp_files d)))
      in d\<lparr>transaction := None, relations := Map.empty, temp_files := files\<rparr>)"

section \<open>Handle\<close>

type_synonym handle_result = "goerr + committed_transaction option"

definition decoder_relation :: "decoder \<Rightarrow> 32 word \<Rightarrow> goerr + relation_message" where
  "decoder_relation d rid =
     (case relations d rid of
        None \<Rightarrow> Inl (Errorf ''relation %d has not been described'' [itoa (uint rid)])
      | Some relation \<Rightarrow> Inr relation)"

definition append_result :: "goerr option \<times> decoder \<Rightarrow> handle_result \<times> decoder" where
  "append_result r = (case r of (None, d) \<Rightarrow> (Inr None, d) | (Some err, d) \<Rightarrow> (Inl err, d))"

definition handle_relation :: "decoder \<Rightarrow> relation_message \<Rightarrow> handle_result \<times> decoder" where
  "handle_relation d m =
     (let d1 = d\<lparr>relations := (relations d)(RelationID m \<mapsto> m)\<rparr>
      in (Inr None,
          (case identity d1 of
             None \<Rightarrow> d1
           | Some resolve \<Rightarrow>
               d1\<lparr>keys := (keys d1)(RelationID m \<mapsto> resolve (Namespace m) (RelationName m))\<rparr>)))"

definition handle_begin :: "decoder \<Rightarrow> 32 word \<Rightarrow> handle_result \<times> decoder" where
  "handle_begin d xid =
     (case transaction d of
        Some tx \<Rightarrow>
          (Inl (Errorf ''received begin for transaction %d while transaction %d is open''
                  [itoa (uint xid), itoa (uint (tx_id tx))]), d)
      | None \<Rightarrow>
          (Inr None,
           d\<lparr>transaction := Some \<lparr>tx_id = xid, tx_mem = [], tx_spool = None, tx_spoolPath = [], tx_spoolN = 0\<rparr>\<rparr>))"

definition handle_insert :: "source_env \<Rightarrow> decoder \<Rightarrow> 32 word \<Rightarrow> tuple_data option \<Rightarrow> handle_result \<times> decoder" where
  "handle_insert env d rid tuple =
     (case decoder_relation d rid of
        Inl err \<Rightarrow> (Inl err, d)
      | Inr relation \<Rightarrow>
     (case decodeTuple relation tuple False [] of
        Inl err \<Rightarrow> (Inl (Wrapf ''decode insert for %s.%s: %w'' [Namespace relation, RelationName relation] err), d)
      | Inr (after, unchanged) \<Rightarrow>
          if unchanged \<noteq> []
          then (Inl (Errorf ''insert for %s.%s carries unchanged TOAST markers''
                       [Namespace relation, RelationName relation]), d)
          else
     (case primaryKey d relation after of
        Inl err \<Rightarrow> (Inl err, d)
      | Inr key \<Rightarrow>
          append_result (decoder_append env d
            \<lparr>ch_Schema = Namespace relation, ch_Table = RelationName relation, ch_Operation = OperationInsert,
             ch_Key = key, ch_Before = [], ch_After = after, ch_Unchanged = []\<rparr>))))"

text \<open>The old image of an update: the row and its key, or nothing when no old tuple was sent.\<close>

definition update_old ::
  "decoder \<Rightarrow> relation_message \<Rightarrow> char \<Rightarrow> tuple_data option \<Rightarrow> goerr + row \<times> row option" where
  "update_old d relation oldType oldTuple =
     (case oldTuple of
        None \<Rightarrow> Inr ([], None)
      | Some _ \<Rightarrow>
          (case decodeTuple relation oldTuple (oldType = CHR ''K'') [] of
             Inl err \<Rightarrow> Inl (Wrapf ''decode old update tuple for %s.%s: %w''
                               [Namespace relation, RelationName relation] err)
           | Inr (oldRow, _) \<Rightarrow>
               (case primaryKey d relation oldRow of
                  Inl err \<Rightarrow> Inl err
                | Inr oldKey \<Rightarrow> Inr (oldRow, Some oldKey))))"

text \<open>On a key change, the unchanged columns are filled from the old image.\<close>

fun fill_unchanged :: "relation_message \<Rightarrow> row \<Rightarrow> string list \<Rightarrow> row \<Rightarrow> goerr + row" where
  "fill_unchanged relation oldRow [] after = Inr after"
| "fill_unchanged relation oldRow (column # columns) after =
     (case row_get oldRow column of
        Some (Some value) \<Rightarrow> fill_unchanged relation oldRow columns (row_put column (Some value) after)
      | _ \<Rightarrow> Inl (Errorf ''unchanged TOAST column %q has no old image while changing the key of %s.%s; set REPLICA IDENTITY FULL''
                    [column, Namespace relation, RelationName relation]))"

definition handle_update ::
  "source_env \<Rightarrow> decoder \<Rightarrow> 32 word \<Rightarrow> char \<Rightarrow> tuple_data option \<Rightarrow> tuple_data option \<Rightarrow> handle_result \<times> decoder" where
  "handle_update env d rid oldType oldTuple newTuple =
     (case decoder_relation d rid of
        Inl err \<Rightarrow> (Inl err, d)
      | Inr relation \<Rightarrow>
     (case update_old d relation oldType oldTuple of
        Inl err \<Rightarrow> (Inl err, d)
      | Inr (oldRow, oldKey) \<Rightarrow>
     (case decodeTuple relation newTuple False oldRow of
        Inl err \<Rightarrow> (Inl (Wrapf ''decode new update tuple for %s.%s: %w''
                          [Namespace relation, RelationName relation] err), d)
      | Inr (after, afterUnchanged) \<Rightarrow>
     (case primaryKey d relation after of
        Inl err \<Rightarrow> (Inl err, d)
      | Inr newKey \<Rightarrow>
     (case oldKey of
        Some okey \<Rightarrow>
          if \<not> equalRows okey newKey
          then (case fill_unchanged relation oldRow afterUnchanged after of
                  Inl err \<Rightarrow> (Inl err, d)
                | Inr after' \<Rightarrow>
                    (case decoder_append env d
                       \<lparr>ch_Schema = Namespace relation, ch_Table = RelationName relation, ch_Operation = OperationDelete,
                        ch_Key = okey, ch_Before = oldRow, ch_After = [], ch_Unchanged = []\<rparr> of
                       (Some err, d') \<Rightarrow> (Inl err, d')
                     | (None, d') \<Rightarrow>
                         append_result (decoder_append env d'
                           \<lparr>ch_Schema = Namespace relation, ch_Table = RelationName relation,
                            ch_Operation = OperationInsert, ch_Key = newKey, ch_Before = [], ch_After = after',
                            ch_Unchanged = []\<rparr>)))
          else append_result (decoder_append env d
                 \<lparr>ch_Schema = Namespace relation, ch_Table = RelationName relation, ch_Operation = OperationUpdate,
                  ch_Key = okey, ch_Before = oldRow, ch_After = after, ch_Unchanged = afterUnchanged\<rparr>)
      | None \<Rightarrow>
          append_result (decoder_append env d
            \<lparr>ch_Schema = Namespace relation, ch_Table = RelationName relation, ch_Operation = OperationUpdate,
             ch_Key = newKey, ch_Before = oldRow, ch_After = after, ch_Unchanged = afterUnchanged\<rparr>))))))"

definition handle_delete ::
  "source_env \<Rightarrow> decoder \<Rightarrow> 32 word \<Rightarrow> char \<Rightarrow> tuple_data option \<Rightarrow> handle_result \<times> decoder" where
  "handle_delete env d rid oldType oldTuple =
     (case decoder_relation d rid of
        Inl err \<Rightarrow> (Inl err, d)
      | Inr relation \<Rightarrow>
     (case decodeTuple relation oldTuple (oldType = CHR ''K'') [] of
        Inl err \<Rightarrow> (Inl (Wrapf ''decode delete for %s.%s: %w'' [Namespace relation, RelationName relation] err), d)
      | Inr (before, _) \<Rightarrow>
     (case primaryKey d relation before of
        Inl err \<Rightarrow> (Inl err, d)
      | Inr key \<Rightarrow>
          append_result (decoder_append env d
            \<lparr>ch_Schema = Namespace relation, ch_Table = RelationName relation, ch_Operation = OperationDelete,
             ch_Key = key, ch_Before = before, ch_After = [], ch_Unchanged = []\<rparr>))))"

definition truncate_change :: "relation_message \<Rightarrow> pending_change" where
  "truncate_change relation =
     \<lparr>ch_Schema = Namespace relation, ch_Table = RelationName relation, ch_Operation = OperationTruncate,
      ch_Key = [], ch_Before = [], ch_After = [], ch_Unchanged = []\<rparr>"

fun truncate_relations :: "source_env \<Rightarrow> decoder \<Rightarrow> 32 word list \<Rightarrow> handle_result \<times> decoder" where
  "truncate_relations env d [] = (Inr None, d)"
| "truncate_relations env d (rid # rids) =
     (case decoder_relation d rid of
        Inl err \<Rightarrow> (Inl (Wrapf ''truncate references undescribed relation %d: %w'' [itoa (uint rid)] err), d)
      | Inr relation \<Rightarrow>
          (case decoder_append env d (truncate_change relation) of
             (Some err, d') \<Rightarrow> (Inl err, d')
           | (None, d') \<Rightarrow> truncate_relations env d' rids))"

definition handle_truncate :: "source_env \<Rightarrow> decoder \<Rightarrow> 32 word list \<Rightarrow> handle_result \<times> decoder" where
  "handle_truncate env d rids =
     (if transaction d = None then (Inl (Errorf ''received truncate outside a transaction'' []), d)
      else truncate_relations env d rids)"

definition handle_commit :: "source_env \<Rightarrow> decoder \<Rightarrow> lsn \<Rightarrow> lsn \<Rightarrow> int \<Rightarrow> handle_result \<times> decoder" where
  "handle_commit env d commitLSN endLSN commitTime =
     (case transaction d of
        None \<Rightarrow> (Inl (Errorf ''received commit with no open transaction'' []), d)
      | Some tx \<Rightarrow>
          (let descriptor = \<lparr>ct_TransactionID = tx_id tx, ct_CommitLSN = commitLSN, ct_EndLSN = endLSN,
                             ct_CommitTime = commitTime, ct_Count = int (length (tx_mem tx) + tx_spoolN tx)\<rparr>;
               d' = d\<lparr>transaction := None,
                      pull := Some \<lparr>pull_commit = descriptor, pull_changes = tx_mem tx, pull_spool = tx_spool tx,
                                    pull_spoolPath = tx_spoolPath tx, pull_seq = 0\<rparr>\<rparr>
           in if tx_spool tx \<noteq> None \<and> \<not> seek_ok env
              then (Inl (Wrapf ''rewind transaction spool: %w'' [] (ServiceErr ''seek'')), closePull d')
              else (Inr (Some descriptor), d')))"

definition Handle :: "source_env \<Rightarrow> decoder \<Rightarrow> message \<Rightarrow> handle_result \<times> decoder" where
  "Handle env d message =
     (case message of
        RelationMsg m \<Rightarrow> handle_relation d m
      | BeginMsg xid \<Rightarrow> handle_begin d xid
      | InsertMsg rid tuple \<Rightarrow> handle_insert env d rid tuple
      | UpdateMsg rid oldType oldTuple newTuple \<Rightarrow> handle_update env d rid oldType oldTuple newTuple
      | DeleteMsg rid oldType oldTuple \<Rightarrow> handle_delete env d rid oldType oldTuple
      | TruncateMsg rids \<Rightarrow> handle_truncate env d rids
      | CommitMsg commitLSN endLSN commitTime \<Rightarrow> handle_commit env d commitLSN endLSN commitTime
      | OtherMsg \<Rightarrow> (Inr None, d))"

section \<open>NextEvent\<close>

text \<open>\<open>ReadBytes(newline)\<close>: up to and including the delimiter, or everything left.\<close>

fun read_line :: "string \<Rightarrow> string \<times> string" where
  "read_line [] = ([], [])"
| "read_line (c # s) = (if c = newline then ([c], s) else (case read_line s of (l, r) \<Rightarrow> (c # l, r)))"

definition event_of :: "source_env \<Rightarrow> committed_transaction \<Rightarrow> nat \<Rightarrow> pending_change \<Rightarrow> event" where
  "event_of env commit n change =
     \<lparr>Version = EventVersion,
      ID = lsn_string env (ct_CommitLSN commit) @ '':'' @ itoa (int n),
      Schema = ch_Schema change,
      Table = ch_Table change,
      Operation = ch_Operation change,
      Key = ch_Key change,
      Before = ch_Before change,
      After = ch_After change,
      Source = \<lparr>TransactionID = ct_TransactionID commit,
                CommitLSN = lsn_string env (ct_CommitLSN commit),
                TransactionEndLSN = lsn_string env (ct_EndLSN commit),
                CommitTime = ct_CommitTime commit,
                Sequence = int n,
                TransactionEventCount = ct_Count commit\<rparr>,
      UnchangedColumns = ch_Unchanged change\<rparr>"

text \<open>The change \<open>NextEvent\<close> hands out next, with the reader state after it.\<close>

datatype pulled = Pulled pending_change pull_state | Drained | PullFailed goerr

definition pull_change :: "source_env \<Rightarrow> pull_state \<Rightarrow> pulled" where
  "pull_change env p =
     (if pull_seq p < length (pull_changes p) then Pulled (pull_changes p ! pull_seq p) p
      else (case pull_spool p of
              None \<Rightarrow> Drained
            | Some bytes \<Rightarrow>
                if \<not> read_ok env (pull_seq p)
                then PullFailed (Wrapf ''read spooled transaction events: %w'' [] (ServiceErr ''read''))
                else (case read_line bytes of
                        (line, rest) \<Rightarrow>
                          if line = [] then Drained
                          else (case unmarshal env line of
                                  None \<Rightarrow> PullFailed (Wrapf ''decode spooled transaction event: %w'' [] (ServiceErr ''json''))
                                | Some change \<Rightarrow> Pulled change (p\<lparr>pull_spool := Some rest\<rparr>)))))"

definition NextEvent :: "source_env \<Rightarrow> decoder \<Rightarrow> (goerr + event option) \<times> decoder" where
  "NextEvent env d =
     (case pull d of
        None \<Rightarrow> (Inl (Errorf ''no open transaction to pull'' []), d)
      | Some p \<Rightarrow>
          (case pull_change env p of
             PullFailed err \<Rightarrow> (Inl err, closePull d)
           | Drained \<Rightarrow> (Inr None, closePull d)
           | Pulled change p' \<Rightarrow>
               (Inr (Some (event_of env (pull_commit p) (Suc (pull_seq p)) change)),
                d\<lparr>pull := Some (p'\<lparr>pull_seq := Suc (pull_seq p)\<rparr>)\<rparr>)))"

end
