(* ===== verification/Change_Queue.thy ===== *)
theory Change_Queue
  imports Errclass
begin

text \<open>
  The two interfaces the decoder offers the reader: a buffer that row changes are added to, and
  a source that hands out events one at a time. Each is stated with the list it stands for;
  the lemmas here are proved once, from the laws alone.
\<close>

section \<open>Adding\<close>

fun add_all :: "('b \<Rightarrow> 'c \<Rightarrow> goerr option \<times> 'b) \<Rightarrow> 'b \<Rightarrow> 'c list \<Rightarrow> goerr option \<times> 'b" where
  "add_all add b [] = (None, b)"
| "add_all add b (c # cs) =
     (case add b c of (Some err, b') \<Rightarrow> (Some err, b') | (None, b') \<Rightarrow> add_all add b' cs)"

lemma add_all_append:
  "add_all add b (cs @ ds) =
     (case add_all add b cs of (Some err, b') \<Rightarrow> (Some err, b') | (None, b') \<Rightarrow> add_all add b' ds)"
  by (induction cs arbitrary: b) (auto split: prod.splits option.splits)

locale change_buffer =
  fixes add :: "'b \<Rightarrow> 'c \<Rightarrow> goerr option \<times> 'b"
    and holds :: "'b \<Rightarrow> 'c list \<Rightarrow> bool"
    and ok :: "'c \<Rightarrow> bool"
  assumes add_holds: "holds b cs \<Longrightarrow> ok c \<Longrightarrow> \<exists>b'. add b c = (None, b') \<and> holds b' (cs @ [c])"
begin

lemma add_all_holds:
  "holds b cs \<Longrightarrow> \<forall>d \<in> set ds. ok d \<Longrightarrow> \<exists>b'. add_all add b ds = (None, b') \<and> holds b' (cs @ ds)"
proof (induction ds arbitrary: b cs)
  case Nil
  then show ?case by simp
next
  case (Cons d ds)
  from Cons.prems obtain b1 where b1: "add b d = (None, b1)" "holds b1 (cs @ [d])"
    using add_holds by fastforce
  from b1(2) Cons.prems(2) obtain b2 where "add_all add b1 ds = (None, b2)" "holds b2 ((cs @ [d]) @ ds)"
    using Cons.IH by fastforce
  with b1(1) show ?case by simp
qed

end

section \<open>Pulling\<close>

fun pull_n :: "('d \<Rightarrow> (goerr + 'e option) \<times> 'd) \<Rightarrow> nat \<Rightarrow> 'd \<Rightarrow> (goerr + 'e list) \<times> 'd" where
  "pull_n next_event 0 d = (Inr [], d)"
| "pull_n next_event (Suc n) d =
     (case next_event d of
        (Inl err, d') \<Rightarrow> (Inl err, d')
      | (Inr None, d') \<Rightarrow> (Inl (Errorf ''transaction ended early'' []), d')
      | (Inr (Some e), d') \<Rightarrow>
          (case pull_n next_event n d' of
             (Inl err, d'') \<Rightarrow> (Inl err, d'')
           | (Inr es, d'') \<Rightarrow> (Inr (e # es), d'')))"

locale event_source =
  fixes next_event :: "'d \<Rightarrow> (goerr + 'e option) \<times> 'd"
    and pending :: "'d \<Rightarrow> 'e list \<Rightarrow> bool"
  assumes next_Cons: "pending d (e # es) \<Longrightarrow> \<exists>d'. next_event d = (Inr (Some e), d') \<and> pending d' es"
    and next_Nil: "pending d [] \<Longrightarrow> \<exists>d'. next_event d = (Inr None, d')"
begin

lemma pull_all: "pending d es \<Longrightarrow> \<exists>d'. pull_n next_event (length es) d = (Inr es, d') \<and> pending d' []"
proof (induction es arbitrary: d)
  case Nil
  then show ?case by simp
next
  case (Cons e es)
  then obtain d1 where "next_event d = (Inr (Some e), d1)" "pending d1 es"
    using next_Cons by blast
  with Cons.IH show ?case by fastforce
qed

lemma pull_more:
  assumes "pending d es"
  shows "\<exists>d' d''. pull_n next_event (length es) d = (Inr es, d') \<and> next_event d' = (Inr None, d'')"
  using pull_all [OF assms] next_Nil by blast

end

end
