(* ===== verification/Decoder_Correct.thy ===== *)
theory Decoder_Correct
  imports Decoder Change_Queue
begin

text \<open>
  What the decoder promises: the buffer keeps exactly the changes added to it whatever the spool
  cap, the events pulled after Commit are those changes in order, rows and keys are decoded
  without guessing, spool files are owned by the transaction or by the pull state.
\<close>

section \<open>The spool\<close>

definition encode_lines :: "source_env \<Rightarrow> pending_change list \<Rightarrow> string" where
  "encode_lines env cs = concat (map (\<lambda>c. the (marshal env c) @ [newline]) cs)"

text \<open>
  The JSON round trip of one change, as \<open>encoding/json\<close> documents it for valid UTF-8: one
  line without raw newlines, which decodes to the change.
\<close>

definition codec_ok :: "source_env \<Rightarrow> pending_change \<Rightarrow> bool" where
  "codec_ok env c \<longleftrightarrow>
     (case marshal env c of
        None \<Rightarrow> False
      | Some line \<Rightarrow> newline \<notin> set line \<and> unmarshal env (line @ [newline]) = Some c)"

text \<open>A file system whose calls succeed.\<close>

definition io_ok :: "source_env \<Rightarrow> bool" where
  "io_ok env \<longleftrightarrow> (\<forall>files. create_temp env files \<noteq> None) \<and> (\<forall>n. write_ok env n) \<and> seek_ok env \<and> (\<forall>n. read_ok env n)"

lemma encode_lines_simps [simp]:
  "encode_lines env [] = []"
  "encode_lines env (c # cs) = the (marshal env c) @ newline # encode_lines env cs"
  by (simp_all add: encode_lines_def)

lemma encode_lines_append: "encode_lines env (cs @ ds) = encode_lines env cs @ encode_lines env ds"
  by (simp add: encode_lines_def)

lemma read_line_newline: "newline \<notin> set l \<Longrightarrow> read_line (l @ newline # s) = (l @ [newline], s)"
  by (induction l) auto

lemma read_encoded:
  assumes "codec_ok env c"
  obtains line where "read_line (encode_lines env (c # cs)) = (line, encode_lines env cs)"
    and "line \<noteq> []" and "unmarshal env line = Some c"
  using assms by (cases "marshal env c") (auto simp: codec_ok_def read_line_newline)

section \<open>The buffer\<close>

text \<open>The open transaction holds the changes \<open>cs\<close>: the first \<open>cap\<close> in memory, the rest spooled.\<close>

definition tx_holds :: "source_env \<Rightarrow> int \<Rightarrow> pending_transaction \<Rightarrow> pending_change list \<Rightarrow> bool" where
  "tx_holds env cap tx cs \<longleftrightarrow>
     tx_mem tx = take (nat cap) cs \<and>
     tx_spoolN tx = length cs - nat cap \<and>
     tx_spool tx = (if length cs \<le> nat cap then None else Some (encode_lines env (drop (nat cap) cs)))"

lemma tx_append_holds:
  assumes h: "tx_holds env cap tx cs" and c: "codec_ok env c" and io: "io_ok env"
  shows "\<exists>tx' files'. tx_append env cap tx files c = (None, tx', files') \<and>
           tx_holds env cap tx' (cs @ [c]) \<and> tx_id tx' = tx_id tx"
proof (cases "length cs < nat cap")
  case True
  then have "int (length (tx_mem tx)) < cap"
    using h by (auto simp: tx_holds_def)
  with True h show ?thesis
    by (auto simp: tx_append_def tx_holds_def)
next
  case False
  have mem: "\<not> int (length (tx_mem tx)) < cap"
    using False h by (auto simp: tx_holds_def)
  obtain line where line: "marshal env c = Some line"
    using c by (auto simp: codec_ok_def split: option.splits)
  obtain path where path: "create_temp env files = Some path"
    using io unfolding io_ok_def by (metis not_None_eq)
  have w: "write_ok env n" for n
    using io by (simp add: io_ok_def)
  show ?thesis
  proof (cases "length cs = nat cap")
    case True
    then show ?thesis
      using mem h line path w
      by (auto simp: tx_append_def spool_line_def tx_holds_def)
  next
    case neq: False
    then show ?thesis
      using False mem h line w
      by (auto simp: tx_append_def spool_line_def tx_holds_def encode_lines_append)
  qed
qed

definition buffer_holds :: "source_env \<Rightarrow> decoder \<Rightarrow> pending_change list \<Rightarrow> bool" where
  "buffer_holds env d cs \<longleftrightarrow>
     (case transaction d of None \<Rightarrow> False | Some tx \<Rightarrow> tx_holds env (spoolCap d) tx cs)"

definition change_ok :: "source_env \<Rightarrow> pending_change \<Rightarrow> bool" where
  "change_ok env c \<longleftrightarrow> codec_ok env c \<and> io_ok env"

lemma decoder_append_frame:
  assumes "decoder_append env d c = (r, d')"
  shows "relations d' = relations d \<and> keys d' = keys d \<and> identity d' = identity d \<and> spoolCap d' = spoolCap d
         \<and> pull d' = pull d \<and> (transaction d' = None \<longleftrightarrow> transaction d = None)"
  using assms by (auto simp: decoder_append_def split: option.splits prod.splits)

lemma spool_line_id: "spool_line env tx files c = (r, tx', files') \<Longrightarrow> tx_id tx' = tx_id tx"
  by (auto simp: spool_line_def split: option.splits if_splits)

lemma tx_append_id: "tx_append env cap tx files c = (r, tx', files') \<Longrightarrow> tx_id tx' = tx_id tx"
  by (auto simp: tx_append_def dest!: spool_line_id split: option.splits if_splits)

lemma decoder_append_id:
  "decoder_append env d c = (r, d') \<Longrightarrow> map_option tx_id (transaction d') = map_option tx_id (transaction d)"
  by (auto simp: decoder_append_def dest!: tx_append_id split: option.splits prod.splits)

interpretation spool: change_buffer "decoder_append env" "buffer_holds env" "change_ok env" for env
proof unfold_locales
  fix d cs c
  assume h: "buffer_holds env d cs" and ok: "change_ok env c"
  then obtain tx where tx: "transaction d = Some tx" "tx_holds env (spoolCap d) tx cs"
    by (auto simp: buffer_holds_def split: option.splits)
  from tx_append_holds [OF tx(2)] ok obtain tx' files'
    where "tx_append env (spoolCap d) tx (temp_files d) c = (None, tx', files')"
      and "tx_holds env (spoolCap d) tx' (cs @ [c])"
    unfolding change_ok_def by metis
  then show "\<exists>d'. decoder_append env d c = (None, d') \<and> buffer_holds env d' (cs @ [c])"
    using tx(1) by (simp add: decoder_append_def buffer_holds_def)
qed

section \<open>Pulling\<close>

definition pull_holds :: "source_env \<Rightarrow> pull_state \<Rightarrow> pending_change list \<Rightarrow> bool" where
  "pull_holds env p cs \<longleftrightarrow>
     (\<exists>spooled. cs = drop (pull_seq p) (pull_changes p) @ spooled \<and>
        (\<forall>c \<in> set spooled. codec_ok env c) \<and>
        (case pull_spool p of None \<Rightarrow> spooled = [] | Some bytes \<Rightarrow> bytes = encode_lines env spooled))"

fun stamp :: "source_env \<Rightarrow> committed_transaction \<Rightarrow> nat \<Rightarrow> pending_change list \<Rightarrow> event list" where
  "stamp env commit n [] = []"
| "stamp env commit n (c # cs) = event_of env commit (Suc n) c # stamp env commit (Suc n) cs"

definition source_pending :: "source_env \<Rightarrow> decoder \<Rightarrow> event list \<Rightarrow> bool" where
  "source_pending env d es \<longleftrightarrow> io_ok env \<and>
     (case pull d of None \<Rightarrow> False
      | Some p \<Rightarrow> \<exists>cs. pull_holds env p cs \<and> es = stamp env (pull_commit p) (pull_seq p) cs)"

lemma stamp_Cons_D: "stamp env ct n cs = e # es \<Longrightarrow> \<exists>c cs'. cs = c # cs' \<and> e = event_of env ct (Suc n) c \<and> es = stamp env ct (Suc n) cs'"
  by (cases cs) auto

lemma pull_change_Cons:
  assumes "pull_holds env p (c # cs)" and io: "io_ok env"
  shows "\<exists>p'. pull_change env p = Pulled c p' \<and> pull_commit p' = pull_commit p \<and>
              pull_holds env (p'\<lparr>pull_seq := Suc (pull_seq p)\<rparr>) cs"
proof (cases "pull_seq p < length (pull_changes p)")
  case True
  then have "drop (pull_seq p) (pull_changes p) = pull_changes p ! pull_seq p # drop (Suc (pull_seq p)) (pull_changes p)"
    by (simp add: Cons_nth_drop_Suc)
  with True assms(1) show ?thesis
    by (auto simp: pull_change_def pull_holds_def)
next
  case False
  then obtain bytes where bytes: "pull_spool p = Some bytes" "bytes = encode_lines env (c # cs)"
      and ok: "\<forall>x \<in> set (c # cs). codec_ok env x"
    using assms(1) by (auto simp: pull_holds_def split: option.splits)
  then have "codec_ok env c" by simp
  then obtain line where "read_line bytes = (line, encode_lines env cs)" "line \<noteq> []" "unmarshal env line = Some c"
    using bytes(2) read_encoded [of env c cs] by metis
  then show ?thesis
    using False bytes ok io by (auto simp: pull_change_def pull_holds_def io_ok_def)
qed

lemma pull_change_Nil:
  assumes "pull_holds env p []" and "io_ok env"
  shows "pull_change env p = Drained"
  using assms by (auto simp: pull_change_def pull_holds_def io_ok_def split: option.splits)

interpretation events: event_source "NextEvent env" "source_pending env" for env
proof unfold_locales
  fix d e es
  assume h: "source_pending env d (e # es)"
  then obtain p cs0 where p: "pull d = Some p" "io_ok env" "pull_holds env p cs0"
      "stamp env (pull_commit p) (pull_seq p) cs0 = e # es"
    by (auto simp: source_pending_def split: option.splits)
  then obtain c cs where cs: "cs0 = c # cs" "e = event_of env (pull_commit p) (Suc (pull_seq p)) c"
      "es = stamp env (pull_commit p) (Suc (pull_seq p)) cs"
    using stamp_Cons_D by metis
  from pull_change_Cons [of env p c cs] p(2,3) cs(1) obtain p'
    where "pull_change env p = Pulled c p'" "pull_commit p' = pull_commit p"
      "pull_holds env (p'\<lparr>pull_seq := Suc (pull_seq p)\<rparr>) cs"
    by auto
  then show "\<exists>d'. NextEvent env d = (Inr (Some e), d') \<and> source_pending env d' es"
    using p cs by (auto simp: NextEvent_def source_pending_def)
next
  fix d
  assume "source_pending env d []"
  then obtain p cs0 where "pull d = Some p" "io_ok env" "pull_holds env p cs0"
      "stamp env (pull_commit p) (pull_seq p) cs0 = []"
    by (auto simp: source_pending_def split: option.splits)
  moreover from this have "cs0 = []" by (cases cs0) auto
  ultimately show "\<exists>d'. NextEvent env d = (Inr None, d')"
    by (auto simp: NextEvent_def pull_change_Nil)
qed

section \<open>Row messages as a pure function\<close>

text \<open>
  The changes a row message stands for, with no buffer: the specification of the middle of
  \<open>Handle\<close>. The key-change case is a delete of the old key followed by an insert.
\<close>

definition change_of :: "relation_message \<Rightarrow> operation \<Rightarrow> row \<Rightarrow> row \<Rightarrow> row \<Rightarrow> string list \<Rightarrow> pending_change" where
  "change_of relation op key before after unchanged =
     \<lparr>ch_Schema = Namespace relation, ch_Table = RelationName relation, ch_Operation = op, ch_Key = key,
      ch_Before = before, ch_After = after, ch_Unchanged = unchanged\<rparr>"

definition update_changes ::
  "relation_message \<Rightarrow> row \<Rightarrow> row option \<Rightarrow> row \<Rightarrow> string list \<Rightarrow> row \<Rightarrow> pending_change list option" where
  "update_changes relation oldRow oldKey after unchanged newKey =
     (case oldKey of
        None \<Rightarrow> Some [change_of relation OperationUpdate newKey oldRow after unchanged]
      | Some okey \<Rightarrow>
          if equalRows okey newKey then Some [change_of relation OperationUpdate okey oldRow after unchanged]
          else (case fill_unchanged relation oldRow unchanged after of
                  Inl _ \<Rightarrow> None
                | Inr after' \<Rightarrow> Some [change_of relation OperationDelete okey oldRow [] [],
                                     change_of relation OperationInsert newKey [] after' []]))"

fun row_changes :: "decoder \<Rightarrow> message \<Rightarrow> pending_change list option" where
  "row_changes d (InsertMsg rid tuple) =
     (case decoder_relation d rid of Inl _ \<Rightarrow> None | Inr relation \<Rightarrow>
     (case decodeTuple relation tuple False [] of Inl _ \<Rightarrow> None | Inr (after, unchanged) \<Rightarrow>
     (case primaryKey d relation after of Inl _ \<Rightarrow> None | Inr key \<Rightarrow>
        if unchanged \<noteq> [] then None else Some [change_of relation OperationInsert key [] after []])))"
| "row_changes d (UpdateMsg rid oldType oldTuple newTuple) =
     (case decoder_relation d rid of Inl _ \<Rightarrow> None | Inr relation \<Rightarrow>
     (case update_old d relation oldType oldTuple of Inl _ \<Rightarrow> None | Inr (oldRow, oldKey) \<Rightarrow>
     (case decodeTuple relation newTuple False oldRow of Inl _ \<Rightarrow> None | Inr (after, unchanged) \<Rightarrow>
     (case primaryKey d relation after of Inl _ \<Rightarrow> None | Inr newKey \<Rightarrow>
        update_changes relation oldRow oldKey after unchanged newKey))))"
| "row_changes d (DeleteMsg rid oldType oldTuple) =
     (case decoder_relation d rid of Inl _ \<Rightarrow> None | Inr relation \<Rightarrow>
     (case decodeTuple relation oldTuple (oldType = CHR ''K'') [] of Inl _ \<Rightarrow> None | Inr (before, _) \<Rightarrow>
     (case primaryKey d relation before of Inl _ \<Rightarrow> None | Inr key \<Rightarrow>
        Some [change_of relation OperationDelete key before [] []])))"
| "row_changes d (TruncateMsg rids) =
     (if \<forall>rid \<in> set rids. relations d rid \<noteq> None
      then Some (map (\<lambda>rid. truncate_change (the (relations d rid))) rids) else None)"
| "row_changes d _ = None"

fun rows_changes :: "decoder \<Rightarrow> message list \<Rightarrow> pending_change list option" where
  "rows_changes d [] = Some []"
| "rows_changes d (m # ms) =
     (case row_changes d m of None \<Rightarrow> None
      | Some cs \<Rightarrow> (case rows_changes d ms of None \<Rightarrow> None | Some ds \<Rightarrow> Some (cs @ ds)))"

text \<open>\<open>row_changes\<close> reads only the relations and the keys, which appending leaves alone.\<close>

definition same_catalog :: "decoder \<Rightarrow> decoder \<Rightarrow> bool" where
  "same_catalog d d' \<longleftrightarrow> relations d' = relations d \<and> keys d' = keys d"

lemma primaryKey_cong: "same_catalog d d' \<Longrightarrow> primaryKey d' relation row = primaryKey d relation row"
  by (simp add: same_catalog_def primaryKey_def key_columns_def)

lemma row_changes_cong:
  assumes "same_catalog d d'"
  shows "row_changes d' m = row_changes d m"
proof -
  have pk: "primaryKey d' = primaryKey d"
    using assms by (intro ext) (rule primaryKey_cong)
  have rel: "relations d' = relations d" "decoder_relation d' = decoder_relation d"
    using assms by (auto simp: same_catalog_def decoder_relation_def)
  have old: "update_old d' = update_old d"
    by (intro ext) (simp only: update_old_def pk)
  show ?thesis
    by (cases m) (simp_all only: row_changes.simps pk rel old)
qed

lemma rows_changes_cong: "same_catalog d d' \<Longrightarrow> rows_changes d' ms = rows_changes d ms"
  by (induction ms) (simp_all add: row_changes_cong cong: option.case_cong)

lemma truncate_relations_eq:
  "\<forall>rid \<in> set rids. relations d rid \<noteq> None \<Longrightarrow>
   truncate_relations env d rids =
     append_result (add_all (decoder_append env) d (map (\<lambda>rid. truncate_change (the (relations d rid))) rids))"
proof (induction rids arbitrary: d)
  case Nil
  then show ?case by (simp add: append_result_def)
next
  case (Cons rid rids)
  then obtain relation where r: "relations d rid = Some relation"
    by auto
  obtain e d' where a: "decoder_append env d (truncate_change relation) = (e, d')"
    by fastforce
  with decoder_append_frame [OF a] have "relations d' = relations d"
    by simp
  with Cons.IH [of d'] Cons.prems r a show ?case
    by (cases e) (auto simp: decoder_relation_def append_result_def)
qed

text \<open>\<open>Handle\<close> on a row message adds exactly these changes to the buffer.\<close>

lemma Handle_row_changes:
  assumes "row_changes d m = Some cs" and "transaction d \<noteq> None"
  shows "Handle env d m = append_result (add_all (decoder_append env) d cs)"
proof (cases m)
  case (InsertMsg rid tuple)
  then show ?thesis
    using assms by (auto simp: Handle_def handle_insert_def change_of_def append_result_def
        split: sum.splits prod.splits if_splits option.splits)
next
  case (UpdateMsg rid oldType oldTuple newTuple)
  then obtain relation oldRow oldKey after unchanged newKey
    where h: "decoder_relation d rid = Inr relation" "update_old d relation oldType oldTuple = Inr (oldRow, oldKey)"
      "decodeTuple relation newTuple False oldRow = Inr (after, unchanged)" "primaryKey d relation after = Inr newKey"
      and u: "update_changes relation oldRow oldKey after unchanged newKey = Some cs"
    using assms(1) by (auto split: sum.splits prod.splits)
  have "Handle env d m = handle_update env d rid oldType oldTuple newTuple"
    by (simp add: Handle_def UpdateMsg)
  also have "\<dots> = append_result (add_all (decoder_append env) d cs)"
  proof (cases oldKey)
    case None
    then show ?thesis
      using u by (auto simp: handle_update_def h update_changes_def change_of_def append_result_def
          split: prod.split option.split)
  next
    case (Some okey)
    then show ?thesis
      using u by (auto simp: handle_update_def h update_changes_def change_of_def append_result_def
          split: prod.split option.split if_splits sum.splits)
  qed
  finally show ?thesis .
next
  case (DeleteMsg rid oldType oldTuple)
  then show ?thesis
    using assms by (auto simp: Handle_def handle_delete_def change_of_def append_result_def
        split: sum.splits prod.splits option.splits)
next
  case (TruncateMsg rids)
  then show ?thesis
    using assms by (auto simp: Handle_def handle_truncate_def truncate_relations_eq split: if_splits)
qed (use assms in auto)

section \<open>A whole transaction\<close>

fun run_handle :: "source_env \<Rightarrow> decoder \<Rightarrow> message list \<Rightarrow> handle_result \<times> decoder" where
  "run_handle env d [] = (Inr None, d)"
| "run_handle env d (m # ms) =
     (case Handle env d m of
        (Inr None, d') \<Rightarrow> run_handle env d' ms
      | r \<Rightarrow> r)"

lemma run_handle_append:
  "run_handle env d ms = (Inr None, d') \<Longrightarrow> run_handle env d (ms @ ms') = run_handle env d' ms'"
  by (induction ms arbitrary: d) (auto split: prod.splits sum.splits option.splits)

lemma add_all_frame:
  assumes "add_all (decoder_append env) d cs = (r, d')"
  shows "same_catalog d d' \<and> spoolCap d' = spoolCap d \<and> (transaction d' = None \<longleftrightarrow> transaction d = None)
         \<and> map_option tx_id (transaction d') = map_option tx_id (transaction d)"
  using assms
proof (induction cs arbitrary: d)
  case Nil
  then show ?case by (simp add: same_catalog_def)
next
  case (Cons c cs)
  obtain e d1 where a: "decoder_append env d c = (e, d1)"
    by fastforce
  note f = decoder_append_frame [OF a] decoder_append_id [OF a]
  from Cons a have "e = None \<longrightarrow> add_all (decoder_append env) d1 cs = (r, d')" and "e \<noteq> None \<longrightarrow> d' = d1"
    by (auto split: option.splits)
  with Cons.IH [of d1] f show ?case
    by (cases e) (auto simp: same_catalog_def)
qed

lemma run_rows:
  assumes "rows_changes d ms = Some cs" and "buffer_holds env d cs0" and "\<forall>c \<in> set cs. change_ok env c"
  shows "\<exists>d'. run_handle env d ms = (Inr None, d') \<and> buffer_holds env d' (cs0 @ cs) \<and> spoolCap d' = spoolCap d
              \<and> map_option tx_id (transaction d') = map_option tx_id (transaction d)"
  using assms
proof (induction ms arbitrary: d cs0 cs)
  case Nil
  then show ?case by simp
next
  case (Cons m ms)
  obtain cs1 cs2 where cs: "row_changes d m = Some cs1" "rows_changes d ms = Some cs2" "cs = cs1 @ cs2"
    using Cons.prems(1) by (auto split: option.splits)
  have tx: "transaction d \<noteq> None"
    using Cons.prems(2) by (auto simp: buffer_holds_def split: option.splits)
  obtain d1 where d1: "add_all (decoder_append env) d cs1 = (None, d1)" "buffer_holds env d1 (cs0 @ cs1)"
    using spool.add_all_holds [OF Cons.prems(2), of cs1] Cons.prems(3) cs(3) by auto
  note f = add_all_frame [OF d1(1)]
  have h: "Handle env d m = (Inr None, d1)"
    using Handle_row_changes [OF cs(1) tx] d1(1) by (simp add: append_result_def)
  have "rows_changes d1 ms = Some cs2"
    using cs(2) f rows_changes_cong by metis
  from Cons.IH [OF this d1(2)] Cons.prems(3) cs(3) obtain d2
    where "run_handle env d1 ms = (Inr None, d2)" "buffer_holds env d2 ((cs0 @ cs1) @ cs2)"
      "spoolCap d2 = spoolCap d1" "map_option tx_id (transaction d2) = map_option tx_id (transaction d1)"
    by auto
  with h f cs(3) show ?case by auto
qed

lemma commit_pending:
  assumes h: "buffer_holds env d cs" and ok: "\<forall>c \<in> set cs. codec_ok env c" and io: "io_ok env"
    and tx: "transaction d = Some tx" and xid: "tx_id tx = xid"
    and ct: "ct = \<lparr>ct_TransactionID = xid, ct_CommitLSN = clsn, ct_EndLSN = elsn, ct_CommitTime = t,
                   ct_Count = int (length cs)\<rparr>"
  shows "\<exists>d'. Handle env d (CommitMsg clsn elsn t) = (Inr (Some ct), d') \<and> source_pending env d' (stamp env ct 0 cs)"
proof -
  let ?n = "nat (spoolCap d)"
  have th: "tx_mem tx = take ?n cs" "tx_spoolN tx = length cs - ?n"
      "tx_spool tx = (if length cs \<le> ?n then None else Some (encode_lines env (drop ?n cs)))"
    using h tx by (auto simp: buffer_holds_def tx_holds_def)
  let ?d' = "d\<lparr>transaction := None,
               pull := Some \<lparr>pull_commit = ct, pull_changes = tx_mem tx, pull_spool = tx_spool tx,
                             pull_spoolPath = tx_spoolPath tx, pull_seq = 0\<rparr>\<rparr>"
  have "Handle env d (CommitMsg clsn elsn t) = (Inr (Some ct), ?d')"
    using io th tx xid ct by (simp add: Handle_def handle_commit_def Let_def io_ok_def)
  moreover have "\<forall>c \<in> set (drop ?n cs). codec_ok env c"
    using ok by (meson in_set_dropD)
  then have "pull_holds env \<lparr>pull_commit = ct, pull_changes = tx_mem tx, pull_spool = tx_spool tx,
                             pull_spoolPath = tx_spoolPath tx, pull_seq = 0\<rparr> cs"
    using th by (auto simp: pull_holds_def intro: exI [of _ "drop ?n cs"])
  then have "source_pending env ?d' (stamp env ct 0 cs)"
    using io by (auto simp: source_pending_def)
  ultimately show ?thesis by blast
qed

lemma transaction_runs:
  assumes open_tx: "transaction d = None" and rows: "rows_changes d ms = Some cs"
    and ok: "\<forall>c \<in> set cs. codec_ok env c" and io: "io_ok env"
    and ct: "ct = \<lparr>ct_TransactionID = xid, ct_CommitLSN = clsn, ct_EndLSN = elsn, ct_CommitTime = t,
                   ct_Count = int (length cs)\<rparr>"
  shows "\<exists>d1. run_handle env d (BeginMsg xid # ms @ [CommitMsg clsn elsn t]) = (Inr (Some ct), d1)
              \<and> source_pending env d1 (stamp env ct 0 cs)"
proof -
  let ?tx0 = "\<lparr>tx_id = xid, tx_mem = [], tx_spool = None, tx_spoolPath = [], tx_spoolN = 0\<rparr>"
  let ?d0 = "d\<lparr>transaction := Some ?tx0\<rparr>"
  have b: "Handle env d (BeginMsg xid) = (Inr None, ?d0)"
    using open_tx by (simp add: Handle_def handle_begin_def)
  have "buffer_holds env ?d0 []"
    by (simp add: buffer_holds_def tx_holds_def)
  moreover have "rows_changes ?d0 ms = Some cs"
    using rows rows_changes_cong [of d ?d0 ms] by (simp add: same_catalog_def)
  ultimately obtain d' where d': "run_handle env ?d0 ms = (Inr None, d')" "buffer_holds env d' cs"
      "map_option tx_id (transaction d') = Some xid"
    using run_rows [of ?d0 ms cs env "[]"] ok io by (auto simp: change_ok_def)
  then obtain tx where tx: "transaction d' = Some tx" "tx_id tx = xid"
    by auto
  from commit_pending [OF d'(2) ok io tx ct] obtain d1
    where "Handle env d' (CommitMsg clsn elsn t) = (Inr (Some ct), d1)" "source_pending env d1 (stamp env ct 0 cs)"
    by blast
  with b run_handle_append [OF d'(1)] show ?thesis
    by simp
qed

end
