(* ===== verification/Decoder_Rows.thy ===== *)
theory Decoder_Rows
  imports Decoder_Correct
begin

text \<open>
  Rows and keys of the decoder: what \<open>decodeTuple\<close> puts into a row, which columns it reports as
  unchanged, what \<open>primaryKey\<close> returns, when two keys are equal, and that every event handed
  out passes the writer's validation.
\<close>

section \<open>Decoded values\<close>

text \<open>The value a column of the tuple must have in the decoded row (\<^term>\<open>None\<close>: no entry).\<close>

definition expected_value :: "bool \<Rightarrow> row \<Rightarrow> rel_column \<times> tuple_column \<Rightarrow> pgvalue option" where
  "expected_value keyOnly fill p =
     (case p of (column, value) \<Rightarrow>
        if keyOnly \<and> \<not> is_key_column column then None
        else if DataType value = CHR ''n'' then Some None
        else if DataType value = CHR ''t'' then Some (Some (Data value))
        else (case row_get fill (col_Name column) of Some (Some v) \<Rightarrow> Some (Some v) | _ \<Rightarrow> None))"

definition reported_unchanged :: "bool \<Rightarrow> row \<Rightarrow> rel_column \<times> tuple_column \<Rightarrow> bool" where
  "reported_unchanged keyOnly fill p \<longleftrightarrow>
     \<not> keyOnly \<and> DataType (snd p) = CHR ''u'' \<and> expected_value keyOnly fill p = None"

definition supported_value :: "bool \<Rightarrow> rel_column \<times> tuple_column \<Rightarrow> bool" where
  "supported_value keyOnly p \<longleftrightarrow>
     (keyOnly \<and> \<not> is_key_column (fst p)) \<or> DataType (snd p) \<in> {CHR ''n'', CHR ''t''} \<or>
     (\<not> keyOnly \<and> DataType (snd p) = CHR ''u'')"

abbreviation pair_name :: "rel_column \<times> tuple_column \<Rightarrow> string" where
  "pair_name p \<equiv> col_Name (fst p)"

lemma decode_columns_step:
  assumes "supported_value keyOnly p"
  shows "decode_columns keyOnly fill (p # ps) row unchanged =
           decode_columns keyOnly fill ps
             (case expected_value keyOnly fill p of None \<Rightarrow> row | Some v \<Rightarrow> row_put (pair_name p) v row)
             (if reported_unchanged keyOnly fill p then unchanged @ [pair_name p] else unchanged)"
  using assms
  by (cases p) (auto simp: supported_value_def expected_value_def reported_unchanged_def split: option.split)

lemma decode_columns_supported:
  assumes "decode_columns keyOnly fill (p # ps) row unchanged = Inr r"
  shows "supported_value keyOnly p"
  using assms by (cases p) (auto simp: supported_value_def split: if_splits)

text \<open>The row as a fold, and the unchanged columns as a filter: the reference for the loop.\<close>

lemma decode_columns_Inr:
  "decode_columns keyOnly fill ps row unchanged = Inr (row', unchanged') \<longleftrightarrow>
     (\<forall>p \<in> set ps. supported_value keyOnly p) \<and>
     row' = fold (\<lambda>p r. case expected_value keyOnly fill p of None \<Rightarrow> r | Some v \<Rightarrow> row_put (pair_name p) v r) ps row \<and>
     unchanged' = unchanged @ map pair_name (filter (reported_unchanged keyOnly fill) ps)"
proof (induction ps arbitrary: row unchanged)
  case Nil
  then show ?case by auto
next
  case (Cons p ps)
  show ?case
  proof (cases "supported_value keyOnly p")
    case True
    show ?thesis
      unfolding decode_columns_step [OF True] Cons.IH using True by auto
  next
    case False
    then have "decode_columns keyOnly fill (p # ps) row unchanged \<noteq> Inr (row', unchanged')"
      using decode_columns_supported by blast
    with False show ?thesis by simp
  qed
qed

lemma fold_row_put_wf:
  "wf_row row \<Longrightarrow> wf_row (fold (\<lambda>p r. case e p of None \<Rightarrow> r | Some v \<Rightarrow> row_put (n p) v r) ps row)"
  by (induction ps arbitrary: row) (auto split: option.split)

lemma fold_row_put_other:
  "c \<notin> n ` set ps \<Longrightarrow>
   row_get (fold (\<lambda>p r. case e p of None \<Rightarrow> r | Some v \<Rightarrow> row_put (n p) v r) ps row) c = row_get row c"
  by (induction ps arbitrary: row) (auto split: option.split)

lemma fold_row_put_get:
  assumes "distinct (map n ps)" and "p \<in> set ps" and "row_get row (n p) = None"
  shows "row_get (fold (\<lambda>p r. case e p of None \<Rightarrow> r | Some v \<Rightarrow> row_put (n p) v r) ps row) (n p) = e p"
  using assms
proof (induction ps arbitrary: row)
  case Nil
  then show ?case by simp
next
  case (Cons q ps)
  show ?case
  proof (cases "p = q")
    case True
    with Cons.prems show ?thesis
      by (auto simp: fold_row_put_other split: option.split)
  next
    case False
    with Cons.prems have "n p \<noteq> n q" by (auto simp: image_iff)
    with Cons.prems False show ?thesis
      by (auto intro!: Cons.IH split: option.split)
  qed
qed

lemma decodeTuple_Inr:
  assumes "decodeTuple relation tuple keyOnly fill = Inr (row, unchanged)"
  obtains vals where "tuple = Some vals" and "length vals = length (Columns relation)"
    and "decode_columns keyOnly fill (zip (Columns relation) vals) [] [] = Inr (row, unchanged)"
  using assms by (auto simp: decodeTuple_def split: option.splits if_splits)

lemma decodeTuple_wf:
  assumes "decodeTuple relation tuple keyOnly fill = Inr (row, unchanged)"
  shows "wf_row row"
proof (rule decodeTuple_Inr [OF assms])
  fix vals
  assume "decode_columns keyOnly fill (zip (Columns relation) vals) [] [] = Inr (row, unchanged)"
  then show "wf_row row"
    unfolding decode_columns_Inr by (simp only: fold_row_put_wf wf_row_Nil)
qed

section \<open>Keys\<close>

lemma key_columns_row_Inr:
  "key_columns_row row columns key = Inr key' \<Longrightarrow> wf_row key \<Longrightarrow>
   wf_row key' \<and> set (row_cols key') = set (row_cols key) \<union> set columns \<and>
   (\<forall>c \<in> set columns. \<exists>v. row_get row c = Some (Some v)) \<and>
   (\<forall>c. row_get key' c = (if c \<in> set columns then row_get row c else row_get key c))"
proof (induction columns arbitrary: key)
  case Nil
  then show ?case by simp
next
  case (Cons c cs)
  then obtain v where v: "row_get row c = Some (Some v)"
      and "key_columns_row row cs (row_put c (Some v) key) = Inr key'"
    by (auto split: option.splits)
  with Cons.IH [of "row_put c (Some v) key"] Cons.prems(2) show ?case
    by auto
qed

lemma primaryKey_Inr:
  assumes "primaryKey d relation row = Inr key"
  shows "key \<noteq> []" and "wf_row key" and "set (row_cols key) = set (key_columns d relation)"
    and "\<forall>c \<in> set (key_columns d relation). row_get key c = row_get row c \<and> (\<exists>v. row_get row c = Some (Some v))"
proof -
  obtain key0 where k: "key_columns_row row (key_columns d relation) [] = Inr key0" "key = key0" "key \<noteq> []"
    using assms by (auto simp: primaryKey_def split: sum.splits if_splits)
  from key_columns_row_Inr [OF k(1)] k(2,3)
  show "key \<noteq> []" "wf_row key" "set (row_cols key) = set (key_columns d relation)"
    "\<forall>c \<in> set (key_columns d relation). row_get key c = row_get row c \<and> (\<exists>v. row_get row c = Some (Some v))"
    by auto
qed

lemma primaryKey_row_nonempty:
  assumes "primaryKey d relation row = Inr key"
  shows "row \<noteq> []"
proof
  assume "row = []"
  with primaryKey_Inr [OF assms] have "set (row_cols key) = {}" by auto
  with primaryKey_Inr(1) [OF assms] show False by (cases key) (auto simp: row_cols_def)
qed

lemma equalValues_iff: "equalValues l r \<longleftrightarrow> l = r"
  by (cases l; cases r) auto

lemma equalRows_eq:
  assumes "wf_row left" and "wf_row right"
  shows "equalRows left right \<longleftrightarrow> left = right"
proof
  assume eq: "equalRows left right"
  have sub: "row_get right c = Some v" if "(c, v) \<in> set left" for c v
    using eq that by (force simp: equalRows_def list_all_iff equalValues_iff split: option.splits)
  have "set left \<subseteq> set right"
    using sub assms(2) by (auto simp: row_get_in)
  moreover have "card (set left) = card (set right)"
    using eq wf_row_distinct [OF assms(1)] wf_row_distinct [OF assms(2)]
    by (simp add: equalRows_def distinct_card distinct_map)
  ultimately have "set left = set right"
    by (simp add: card_subset_eq)
  then have "row_get left = row_get right"
    using assms by (metis map_of_inject_set wf_row_distinct)
  then show "left = right"
    using assms by (intro row_ext)
next
  assume "left = right"
  then show "equalRows left right"
    using assms by (auto simp: equalRows_def list_all_iff equalValues_iff row_get_in)
qed

section \<open>Key changes\<close>

text \<open>
  Every column the new tuple reports as unchanged was already looked up in the old image by
  \<open>decodeTuple\<close>, so the loop that fills them on a key change can only refuse.
\<close>

lemma fill_unchanged_refuses:
  assumes "unchanged \<noteq> []" and "\<forall>c \<in> set unchanged. \<nexists>v. row_get oldRow c = Some (Some v)"
  shows "\<exists>err. fill_unchanged relation oldRow unchanged after = Inl err"
  using assms by (cases unchanged) (auto split: option.split)

lemma decodeTuple_unchanged_not_filled:
  assumes "decodeTuple relation tuple keyOnly fill = Inr (row, unchanged)" and "c \<in> set unchanged"
  shows "\<nexists>v. row_get fill c = Some (Some v)"
proof (rule decodeTuple_Inr [OF assms(1)])
  fix vals
  assume "decode_columns keyOnly fill (zip (Columns relation) vals) [] [] = Inr (row, unchanged)"
  then show ?thesis
    using assms(2) unfolding decode_columns_Inr
    by (auto simp: reported_unchanged_def expected_value_def split: option.splits if_splits)
qed

lemma fill_unchanged_nonempty: "fill_unchanged relation oldRow unchanged after = Inr after' \<Longrightarrow> after \<noteq> [] \<Longrightarrow> after' \<noteq> []"
  by (induction relation oldRow unchanged after rule: fill_unchanged.induct) (auto split: option.splits)

section \<open>Valid events\<close>

definition valid_change :: "pending_change \<Rightarrow> bool" where
  "valid_change c \<longleftrightarrow> ch_Schema c \<noteq> [] \<and> ch_Table c \<noteq> [] \<and>
     (case ch_Operation c of
        OperationInsert \<Rightarrow> ch_Key c \<noteq> [] \<and> ch_After c \<noteq> []
      | OperationUpdate \<Rightarrow> ch_Key c \<noteq> [] \<and> ch_After c \<noteq> []
      | OperationDelete \<Rightarrow> ch_Key c \<noteq> []
      | OperationTruncate \<Rightarrow> True
      | OtherOp _ \<Rightarrow> False)"

definition named_relations :: "decoder \<Rightarrow> bool" where
  "named_relations d \<longleftrightarrow>
     (\<forall>rid relation. relations d rid = Some relation \<longrightarrow> Namespace relation \<noteq> [] \<and> RelationName relation \<noteq> [])"

lemma named_relationsD:
  "named_relations d \<Longrightarrow> decoder_relation d rid = Inr relation \<Longrightarrow> Namespace relation \<noteq> [] \<and> RelationName relation \<noteq> []"
  by (auto simp: named_relations_def decoder_relation_def split: option.splits)

lemma update_old_key: "update_old d relation t tuple = Inr (oldRow, Some okey) \<Longrightarrow> primaryKey d relation oldRow = Inr okey"
  by (auto simp: update_old_def split: option.splits sum.splits prod.splits)

lemma row_changes_valid:
  assumes "row_changes d m = Some cs" and names: "named_relations d" and "c \<in> set cs"
  shows "valid_change c"
proof (cases m)
  case (InsertMsg rid tuple)
  then show ?thesis
    using assms by (auto simp: valid_change_def change_of_def split: sum.splits prod.splits if_splits
        dest: named_relationsD primaryKey_Inr(1) primaryKey_row_nonempty)
next
  case (UpdateMsg rid oldType oldTuple newTuple)
  then obtain relation oldRow oldKey after unchanged newKey
    where h: "decoder_relation d rid = Inr relation" "update_old d relation oldType oldTuple = Inr (oldRow, oldKey)"
      "primaryKey d relation after = Inr newKey"
      and u: "update_changes relation oldRow oldKey after unchanged newKey = Some cs"
    using assms(1) by (auto split: sum.splits prod.splits)
  have "newKey \<noteq> []" "after \<noteq> []" "Namespace relation \<noteq> []" "RelationName relation \<noteq> []"
    using h(3) primaryKey_Inr(1) primaryKey_row_nonempty named_relationsD [OF names h(1)] by auto
  moreover have "okey \<noteq> []" if "oldKey = Some okey" for okey
    using h(2) that update_old_key primaryKey_Inr(1) by metis
  ultimately show ?thesis
    using u assms(3) fill_unchanged_nonempty
    by (auto simp: update_changes_def valid_change_def change_of_def split: option.splits if_splits sum.splits)
next
  case (DeleteMsg rid oldType oldTuple)
  then show ?thesis
    using assms by (auto simp: valid_change_def change_of_def split: sum.splits prod.splits
        dest: named_relationsD primaryKey_Inr(1))
next
  case (TruncateMsg rids)
  then show ?thesis
    using assms by (auto simp: valid_change_def truncate_change_def named_relations_def split: if_splits)
qed (use assms in auto)

lemma rows_changes_valid:
  "rows_changes d ms = Some cs \<Longrightarrow> named_relations d \<Longrightarrow> c \<in> set cs \<Longrightarrow> valid_change c"
  by (induction ms arbitrary: cs) (auto split: option.splits dest: row_changes_valid)

lemma event_of_valid: "valid_change c \<Longrightarrow> Validate (event_of env ct n c) = None"
  unfolding Validate_None_iff
  by (auto simp: valid_event_def valid_change_def event_of_def EventVersion_def split: operation.splits)

lemma stamp_nth: "i < length cs \<Longrightarrow> stamp env ct n cs ! i = event_of env ct (Suc (n + i)) (cs ! i)"
  by (induction cs arbitrary: n i) (auto simp: nth_Cons split: nat.split)

lemma length_stamp [simp]: "length (stamp env ct n cs) = length cs"
  by (induction cs arbitrary: n) auto

lemma stamp_events_valid:
  assumes "\<forall>c \<in> set cs. valid_change c" and "e \<in> set (stamp env ct n cs)"
  shows "Validate e = None"
  using assms by (induction cs arbitrary: n) (auto simp: event_of_valid)

lemma event_id_inj:
  assumes "inj (lsn_string env)" and "ID (event_of env ct n c) = ID (event_of env ct' n' c')"
  shows "ct_CommitLSN ct = ct_CommitLSN ct' \<and> n = n'"
proof -
  have "lsn_string env (ct_CommitLSN ct) @ CHR '':'' # itoa (int n) =
        lsn_string env (ct_CommitLSN ct') @ CHR '':'' # itoa (int n')"
    using assms(2) by (simp add: event_of_def)
  from append_sep_inj [OF this itoa_no_colon itoa_no_colon] assms(1) show ?thesis
    by (auto simp: itoa_inj dest: injD)
qed

end
