(* ===== verification/Decoder_Files.thy ===== *)
theory Decoder_Files
  imports Decoder_Rows
begin

text \<open>
  Who owns the temporary spool files: every file in the directory belongs to the open
  transaction or to the pull state, as long as no Commit arrives while a spooled transaction is
  still held by the pull state.
\<close>

definition tx_files :: "pending_transaction option \<Rightarrow> string list" where
  "tx_files t = (case t of None \<Rightarrow> [] | Some tx \<Rightarrow> (case tx_spool tx of None \<Rightarrow> [] | Some _ \<Rightarrow> [tx_spoolPath tx]))"

definition pull_files :: "pull_state option \<Rightarrow> string list" where
  "pull_files q = (case q of None \<Rightarrow> [] | Some p \<Rightarrow> (case pull_spool p of None \<Rightarrow> [] | Some _ \<Rightarrow> [pull_spoolPath p]))"

text \<open>No file without an owner, no file owned twice.\<close>

definition files_owned :: "decoder \<Rightarrow> bool" where
  "files_owned d \<longleftrightarrow> set (temp_files d) = set (tx_files (transaction d)) \<union> set (pull_files (pull d)) \<and>
     distinct (tx_files (transaction d) @ pull_files (pull d))"

text \<open>\<open>os.CreateTemp\<close> never returns the name of an existing file.\<close>

definition fresh_files :: "source_env \<Rightarrow> bool" where
  "fresh_files env \<longleftrightarrow> (\<forall>files path. create_temp env files = Some path \<longrightarrow> path \<notin> set files)"

lemma files_simps [simp]:
  "tx_files None = []" "pull_files None = []"
  "tx_files (Some tx) = (case tx_spool tx of None \<Rightarrow> [] | Some _ \<Rightarrow> [tx_spoolPath tx])"
  "pull_files (Some p) = (case pull_spool p of None \<Rightarrow> [] | Some _ \<Rightarrow> [pull_spoolPath p])"
  by (simp_all add: tx_files_def pull_files_def)

lemma files_owned_NewDecoder [simp]: "files_owned NewDecoder"
  by (simp add: files_owned_def NewDecoder_def)

lemma spool_line_files:
  assumes "spool_line env tx files c = (r, tx', files')" and "tx_spool tx \<noteq> None"
  shows "files' = files \<and> tx_spool tx' \<noteq> None \<and> tx_spoolPath tx' = tx_spoolPath tx"
  using assms by (auto simp: spool_line_def split: option.splits if_splits)

lemma tx_append_files:
  assumes "tx_append env cap tx files c = (r, tx', files')"
  shows "tx_files (Some tx') = tx_files (Some tx) \<and> files' = files \<or>
         tx_files (Some tx) = [] \<and>
           (\<exists>path. create_temp env files = Some path \<and> files' = path # files \<and> tx_files (Some tx') = [path])"
proof (cases "int (length (tx_mem tx)) < cap")
  case True
  then show ?thesis
    using assms by (auto simp: tx_append_def split: option.split)
next
  case mem: False
  show ?thesis
  proof (cases "tx_spool tx")
    case (Some b)
    then have "spool_line env tx files c = (r, tx', files')"
      using assms mem by (simp add: tx_append_def)
    from spool_line_files [OF this] Some show ?thesis
      by (auto split: option.splits)
  next
    case None
    show ?thesis
    proof (cases "create_temp env files")
      case None': None
      then show ?thesis
        using assms mem None by (simp add: tx_append_def)
    next
      case (Some path)
      then have "spool_line env (tx\<lparr>tx_spool := Some [], tx_spoolPath := path\<rparr>) (path # files) c = (r, tx', files')"
        using assms mem None by (simp add: tx_append_def)
      from spool_line_files [OF this] Some None show ?thesis
        by (auto split: option.splits)
    qed
  qed
qed

lemma decoder_append_owned:
  assumes "decoder_append env d c = (r, d')" and "files_owned d" and "fresh_files env"
  shows "files_owned d'"
proof (cases "transaction d")
  case None
  then show ?thesis
    using assms by (simp add: decoder_append_def)
next
  case (Some tx)
  obtain e tx' files' where a: "tx_append env (spoolCap d) tx (temp_files d) c = (e, tx', files')"
    by (cases "tx_append env (spoolCap d) tx (temp_files d) c") auto
  then have d': "d' = d\<lparr>transaction := Some tx', temp_files := files'\<rparr>"
    using assms(1) Some by (simp add: decoder_append_def)
  from tx_append_files [OF a] show ?thesis
    using assms(2,3) Some unfolding d' files_owned_def fresh_files_def
    by (auto simp del: files_simps(3,4))
qed

lemma append_result_snd [simp]: "snd (append_result r) = snd r"
  by (auto simp: append_result_def split: prod.split option.split)

lemma closePull_owned: "files_owned d \<Longrightarrow> files_owned (closePull d)"
  by (auto simp: files_owned_def closePull_def split: option.splits if_splits)

lemma closePull_pull [simp]: "pull (closePull d) = None"
  by (simp add: closePull_def split: option.split)

lemma removeAll_Nil_iff: "removeAll x xs = [] \<longleftrightarrow> set xs \<subseteq> {x}"
  by (induction xs) auto

lemma Reset_removes_files:
  assumes "files_owned d"
  shows "temp_files (Reset d) = [] \<and> transaction (Reset d) = None \<and> pull (Reset d) = None"
proof -
  have "files_owned (closePull d)"
    using assms by (rule closePull_owned)
  then have "set (temp_files (Reset d)) = {}"
    by (auto simp: files_owned_def Reset_def Let_def removeAll_Nil_iff split: option.splits)
  then show ?thesis
    by (simp add: Reset_def Let_def)
qed

lemma NextEvent_owned:
  assumes "files_owned d"
  shows "files_owned (snd (NextEvent env d))"
proof (cases "pull d")
  case None
  then show ?thesis
    using assms by (simp add: NextEvent_def)
next
  case (Some p)
  show ?thesis
  proof (cases "pull_change env p")
    case (Pulled c p')
    then have "(pull_spool p' = None) = (pull_spool p = None)" "pull_spoolPath p' = pull_spoolPath p"
      by (auto simp: pull_change_def split: if_splits option.splits prod.splits)
    then have "pull_files (Some (p'\<lparr>pull_seq := n\<rparr>)) = pull_files (Some p)" for n
      by (auto split: option.splits)
    with Some Pulled assms show ?thesis
      by (simp add: NextEvent_def files_owned_def del: files_simps(4))
  qed (use Some assms in \<open>simp_all add: NextEvent_def closePull_owned\<close>)
qed

lemma truncate_relations_owned:
  assumes "fresh_files env"
  shows "files_owned d \<Longrightarrow> files_owned (snd (truncate_relations env d rids))"
proof (induction rids arbitrary: d)
  case Nil
  then show ?case by simp
next
  case (Cons rid rids)
  then show ?case
    using decoder_append_owned [OF _ _ assms] by (auto split: sum.split prod.split option.split)
qed

lemma handle_commit_owned:
  assumes "files_owned d" and "pull d = None"
  shows "files_owned (snd (handle_commit env d clsn elsn t))"
proof (cases "transaction d")
  case None
  then show ?thesis
    using assms by (simp add: handle_commit_def)
next
  case (Some tx)
  have "files_owned (d\<lparr>transaction := None, pull := Some p\<rparr>)" if "pull_files (Some p) = tx_files (Some tx)" for p
    using assms Some that by (simp add: files_owned_def del: files_simps(3,4))
  with Some show ?thesis
    by (auto simp: handle_commit_def Let_def intro!: closePull_owned split: option.split)
qed

lemma snd_append_owned:
  assumes "files_owned d" and "fresh_files env"
  shows "files_owned (snd (decoder_append env d c))"
  using decoder_append_owned [OF _ assms] by (metis prod.collapse)

lemma handle_insert_owned:
  "files_owned d \<Longrightarrow> fresh_files env \<Longrightarrow> files_owned (snd (handle_insert env d rid tuple))"
  by (auto simp: handle_insert_def snd_append_owned split: sum.split prod.split)

lemma handle_delete_owned:
  "files_owned d \<Longrightarrow> fresh_files env \<Longrightarrow> files_owned (snd (handle_delete env d rid oldType oldTuple))"
  by (auto simp: handle_delete_def snd_append_owned split: sum.split prod.split)

lemma handle_update_owned:
  assumes "files_owned d" and "fresh_files env"
  shows "files_owned (snd (handle_update env d rid oldType oldTuple newTuple))"
proof -
  have two: "files_owned (snd (case decoder_append env d c of
                (Some err, d') \<Rightarrow> (Inl err, d') | (None, d') \<Rightarrow> append_result (decoder_append env d' c')))" for c c'
    using decoder_append_owned [OF _ assms] snd_append_owned [OF _ assms(2)]
    by (auto split: prod.split option.split)
  show ?thesis
    unfolding handle_update_def
    using assms two by (simp add: snd_append_owned split: sum.split prod.split option.split)
qed

lemma Handle_owned:
  assumes "files_owned d" and "fresh_files env"
    and drained: "(\<exists>clsn elsn t. m = CommitMsg clsn elsn t) \<Longrightarrow> pull d = None"
  shows "files_owned (snd (Handle env d m))"
proof (cases m)
  case (RelationMsg x)
  then show ?thesis
    using assms(1) by (simp add: Handle_def handle_relation_def Let_def files_owned_def split: option.split)
next
  case (BeginMsg x)
  then show ?thesis
    using assms(1) by (auto simp: Handle_def handle_begin_def files_owned_def split: option.splits)
next
  case (TruncateMsg rids)
  then show ?thesis
    using assms by (simp add: Handle_def handle_truncate_def truncate_relations_owned)
next
  case (CommitMsg clsn elsn t)
  then show ?thesis
    using assms drained by (simp add: Handle_def handle_commit_owned)
qed (use assms in \<open>simp_all add: Handle_def handle_insert_owned handle_update_owned handle_delete_owned\<close>)

section \<open>Reachable decoders\<close>

text \<open>
  One call on the decoder. A Commit is handled only when the previous transaction has been
  drained: the order the reader's comment on \<open>Handle\<close> asks for.
\<close>

inductive decoder_step :: "source_env \<Rightarrow> decoder \<Rightarrow> decoder \<Rightarrow> bool" for env where
  step_handle: "(\<And>clsn elsn t. m = CommitMsg clsn elsn t \<Longrightarrow> pull d = None) \<Longrightarrow> decoder_step env d (snd (Handle env d m))"
| step_next: "decoder_step env d (snd (NextEvent env d))"
| step_reset: "decoder_step env d (Reset d)"

inductive_cases decoder_stepE: "decoder_step env d d'"

definition new_decoder :: "decoder \<Rightarrow> bool" where
  "new_decoder d \<longleftrightarrow> transaction d = None \<and> pull d = None \<and> temp_files d = []"

lemma Reset_owned: "files_owned d \<Longrightarrow> files_owned (Reset d)"
  using Reset_removes_files [of d] by (simp add: files_owned_def)

interpretation spool_files: step_invariant new_decoder "decoder_step env" "\<lambda>d. fresh_files env \<longrightarrow> files_owned d" for env
proof unfold_locales
  fix d
  assume "new_decoder d"
  then show "fresh_files env \<longrightarrow> files_owned d"
    by (simp add: new_decoder_def files_owned_def)
next
  fix d d'
  assume "fresh_files env \<longrightarrow> files_owned d" and "decoder_step env d d'"
  then show "fresh_files env \<longrightarrow> files_owned d'"
    by (auto elim!: decoder_stepE intro: Handle_owned NextEvent_owned Reset_owned)
qed

text \<open>
  A Commit overwrites the pull state: a spool file it held is then owned by nobody, and no later
  \<open>Reset\<close> removes it.
\<close>

lemma commit_orphans_spool:
  assumes "pull d = Some p" and "pull_spool p = Some b" and "pull_spoolPath p \<in> set (temp_files d)"
    and "transaction d = Some tx" and "tx_spool tx = None \<or> tx_spoolPath tx \<noteq> pull_spoolPath p"
  shows "pull_spoolPath p \<in> set (temp_files (Reset (snd (Handle env d (CommitMsg clsn elsn t)))))"
  using assms by (auto simp: Handle_def handle_commit_def Reset_def closePull_def Let_def split: option.split)

end
