(* ===== verification/Source_Properties.thy ===== *)
theory Source_Properties
  imports Decoder_Files
begin

text \<open>
  The properties of the decoder (\<open>internal/source\<close>): what a replication transaction becomes,
  what rows and keys contain, what is refused, and who removes the spool files.
\<close>

section \<open>A concrete relation and concrete services\<close>

text \<open>
  The witnesses run on a table with a key column and a payload column, and on services that
  satisfy the hypotheses: decimal LSN text, a JSON codec for the one change they spool, a
  temporary directory whose new names are longer than all existing ones.
\<close>

definition users_relation :: relation_message where
  "users_relation = \<lparr>RelationID = 7, Namespace = ''public'', RelationName = ''users'', ReplicaIdentity = CHR ''d'',
     Columns = [\<lparr>col_Flags = 1, col_Name = ''id''\<rparr>, \<lparr>col_Flags = 0, col_Name = ''bio''\<rparr>]\<rparr>"

definition text_value :: "string \<Rightarrow> tuple_column" where
  "text_value s = \<lparr>DataType = CHR ''t'', Data = s\<rparr>"

definition unchanged_value :: tuple_column where
  "unchanged_value = \<lparr>DataType = CHR ''u'', Data = []\<rparr>"

definition null_value :: tuple_column where
  "null_value = \<lparr>DataType = CHR ''n'', Data = []\<rparr>"

definition users_decoder :: "int \<Rightarrow> decoder" where
  "users_decoder cap = snd (Handle undefined (NewDecoderWithSpoolCap cap) (RelationMsg users_relation))"

definition users_insert :: message where
  "users_insert = InsertMsg 7 (Some [text_value ''1'', text_value ''hi''])"

definition users_change :: pending_change where
  "users_change = \<lparr>ch_Schema = ''public'', ch_Table = ''users'', ch_Operation = OperationInsert,
     ch_Key = [(''id'', Some ''1'')], ch_Before = [],
     ch_After = [(''bio'', Some ''hi''), (''id'', Some ''1'')], ch_Unchanged = []\<rparr>"

definition sample_source :: source_env where
  "sample_source = \<lparr>lsn_string = (\<lambda>l. nat_digits (unat (lsn_val l))), marshal = (\<lambda>c. Some ''{}''),
     unmarshal = (\<lambda>s. Some users_change),
     create_temp = (\<lambda>files. Some (replicate (Suc (foldr max (map length files) 0)) CHR ''s'')),
     write_ok = (\<lambda>n. True), seek_ok = True, read_ok = (\<lambda>n. True)\<rparr>"

lemma users_decoder_eq:
  "users_decoder cap = (NewDecoderWithSpoolCap cap)\<lparr>relations := [7 \<mapsto> users_relation]\<rparr>"
  by (simp add: users_decoder_def Handle_def handle_relation_def NewDecoderWithSpoolCap_def NewDecoder_def
      users_relation_def Let_def)

lemmas sample_defs = users_decoder_eq NewDecoderWithSpoolCap_def NewDecoder_def users_relation_def text_value_def
  unchanged_value_def null_value_def

lemmas decode_defs = decoder_relation_def decodeTuple_def primaryKey_def key_columns_def is_key_column_def

lemma users_insert_changes: "row_changes (users_decoder cap) users_insert = Some [users_change]"
  by (simp add: users_insert_def users_change_def change_of_def sample_defs decode_defs)

lemma sample_source_ok: "io_ok sample_source" "codec_ok sample_source users_change"
  by (simp_all add: io_ok_def codec_ok_def sample_source_def newline_def)

lemma sample_source_fresh: "fresh_files sample_source"
proof -
  have "length f \<le> foldr max (map length files) 0" if "f \<in> set files" for f :: string and files
    using that by (induction files) auto
  then show ?thesis
    by (force simp: fresh_files_def sample_source_def)
qed

lemma sample_lsn_inj: "inj (lsn_string sample_source)"
  by (rule injI) (simp add: sample_source_def nat_digits_inj lsn.expand word_unat_eq_iff)

section \<open>Transactions\<close>

text \<open>
  What the reader does with one transaction: the messages through \<open>Handle\<close>, then, when Commit
  returned a descriptor, \<open>NextEvent\<close> as many times as the descriptor counts.
\<close>

definition decode_transaction ::
  "source_env \<Rightarrow> decoder \<Rightarrow> message list \<Rightarrow> (goerr + committed_transaction option) \<times> (goerr + event list) \<times> decoder" where
  "decode_transaction env d ms =
     (case run_handle env d ms of
        (Inr (Some ct), d1) \<Rightarrow>
          (case pull_n (NextEvent env) (nat (ct_Count ct)) d1 of (es, d2) \<Rightarrow> (Inr (Some ct), es, d2))
      | (r, d1) \<Rightarrow> (r, Inr [], d1))"

definition transaction_messages :: "32 word \<Rightarrow> message list \<Rightarrow> lsn \<Rightarrow> lsn \<Rightarrow> int \<Rightarrow> message list" where
  "transaction_messages xid ms commitLSN endLSN t = BeginMsg xid # ms @ [CommitMsg commitLSN endLSN t]"

definition descriptor :: "32 word \<Rightarrow> lsn \<Rightarrow> lsn \<Rightarrow> int \<Rightarrow> nat \<Rightarrow> committed_transaction" where
  "descriptor xid commitLSN endLSN t n =
     \<lparr>ct_TransactionID = xid, ct_CommitLSN = commitLSN, ct_EndLSN = endLSN, ct_CommitTime = t, ct_Count = int n\<rparr>"

lemma decode_transaction_runs:
  assumes "transaction d = None" and "rows_changes d ms = Some cs"
    and "\<forall>c \<in> set cs. codec_ok env c" and "io_ok env"
  shows "\<exists>d'. decode_transaction env d (transaction_messages xid ms clsn elsn t) =
                (Inr (Some (descriptor xid clsn elsn t (length cs))),
                 Inr (stamp env (descriptor xid clsn elsn t (length cs)) 0 cs), d') \<and>
              (\<exists>d''. NextEvent env d' = (Inr None, d''))"
proof -
  let ?ct = "descriptor xid clsn elsn t (length cs)"
  obtain d1 where d1: "run_handle env d (transaction_messages xid ms clsn elsn t) = (Inr (Some ?ct), d1)"
      "source_pending env d1 (stamp env ?ct 0 cs)"
    using transaction_runs [OF assms, of ?ct xid clsn elsn t]
    by (auto simp: descriptor_def transaction_messages_def)
  from events.pull_more [OF d1(2)] obtain d2 d3
    where "pull_n (NextEvent env) (length cs) d1 = (Inr (stamp env ?ct 0 cs), d2)" "NextEvent env d2 = (Inr None, d3)"
    by auto
  with d1(1) show ?thesis
    by (simp add: decode_transaction_def descriptor_def)
qed

text \<open>C21. A transaction of row messages comes out as exactly its changes, in order.
  With no transaction open, the messages Begin, rows, Commit give the descriptor with the right
  count, and pulling that many events gives the changes of the rows stamped with consecutive
  sequence numbers from 1; the next pull reports the end. The hypotheses on the services are
  that file calls succeed and that the spooled changes survive the JSON round trip.\<close>

theorem transaction_roundtrip:
  assumes "transaction d = None" and "rows_changes d ms = Some cs"
    and "\<forall>c \<in> set cs. codec_ok env c" and "io_ok env"
  shows "\<exists>es d' d''. decode_transaction env d (transaction_messages xid ms clsn elsn t) =
                       (Inr (Some (descriptor xid clsn elsn t (length cs))), Inr es, d') \<and>
           NextEvent env d' = (Inr None, d'') \<and> length es = length cs \<and>
           (\<forall>i < length cs. es ! i = event_of env (descriptor xid clsn elsn t (length cs)) (Suc i) (cs ! i))"
  using decode_transaction_runs [OF assms, of xid clsn elsn t] by (auto simp: stamp_nth)

theorem transaction_roundtrip_witness:
  "\<exists>es d' d''. decode_transaction sample_source (users_decoder 1)
       (transaction_messages 9 [users_insert, users_insert] (LSN 16) (LSN 32) 5) =
         (Inr (Some (descriptor 9 (LSN 16) (LSN 32) 5 2)), Inr es, d') \<and>
       NextEvent sample_source d' = (Inr None, d'') \<and> length es = 2 \<and> Sequence (Source (es ! 1)) = 2"
proof -
  have tx: "transaction (users_decoder 1) = None"
    by (simp add: sample_defs)
  have rows: "rows_changes (users_decoder 1) [users_insert, users_insert] = Some [users_change, users_change]"
    by (simp add: users_insert_changes)
  have "\<forall>c \<in> set [users_change, users_change]. codec_ok sample_source c"
    by (simp add: sample_source_ok)
  from transaction_roundtrip [OF tx rows this sample_source_ok(1), of 9 "LSN 16" "LSN 32" 5] obtain es d' d''
    where h: "decode_transaction sample_source (users_decoder 1)
        (transaction_messages 9 [users_insert, users_insert] (LSN 16) (LSN 32) 5) =
         (Inr (Some (descriptor 9 (LSN 16) (LSN 32) 5 (length [users_change, users_change]))), Inr es, d')"
      "NextEvent sample_source d' = (Inr None, d'')" "length es = length [users_change, users_change]"
      "\<forall>i < length [users_change, users_change].
         es ! i = event_of sample_source (descriptor 9 (LSN 16) (LSN 32) 5 (length [users_change, users_change])) (Suc i)
                    ([users_change, users_change] ! i)"
    by metis
  from h(4) [rule_format, of 1] have "Sequence (Source (es ! 1)) = 2"
    by (simp add: event_of_def)
  with h(1-3) show ?thesis by (auto simp: numeral_2_eq_2)
qed

text \<open>C22. The spool is invisible: whatever part of the transaction goes to the temporary file,
  the events are the same. Two decoders that differ only in \<open>spoolCap\<close> return the same
  descriptor and the same events.\<close>

theorem spool_cap_invisible:
  assumes "transaction d = None" and "rows_changes d ms = Some cs"
    and "\<forall>c \<in> set cs. codec_ok env c" and "io_ok env"
  shows "map_prod id fst (decode_transaction env (d\<lparr>spoolCap := cap\<rparr>) (transaction_messages xid ms clsn elsn t)) =
         map_prod id fst (decode_transaction env d (transaction_messages xid ms clsn elsn t))"
proof -
  have "same_catalog d (d\<lparr>spoolCap := cap\<rparr>)"
    by (simp add: same_catalog_def)
  then have "rows_changes (d\<lparr>spoolCap := cap\<rparr>) ms = Some cs"
    using rows_changes_cong assms(2) by simp
  moreover have "transaction (d\<lparr>spoolCap := cap\<rparr>) = None"
    using assms(1) by simp
  ultimately show ?thesis
    using decode_transaction_runs [OF _ _ assms(3,4), of "d\<lparr>spoolCap := cap\<rparr>" ms xid clsn elsn t]
      decode_transaction_runs [OF assms, of xid clsn elsn t]
    by auto
qed

theorem spool_cap_invisible_witness:
  "map_prod id fst (decode_transaction sample_source ((users_decoder 5)\<lparr>spoolCap := 0\<rparr>)
       (transaction_messages 9 [users_insert] (LSN 16) (LSN 32) 5)) =
   map_prod id fst (decode_transaction sample_source (users_decoder 5)
       (transaction_messages 9 [users_insert] (LSN 16) (LSN 32) 5))"
proof (rule spool_cap_invisible)
  show "rows_changes (users_decoder 5) [users_insert] = Some [users_change]"
    by (simp add: users_insert_changes)
qed (simp_all add: sample_source_ok, simp add: sample_defs)

definition is_row_message :: "message \<Rightarrow> bool" where
  "is_row_message m \<longleftrightarrow>
     (case m of InsertMsg _ _ \<Rightarrow> True | UpdateMsg _ _ _ _ \<Rightarrow> True | DeleteMsg _ _ _ \<Rightarrow> True | TruncateMsg _ \<Rightarrow> True
      | _ \<Rightarrow> False)"

definition is_refused :: "handle_result \<times> decoder \<Rightarrow> bool" where
  "is_refused r \<longleftrightarrow> (case fst r of Inl _ \<Rightarrow> True | Inr _ \<Rightarrow> False)"

lemma is_refused_simps [simp]:
  "is_refused (Inl e, d)" "\<not> is_refused (Inr x, d)"
  "is_refused (append_result (Some e, d))" "\<not> is_refused (append_result (None, d))"
  by (simp_all add: is_refused_def append_result_def)

lemma truncate_undescribed:
  "\<exists>rid \<in> set rids. relations d rid = None \<Longrightarrow> is_refused (truncate_relations env d rids)"
proof (induction rids arbitrary: d)
  case Nil
  then show ?case by simp
next
  case (Cons rid rids)
  show ?case
  proof (cases "relations d rid")
    case None
    then show ?thesis by (simp add: decoder_relation_def)
  next
    case (Some relation)
    obtain e d' where a: "decoder_append env d (truncate_change relation) = (e, d')"
      by (cases "decoder_append env d (truncate_change relation)") auto
    have "\<exists>r \<in> set rids. relations d' r = None"
      using Cons.prems Some decoder_append_frame [OF a] by auto
    with Cons.IH [of d'] Some a show ?thesis
      by (simp add: decoder_relation_def split: option.split)
  qed
qed

lemma outside_transaction: "transaction d = None \<Longrightarrow> is_refused (append_result (decoder_append env d c))"
  by (simp add: decoder_append_def)

lemma no_change_refused:
  assumes "row_changes d m = None" and "is_row_message m"
  shows "is_refused (Handle env d m)"
proof (cases m)
  case (InsertMsg rid tuple)
  then show ?thesis
    using assms(1) by (auto simp: Handle_def handle_insert_def split: sum.splits prod.splits if_splits)
next
  case (UpdateMsg rid oldType oldTuple newTuple)
  then show ?thesis
    using assms(1) by (auto simp: Handle_def handle_update_def update_changes_def
        split: sum.splits prod.splits if_splits option.splits)
next
  case (DeleteMsg rid oldType oldTuple)
  then show ?thesis
    using assms(1) by (auto simp: Handle_def handle_delete_def split: sum.splits prod.splits)
next
  case (TruncateMsg rids)
  then show ?thesis
    using assms(1) by (auto simp: Handle_def handle_truncate_def intro: truncate_undescribed split: if_splits)
qed (use assms(2) in \<open>auto simp: is_row_message_def\<close>)

lemma no_transaction_refused:
  assumes "transaction d = None" and "is_row_message m"
  shows "is_refused (Handle env d m)"
proof (cases m)
  case (UpdateMsg rid oldType oldTuple newTuple)
  have "decoder_append env d c = (Some (Errorf ''received row change outside a transaction'' []), d)" for c
    using assms(1) by (simp add: decoder_append_def)
  then show ?thesis
    using UpdateMsg by (simp add: Handle_def handle_update_def split: sum.split prod.split option.split)
qed (use assms in \<open>simp_all add: Handle_def handle_insert_def handle_delete_def handle_truncate_def
      is_row_message_def outside_transaction split: sum.split prod.split\<close>)

text \<open>C23. What is not a change is refused: a row message that stands for no changes (unknown
  relation, tuple of the wrong length, binary or unknown column, key missing or NULL, unchanged
  markers in an insert or across a key change), a row message outside a transaction, a Begin
  inside one and a Commit outside one all end in an error, and none of them returns a
  transaction.\<close>


theorem bad_messages_refused:
  assumes "is_row_message m \<and> (row_changes d m = None \<or> transaction d = None) \<or>
           (\<exists>xid. m = BeginMsg xid) \<and> transaction d \<noteq> None \<or>
           (\<exists>clsn elsn t. m = CommitMsg clsn elsn t) \<and> transaction d = None"
  shows "\<exists>err. fst (Handle env d m) = Inl err"
proof -
  have "is_refused (Handle env d m)"
    using assms
  proof (elim disjE conjE exE)
    fix xid
    assume "m = BeginMsg xid" "transaction d \<noteq> None"
    then show ?thesis by (auto simp: Handle_def handle_begin_def)
  next
    fix clsn elsn t
    assume "m = CommitMsg clsn elsn t" "transaction d = None"
    then show ?thesis by (simp add: Handle_def handle_commit_def)
  qed (simp_all add: no_change_refused no_transaction_refused)
  then show ?thesis
    by (auto simp: is_refused_def split: sum.splits)
qed

theorem bad_messages_refused_witness:
  "\<exists>err. fst (Handle sample_source (users_decoder 3) (InsertMsg 8 None)) = Inl err"
  by (rule bad_messages_refused) (simp add: is_row_message_def sample_defs decode_defs)

section \<open>Rows and keys\<close>

lemma reported_unchanged_iff:
  "reported_unchanged keyOnly fill p \<longleftrightarrow>
     \<not> keyOnly \<and> DataType (snd p) = CHR ''u'' \<and> (\<nexists>v. row_get fill (pair_name p) = Some (Some v))"
  by (cases p) (auto simp: reported_unchanged_def expected_value_def split: option.splits)

lemma map_fst_zip_comp: "length xs = length ys \<Longrightarrow> map (\<lambda>p. f (fst p)) (zip xs ys) = map f xs"
  by (induction xs ys rule: list_induct2) simp_all

text \<open>C24. A decoded row guesses nothing. When \<open>decodeTuple\<close> succeeds, tuple and relation have
  the same number of columns, and (column names being distinct) every column has in the row
  exactly the value its tuple field stands for: NULL, the text, the old image's value for an
  unchanged field that has one, and no entry for a skipped or unknown value; no other column is
  in the row. The reported unchanged columns are exactly the unchanged fields without an old value.\<close>

theorem decoded_row_exact:
  assumes "decodeTuple relation (Some vals) keyOnly fill = Inr (row, unchanged)"
    and "distinct (map col_Name (Columns relation))"
  shows "length vals = length (Columns relation) \<and> wf_row row \<and>
         set (row_cols row) \<subseteq> set (map col_Name (Columns relation)) \<and>
         (\<forall>i < length vals. row_get row (col_Name (Columns relation ! i)) =
            expected_value keyOnly fill (Columns relation ! i, vals ! i)) \<and>
         (\<forall>c. c \<in> set unchanged \<longleftrightarrow>
            (\<exists>i < length vals. c = col_Name (Columns relation ! i) \<and> \<not> keyOnly \<and>
               DataType (vals ! i) = CHR ''u'' \<and> (\<nexists>v. row_get fill c = Some (Some v))))"
proof -
  let ?ps = "zip (Columns relation) vals"
  let ?row = "fold (\<lambda>p r. case expected_value keyOnly fill p of None \<Rightarrow> r | Some v \<Rightarrow> row_put (pair_name p) v r) ?ps []"
  from assms(1) have len: "length vals = length (Columns relation)"
      and "decode_columns keyOnly fill ?ps [] [] = Inr (row, unchanged)"
    by (auto simp: decodeTuple_def split: if_splits)
  then have row: "row = ?row" and unch: "unchanged = map pair_name (filter (reported_unchanged keyOnly fill) ?ps)"
    by (auto simp: decode_columns_Inr)
  have names: "map pair_name ?ps = map col_Name (Columns relation)"
    by (rule map_fst_zip_comp) (simp add: len)
  have val: "row_get row (pair_name p) = expected_value keyOnly fill p" if "p \<in> set ?ps" for p
    unfolding row using that assms(2) names by (intro fold_row_put_get) auto
  have "row_get row c = None" if "c \<notin> set (map col_Name (Columns relation))" for c
  proof -
    have "pair_name ` set ?ps = set (map col_Name (Columns relation))"
      using names by (metis set_map)
    with that have "c \<notin> pair_name ` set ?ps" by simp
    then show ?thesis
      unfolding row by (simp add: fold_row_put_other)
  qed
  then have sub: "set (row_cols row) \<subseteq> set (map col_Name (Columns relation))"
    using row_get_None_iff by blast
  have unchanged_iff: "c \<in> set unchanged \<longleftrightarrow>
      (\<exists>i < length vals. c = col_Name (Columns relation ! i) \<and> reported_unchanged keyOnly fill (Columns relation ! i, vals ! i))" for c
  proof -
    have "c \<in> set unchanged \<longleftrightarrow> (\<exists>p \<in> set ?ps. reported_unchanged keyOnly fill p \<and> c = pair_name p)"
      by (auto simp: unch)
    then show ?thesis
      using len by (auto simp: in_set_zip Bex_def)
  qed
  have "row_get row (col_Name (Columns relation ! i)) = expected_value keyOnly fill (Columns relation ! i, vals ! i)"
    if "i < length vals" for i
    using val [of "(Columns relation ! i, vals ! i)"] that len by (force simp: set_zip)
  then show ?thesis
    using len sub decodeTuple_wf [OF assms(1)] unchanged_iff unfolding reported_unchanged_iff by auto
qed

theorem decoded_row_exact_witness:
  "decodeTuple users_relation (Some [text_value ''1'', unchanged_value]) False [] = Inr ([(''id'', Some ''1'')], [''bio'']) \<and>
   row_get [(''id'', Some ''1'')] (col_Name (Columns users_relation ! 0)) = Some (Some ''1'')"
proof -
  have r: "decodeTuple users_relation (Some [text_value ''1'', unchanged_value]) False [] = Inr ([(''id'', Some ''1'')], [''bio''])"
    by (simp add: sample_defs decode_defs)
  have "distinct (map col_Name (Columns users_relation))"
    by (simp add: users_relation_def)
  from decoded_row_exact [OF r this] r show ?thesis
    by (auto simp: users_relation_def text_value_def expected_value_def)
qed

lemma key_columns_row_total:
  "\<forall>c \<in> set columns. \<exists>v. row_get row c = Some (Some v) \<Longrightarrow> \<exists>key'. key_columns_row row columns key = Inr key'"
  by (induction columns arbitrary: key) fastforce+

text \<open>C25. \<open>primaryKey\<close> returns the restriction of the row to the key columns of the relation (the
  resolver's, else those flagged by pgoutput), and succeeds exactly when there is a key column
  and every key column has a value that is not NULL.\<close>

theorem primaryKey_exact:
  "(case primaryKey d relation row of
      Inr key \<Rightarrow> key_columns d relation \<noteq> [] \<and> wf_row key \<and>
        row_get key = row_get row |` set (key_columns d relation) \<and>
        (\<forall>c \<in> set (key_columns d relation). \<exists>v. row_get row c = Some (Some v))
    | Inl err \<Rightarrow> key_columns d relation = [] \<or>
        (\<exists>c \<in> set (key_columns d relation). \<nexists>v. row_get row c = Some (Some v)))"
proof (cases "primaryKey d relation row")
  case (Inl err)
  show ?thesis
  proof (rule ccontr)
    assume n: "\<not> ?thesis"
    then obtain key where key: "key_columns_row row (key_columns d relation) [] = Inr key" "key_columns d relation \<noteq> []"
      using key_columns_row_total [of "key_columns d relation" row "[]"] Inl by auto
    from key_columns_row_Inr [OF key(1)] key(2) have "key \<noteq> []"
      by (cases "key_columns d relation") (auto simp: row_cols_def)
    with key Inl show False
      by (simp add: primaryKey_def)
  qed
next
  case (Inr key)
  note k = primaryKey_Inr [OF Inr]
  have "key_columns d relation \<noteq> []"
    using k(1,3) by (auto simp: row_cols_def)
  moreover have "row_get key c = (row_get row |` set (key_columns d relation)) c" for c
  proof (cases "c \<in> set (key_columns d relation)")
    case False
    then have "row_get key c = None"
      using k(3) by (simp add: row_get_None_iff)
    with False show ?thesis by simp
  qed (use k(4) in simp)
  ultimately show ?thesis
    using Inr k by (auto simp: fun_eq_iff)
qed

theorem primaryKey_exact_witness:
  "primaryKey (users_decoder 1) users_relation [(''bio'', None), (''id'', Some ''1'')] = Inr [(''id'', Some ''1'')] \<and>
   row_get [(''id'', Some ''1'')] = row_get [(''bio'', None), (''id'', Some ''1'')] |` {''id''}"
proof -
  have p: "primaryKey (users_decoder 1) users_relation [(''bio'', None), (''id'', Some ''1'')] = Inr [(''id'', Some ''1'')]"
    by (simp add: sample_defs decode_defs)
  have k: "key_columns (users_decoder 1) users_relation = [''id'']"
    by (simp add: sample_defs decode_defs)
  from primaryKey_exact [of "users_decoder 1" users_relation "[(''bio'', None), (''id'', Some ''1'')]"] p
  have "row_get [(''id'', Some ''1'')] = row_get [(''bio'', None), (''id'', Some ''1'')] |` set (key_columns (users_decoder 1) users_relation)"
    by (simp only: sum.case)
  with p k show ?thesis by simp
qed

lemma Handle_row_changes_holds:
  assumes "row_changes d m = Some new" and "buffer_holds env d cs" and "\<forall>c \<in> set new. change_ok env c"
  shows "\<exists>d'. Handle env d m = (Inr None, d') \<and> buffer_holds env d' (cs @ new)"
proof -
  have "transaction d \<noteq> None"
    using assms(2) by (auto simp: buffer_holds_def split: option.splits)
  with Handle_row_changes [OF assms(1)] spool.add_all_holds [OF assms(2,3)] show ?thesis
    by (auto simp: append_result_def)
qed

text \<open>C26. A changed key is a delete of the old key followed by an insert under the new key. For an
  update whose old and new tuples decode: with equal keys one update event is buffered under the
  old key; with different keys and no unknown column, the delete and then the insert, in this
  order; with different keys and an unknown (unchanged, not in the old image) column, the message
  is refused and the buffer is as before.\<close>

theorem key_change_delete_insert:
  assumes "decoder_relation d rid = Inr relation"
    and "decodeTuple relation (Some old) (oldType = CHR ''K'') [] = Inr (oldRow, ignored)"
    and "primaryKey d relation oldRow = Inr oldKey"
    and "decodeTuple relation (Some new) False oldRow = Inr (after, unchanged)"
    and "primaryKey d relation after = Inr newKey"
    and "buffer_holds env d cs"
    and "\<forall>c \<in> {change_of relation OperationUpdate oldKey oldRow after unchanged,
                  change_of relation OperationDelete oldKey oldRow [] [],
                  change_of relation OperationInsert newKey [] after []}. change_ok env c"
  shows "if oldKey = newKey
         then \<exists>d'. Handle env d (UpdateMsg rid oldType (Some old) (Some new)) = (Inr None, d') \<and>
                buffer_holds env d' (cs @ [change_of relation OperationUpdate oldKey oldRow after unchanged])
         else if unchanged = []
         then \<exists>d'. Handle env d (UpdateMsg rid oldType (Some old) (Some new)) = (Inr None, d') \<and>
                buffer_holds env d' (cs @ [change_of relation OperationDelete oldKey oldRow [] [],
                                          change_of relation OperationInsert newKey [] after []])
         else \<exists>err. Handle env d (UpdateMsg rid oldType (Some old) (Some new)) = (Inl err, d)"
proof -
  let ?m = "UpdateMsg rid oldType (Some old) (Some new)"
  have keq: "equalRows oldKey newKey \<longleftrightarrow> oldKey = newKey"
    using assms(3,5) primaryKey_Inr(2) equalRows_eq by blast
  have rc: "row_changes d ?m = update_changes relation oldRow (Some oldKey) after unchanged newKey"
    using assms(1-5) by (simp add: update_old_def)
  consider "oldKey = newKey" | "oldKey \<noteq> newKey" "unchanged = []" | "oldKey \<noteq> newKey" "unchanged \<noteq> []"
    by blast
  then show ?thesis
  proof cases
    case 1
    then have "row_changes d ?m = Some [change_of relation OperationUpdate oldKey oldRow after unchanged]"
      unfolding rc update_changes_def using keq by simp
    from Handle_row_changes_holds [OF this assms(6)] assms(7) 1 show ?thesis by simp
  next
    case 2
    then have "row_changes d ?m = Some [change_of relation OperationDelete oldKey oldRow [] [],
                                        change_of relation OperationInsert newKey [] after []]"
      unfolding rc update_changes_def using keq by simp
    from Handle_row_changes_holds [OF this assms(6)] assms(7) 2 show ?thesis by simp
  next
    case 3
    obtain err where "fill_unchanged relation oldRow unchanged after = Inl err"
      using fill_unchanged_refuses [OF 3(2)] decodeTuple_unchanged_not_filled [OF assms(4)] by blast
    with 3 keq assms(1-5) show ?thesis
      by (simp add: Handle_def handle_update_def update_old_def)
  qed
qed

text \<open>A codec for the two changes of the witness: a key change of the sample row from 1 to 2.\<close>

definition old_key_delete :: pending_change where
  "old_key_delete = change_of users_relation OperationDelete [(''id'', Some ''1'')] [(''id'', Some ''1'')] [] []"

definition new_key_insert :: pending_change where
  "new_key_insert = change_of users_relation OperationInsert [(''id'', Some ''2'')] []
     [(''bio'', Some ''hi''), (''id'', Some ''2'')] []"

definition same_key_update :: pending_change where
  "same_key_update = change_of users_relation OperationUpdate [(''id'', Some ''1'')] [(''id'', Some ''1'')]
     [(''bio'', Some ''hi''), (''id'', Some ''2'')] []"

definition key_change_source :: source_env where
  "key_change_source = sample_source\<lparr>
     marshal := (\<lambda>c. Some (op_string (ch_Operation c))),
     unmarshal := (\<lambda>s. Some (if hd s = CHR ''d'' then old_key_delete
                             else if hd s = CHR ''i'' then new_key_insert else same_key_update))\<rparr>"

lemma key_change_source_ok:
  "change_ok key_change_source old_key_delete" "change_ok key_change_source new_key_insert"
  "change_ok key_change_source same_key_update"
  by (simp_all add: change_ok_def io_ok_def codec_ok_def key_change_source_def sample_source_def newline_def
      old_key_delete_def new_key_insert_def same_key_update_def change_of_def)

theorem key_change_delete_insert_witness:
  "\<exists>d'. Handle key_change_source (snd (Handle key_change_source (users_decoder 1) (BeginMsg 9)))
          (UpdateMsg 7 CHR ''K'' (Some [text_value ''1'', null_value]) (Some [text_value ''2'', text_value ''hi''])) =
        (Inr None, d') \<and> buffer_holds key_change_source d' [old_key_delete, new_key_insert]"
proof -
  let ?d = "snd (Handle key_change_source (users_decoder 1) (BeginMsg 9))"
  have "buffer_holds key_change_source ?d []"
    by (simp add: Handle_def handle_begin_def sample_defs buffer_holds_def tx_holds_def)
  moreover have "decoder_relation ?d 7 = Inr users_relation"
    by (simp add: Handle_def handle_begin_def sample_defs decode_defs)
  ultimately show ?thesis
    using key_change_delete_insert [of ?d 7 users_relation "[text_value ''1'', null_value]" "CHR ''K''" "[(''id'', Some ''1'')]"
        "[]" "[(''id'', Some ''1'')]" "[text_value ''2'', text_value ''hi'']" "[(''bio'', Some ''hi''), (''id'', Some ''2'')]" "[]"
        "[(''id'', Some ''2'')]" key_change_source "[]"] key_change_source_ok
    by (simp add: old_key_delete_def new_key_insert_def same_key_update_def Handle_def handle_begin_def sample_defs decode_defs)
qed

section \<open>Events\<close>

lemma event_id_iff:
  assumes "inj (lsn_string env)"
  shows "ID (event_of env ct n c) = ID (event_of env ct' n' c') \<longleftrightarrow> ct_CommitLSN ct = ct_CommitLSN ct' \<and> n = n'"
proof
  assume "ID (event_of env ct n c) = ID (event_of env ct' n' c')"
  with assms show "ct_CommitLSN ct = ct_CommitLSN ct' \<and> n = n'"
    by (rule event_id_inj)
next
  assume "ct_CommitLSN ct = ct_CommitLSN ct' \<and> n = n'"
  then show "ID (event_of env ct n c) = ID (event_of env ct' n' c')"
    by (simp add: event_of_def)
qed



section \<open>Spool files\<close>

text \<open>C28. No spool file is forgotten as long as a transaction is drained before the next one
  commits: in every decoder reachable from a new one, the files in the temporary directory are
  exactly the ones the open transaction and the pull state hold, and \<open>Reset\<close> removes them all.
  \<open>os.CreateTemp\<close> returns new names.\<close>

theorem spool_files_accounted:
  assumes "new_decoder d" and "(decoder_step env)\<^sup>*\<^sup>* d d'" and "fresh_files env"
  shows "set (temp_files d') = set (tx_files (transaction d')) \<union> set (pull_files (pull d')) \<and>
         temp_files (Reset d') = []"
  using spool_files.reachable_inv [OF assms(1,2)] assms(3) Reset_removes_files [of d']
  by (simp add: files_owned_def)

theorem spool_files_accounted_witness:
  "temp_files (Reset (snd (Handle sample_source (snd (Handle sample_source (users_decoder 0) (BeginMsg 9))) users_insert))) = []"
proof -
  let ?s = "\<lambda>d m. snd (Handle sample_source d m)"
  have "decoder_step sample_source (users_decoder 0) (?s (users_decoder 0) (BeginMsg 9))"
    by (rule step_handle) simp
  moreover have "decoder_step sample_source (?s (users_decoder 0) (BeginMsg 9)) (?s (?s (users_decoder 0) (BeginMsg 9)) users_insert)"
    by (rule step_handle) (simp add: users_insert_def)
  ultimately have "(decoder_step sample_source)\<^sup>*\<^sup>* (users_decoder 0) (?s (?s (users_decoder 0) (BeginMsg 9)) users_insert)"
    by (rule converse_rtranclp_into_rtranclp [OF _ r_into_rtranclp])
  moreover have "new_decoder (users_decoder 0)"
    by (simp add: new_decoder_def sample_defs)
  ultimately show ?thesis
    using spool_files_accounted sample_source_fresh by blast
qed

text \<open>A file that only the pull state holds, while the next transaction is being decoded.\<close>

definition only_pulled :: "string \<Rightarrow> decoder \<Rightarrow> bool" where
  "only_pulled path d \<longleftrightarrow>
     path \<in> set (temp_files d) \<and> path \<in> set (pull_files (pull d)) \<and> path \<notin> set (tx_files (transaction d))"

lemma append_only_pulled:
  assumes "decoder_append env d c = (r, d')" and "only_pulled path d" and "fresh_files env"
  shows "only_pulled path d'"
proof (cases "transaction d")
  case None
  then show ?thesis
    using assms by (simp add: decoder_append_def)
next
  case (Some tx)
  obtain e tx' files' where a: "tx_append env (spoolCap d) tx (temp_files d) c = (e, tx', files')"
    by (cases "tx_append env (spoolCap d) tx (temp_files d) c") auto
  then have d': "d' = d\<lparr>transaction := Some tx', temp_files := files'\<rparr>"
    using assms(1) Some by (simp add: decoder_append_def)
  from tx_append_files [OF a] show ?thesis
    using assms(2,3) Some unfolding d' only_pulled_def fresh_files_def
    by (auto simp del: files_simps(3,4))
qed

lemma add_all_only_pulled:
  "add_all (decoder_append env) d cs = (r, d') \<Longrightarrow> only_pulled path d \<Longrightarrow> fresh_files env \<Longrightarrow> only_pulled path d'"
  by (induction cs arbitrary: d) (auto split: prod.splits option.splits dest: append_only_pulled)

lemma run_rows_only_pulled:
  assumes "rows_changes d ms = Some cs" and "run_handle env d ms = (Inr None, d')" and "transaction d \<noteq> None"
    and "only_pulled path d" and "fresh_files env"
  shows "only_pulled path d' \<and> transaction d' \<noteq> None"
  using assms
proof (induction ms arbitrary: d cs)
  case Nil
  then show ?case by simp
next
  case (Cons m ms)
  obtain cs1 cs2 where cs: "row_changes d m = Some cs1" "rows_changes d ms = Some cs2"
    using Cons.prems(1) by (auto split: option.splits)
  obtain e d1 where d1: "add_all (decoder_append env) d cs1 = (e, d1)"
    by (cases "add_all (decoder_append env) d cs1") auto
  note f = add_all_frame [OF d1]
  have h: "Handle env d m = append_result (e, d1)"
    using Handle_row_changes [OF cs(1) Cons.prems(3)] d1 by simp
  with Cons.prems(2) have e: "e = None" and run: "run_handle env d1 ms = (Inr None, d')"
    by (auto simp: append_result_def split: option.splits)
  show ?case
  proof (rule Cons.IH [OF _ run])
    show "rows_changes d1 ms = Some cs2"
      using cs(2) f by (metis rows_changes_cong)
  qed (use f Cons.prems add_all_only_pulled [OF d1] in auto)
qed

lemma run_rows_then_commit:
  assumes "rows_changes d ms = Some cs" and "transaction d \<noteq> None"
    and "run_handle env d (ms @ [CommitMsg clsn elsn t]) = (Inr (Some ct), d')"
  shows "\<exists>d1. run_handle env d ms = (Inr None, d1) \<and> Handle env d1 (CommitMsg clsn elsn t) = (Inr (Some ct), d')"
  using assms
proof (induction ms arbitrary: d cs)
  case Nil
  then show ?case by (auto split: prod.splits sum.splits option.splits)
next
  case (Cons m ms)
  obtain cs1 cs2 where cs: "row_changes d m = Some cs1" "rows_changes d ms = Some cs2"
    using Cons.prems(1) by (auto split: option.splits)
  obtain e d1 where d1: "add_all (decoder_append env) d cs1 = (e, d1)"
    by (cases "add_all (decoder_append env) d cs1") auto
  note f = add_all_frame [OF d1]
  have h: "Handle env d m = append_result (e, d1)"
    using Handle_row_changes [OF cs(1) Cons.prems(2)] d1 by simp
  with Cons.prems(3) have e: "e = None" and run: "run_handle env d1 (ms @ [CommitMsg clsn elsn t]) = (Inr (Some ct), d')"
    by (auto simp: append_result_def split: option.splits)
  have "rows_changes d1 ms = Some cs2"
    using cs(2) f by (metis rows_changes_cong)
  from Cons.IH [OF this _ run] f Cons.prems(2) h e show ?case
    by (simp add: append_result_def)
qed


definition drained_decoder :: decoder where
  "drained_decoder = (users_decoder 5)\<lparr>
     pull := Some \<lparr>pull_commit = descriptor 9 (LSN 16) (LSN 32) 5 1, pull_changes = [], pull_spool = Some [],
                   pull_spoolPath = ''live-cdc-spool-1.jsonl'', pull_seq = 1\<rparr>,
     temp_files := [''live-cdc-spool-1.jsonl'']\<rparr>"


end
