(* ===== verification/Sql_Text.thy ===== *)
theory Sql_Text
  imports Cdc_Event
begin

text \<open>
  The SQL text builders of \<open>internal/destination/applier.go\<close>, character for character, and the
  identifier checks that guard them.
\<close>

section \<open>Identifiers\<close>

text \<open>\<open>identPattern\<close>: \<open>[A-Za-z_][A-Za-z0-9_]*\<close>, anchored at both ends.\<close>

definition ident_start :: "char \<Rightarrow> bool" where
  "ident_start c \<longleftrightarrow>
     (let n = (of_char c :: nat) in 65 \<le> n \<and> n \<le> 90 \<or> 97 \<le> n \<and> n \<le> 122 \<or> n = 95)"

definition ident_char :: "char \<Rightarrow> bool" where
  "ident_char c \<longleftrightarrow> ident_start c \<or> (let n = (of_char c :: nat) in 48 \<le> n \<and> n \<le> 57)"

fun identPattern :: "string \<Rightarrow> bool" where
  "identPattern [] \<longleftrightarrow> False"
| "identPattern (c # s) \<longleftrightarrow> ident_start c \<and> list_all ident_char s"

definition verifyIdent :: "string \<Rightarrow> goerr option" where
  "verifyIdent name =
     (if \<not> identPattern name
      then Some (Errorf ''identifier %q is not a simple [A-Za-z_][A-Za-z0-9_]* name'' [name])
      else None)"

definition reservedColumns :: "string list" where
  "reservedColumns = [''source_lsn'', ''source_commit_time'', ''replicated_at'']"

definition metaSourceLSN :: string where
  "metaSourceLSN = ''source_lsn''"

definition metaSourceCommitTime :: string where
  "metaSourceCommitTime = ''source_commit_time''"

definition metaReplicatedAt :: string where
  "metaReplicatedAt = ''replicated_at''"

text \<open>\<open>strings.ReplaceAll\<close> of one character.\<close>

definition replace_char :: "char \<Rightarrow> string \<Rightarrow> string \<Rightarrow> string" where
  "replace_char old new s = concat (map (\<lambda>c. if c = old then new else [c]) s)"

definition dquote :: char where
  "dquote = CHR 0x22"

definition squote :: char where
  "squote = CHR 0x27"

definition quoteIdent :: "string \<Rightarrow> string" where
  "quoteIdent name = [dquote] @ replace_char dquote [dquote, dquote] name @ [dquote]"

definition qualified_name :: "string \<Rightarrow> string \<Rightarrow> string" where
  "qualified_name schema table = quoteIdent schema @ ''.'' @ quoteIdent table"

definition castFor :: "string \<Rightarrow> string" where
  "castFor dataType = (if dataType = [] then [] else ''::'' @ dataType)"

text \<open>A lookup in the Go map of column types: the empty string when the column is missing.\<close>

definition type_of :: "(string \<rightharpoonup> string) \<Rightarrow> string \<Rightarrow> string" where
  "type_of dataTypes column = (case dataTypes column of None \<Rightarrow> [] | Some t \<Rightarrow> t)"

fun containsString :: "string list \<Rightarrow> string \<Rightarrow> bool" where
  "containsString [] target \<longleftrightarrow> False"
| "containsString (value # vals) target \<longleftrightarrow> value = target \<or> containsString vals target"

lemma containsString_iff [simp]: "containsString vals target \<longleftrightarrow> target \<in> set vals"
  by (induction vals) auto

section \<open>Builders\<close>

text \<open>The loops \<open>for index, column := range columns\<close> with a separator before all but the first.\<close>

fun join_from :: "nat \<Rightarrow> string \<Rightarrow> (nat \<Rightarrow> string \<Rightarrow> string) \<Rightarrow> string list \<Rightarrow> string" where
  "join_from index sep f [] = []"
| "join_from index sep f (column # columns) =
     (if index > 0 then sep else []) @ f index column @ join_from (Suc index) sep f columns"

definition dollar :: "nat \<Rightarrow> string" where
  "dollar n = ''$'' @ itoa (int n)"

definition writeColumns :: "string list \<Rightarrow> string" where
  "writeColumns columns = join_from 0 '', '' (\<lambda>index column. quoteIdent column) columns"

definition writeLSNGuard :: "string \<Rightarrow> nat \<Rightarrow> string" where
  "writeLSNGuard table lsnParameter =
     '' AND ('' @ table @ ''.'' @ metaSourceLSN @ '' IS NULL OR '' @ table @ ''.'' @ metaSourceLSN
       @ '' <= '' @ dollar lsnParameter @ ''::pg_lsn)''"

definition buildKeyWhere :: "string list \<Rightarrow> nat \<Rightarrow> (string \<rightharpoonup> string) \<Rightarrow> string" where
  "buildKeyWhere keyColumns firstParameter dataTypes =
     join_from 0 '' AND ''
       (\<lambda>index column. quoteIdent column @ '' = '' @ dollar (firstParameter + index) @ castFor (type_of dataTypes column))
       keyColumns"

definition buildUpdateSQL :: "string \<Rightarrow> string list \<Rightarrow> string list \<Rightarrow> (string \<rightharpoonup> string) \<Rightarrow> string" where
  "buildUpdateSQL table columns keyColumns dataTypes =
     ''UPDATE '' @ table @ '' SET ''
     @ join_from 0 '', ''
         (\<lambda>index column. quoteIdent column @ '' = '' @ dollar (index + 1) @ castFor (type_of dataTypes column)) columns
     @ '', '' @ metaSourceLSN @ '' = '' @ dollar (length columns + 1) @ ''::pg_lsn, ''
     @ metaSourceCommitTime @ '' = '' @ dollar (length columns + 2) @ '', '' @ metaReplicatedAt @ '' = now()''
     @ '' WHERE ''
     @ join_from 0 '' AND ''
         (\<lambda>index column. quoteIdent column @ '' = '' @ dollar (length columns + 3 + index)
                          @ castFor (type_of dataTypes column)) keyColumns
     @ writeLSNGuard table (length columns + 1)"

definition insert_head :: "string \<Rightarrow> string list \<Rightarrow> (string \<rightharpoonup> string) \<Rightarrow> string" where
  "insert_head table columns dataTypes =
     ''INSERT INTO '' @ table @ '' ('' @ writeColumns columns
     @ '', '' @ metaSourceLSN @ '', '' @ metaSourceCommitTime @ '', '' @ metaReplicatedAt
     @ '') VALUES (''
     @ join_from 0 '', '' (\<lambda>index column. dollar (index + 1) @ castFor (type_of dataTypes column)) columns
     @ '', '' @ dollar (length columns + 1) @ ''::pg_lsn, '' @ dollar (length columns + 2) @ '', now())''"

definition buildInsertSQL :: "string \<Rightarrow> string list \<Rightarrow> (string \<rightharpoonup> string) \<Rightarrow> string" where
  "buildInsertSQL table columns dataTypes = insert_head table columns dataTypes"

definition buildUpsertSQL :: "string \<Rightarrow> string list \<Rightarrow> string list \<Rightarrow> (string \<rightharpoonup> string) \<Rightarrow> string" where
  "buildUpsertSQL table columns keyColumns dataTypes =
     insert_head table columns dataTypes @ '' ''
     @ ''ON CONFLICT ('' @ writeColumns keyColumns @ '') DO UPDATE SET ''
     @ join_from 0 '', '' (\<lambda>index column. quoteIdent column @ '' = EXCLUDED.'' @ quoteIdent column) columns
     @ '', '' @ metaSourceLSN @ '' = EXCLUDED.'' @ metaSourceLSN
     @ '', '' @ metaSourceCommitTime @ '' = EXCLUDED.'' @ metaSourceCommitTime
     @ '', '' @ metaReplicatedAt @ '' = now()''
     @ '' WHERE '' @ table @ ''.'' @ metaSourceLSN @ '' IS NULL OR ''
     @ table @ ''.'' @ metaSourceLSN @ '' <= EXCLUDED.'' @ metaSourceLSN"

definition buildDeleteSQL :: "string \<Rightarrow> string list \<Rightarrow> (string \<rightharpoonup> string) \<Rightarrow> string" where
  "buildDeleteSQL table keyColumns dataTypes =
     ''DELETE FROM '' @ table @ '' WHERE ''
     @ join_from 0 '' AND ''
         (\<lambda>index column. quoteIdent column @ '' = '' @ dollar (index + 1) @ castFor (type_of dataTypes column)) keyColumns
     @ '' AND ('' @ metaSourceLSN @ '' IS NULL OR '' @ metaSourceLSN @ '' <= ''
     @ dollar (length keyColumns + 1) @ ''::pg_lsn)''"

definition enumValues :: "string list \<Rightarrow> string" where
  "enumValues labels =
     join_from 0 '', '' (\<lambda>index label. [squote] @ replace_char squote [squote, squote] label @ [squote]) labels"

section \<open>Quoting\<close>

text \<open>
  How the server reads a quoted identifier or literal: after the opening quote \<open>q\<close>, a doubled
  quote is one quote, a single quote ends the token; the rest of the input is returned.
\<close>

fun unquote :: "char \<Rightarrow> string \<Rightarrow> (string \<times> string) option" where
  "unquote q [] = None"
| "unquote q (c # s) =
     (if c \<noteq> q then map_option (\<lambda>(t, r). (c # t, r)) (unquote q s)
      else (case s of
              [] \<Rightarrow> Some ([], [])
            | d # s' \<Rightarrow> if d = q then map_option (\<lambda>(t, r). (q # t, r)) (unquote q s') else Some ([], s)))"

lemma unquote_replace:
  assumes "\<And>c r. rest = c # r \<Longrightarrow> c \<noteq> q"
  shows "unquote q (replace_char q [q, q] s @ q # rest) = Some (s, rest)"
proof (induction s)
  case Nil
  show ?case
    using assms by (cases rest) (auto simp: replace_char_def)
next
  case (Cons c s)
  have "replace_char q [q, q] (c # s) = (if c = q then [q, q] else [c]) @ replace_char q [q, q] s"
    by (simp add: replace_char_def)
  with Cons show ?case by auto
qed

lemma quoteIdent_inj: "quoteIdent a = quoteIdent b \<longleftrightarrow> a = b"
proof
  assume "quoteIdent a = quoteIdent b"
  then have "unquote dquote (replace_char dquote [dquote, dquote] a @ dquote # []) =
             unquote dquote (replace_char dquote [dquote, dquote] b @ dquote # [])"
    by (simp add: quoteIdent_def)
  then show "a = b"
    using unquote_replace [of "[]"] by simp
qed simp

lemma ident_char_not_dquote: "ident_char c \<Longrightarrow> c \<noteq> dquote"
  by (auto simp: ident_char_def ident_start_def dquote_def Let_def)

lemma identPattern_chars: "identPattern s \<Longrightarrow> c \<in> set s \<Longrightarrow> ident_char c"
  by (cases s) (auto simp: ident_char_def list_all_iff)

lemma replace_char_absent: "q \<notin> set s \<Longrightarrow> replace_char q r s = s"
  by (induction s) (auto simp: replace_char_def)

lemma quoteIdent_ident:
  assumes "identPattern s"
  shows "quoteIdent s = dquote # s @ [dquote]"
proof -
  have "dquote \<notin> set s"
    using assms identPattern_chars ident_char_not_dquote by blast
  then show ?thesis
    by (simp add: quoteIdent_def replace_char_absent)
qed

lemma qualified_name_inj: "qualified_name s t = qualified_name s' t' \<longleftrightarrow> s = s' \<and> t = t'"
proof
  assume eq: "qualified_name s t = qualified_name s' t'"
  have tl: "tl (qualified_name s t) = replace_char dquote [dquote, dquote] s @ dquote # CHR ''.'' # quoteIdent t" for s t
    by (simp add: qualified_name_def quoteIdent_def)
  have u: "unquote dquote (tl (qualified_name s t)) = Some (s, CHR ''.'' # quoteIdent t)" for s t
    unfolding tl by (rule unquote_replace) (auto simp: dquote_def)
  have "Some (s, CHR ''.'' # quoteIdent t) = Some (s', CHR ''.'' # quoteIdent t')"
    using u [of s t] u [of s' t'] eq by simp
  then have "s = s' \<and> quoteIdent t = quoteIdent t'"
    by simp
  then show "s = s' \<and> t = t'"
    by (simp add: quoteIdent_inj)
qed simp

section \<open>Names as the server reads them\<close>

text \<open>
  \<open>$1::regclass\<close> on \<open>schema.table\<close>: a quoted identifier is taken as it is, an unquoted one is
  folded to lower case. The result is the quoted form.
\<close>

definition to_lower :: "char \<Rightarrow> char" where
  "to_lower c = (let n = (of_char c :: nat) in if 65 \<le> n \<and> n \<le> 90 then char_of (n + 32) else c)"

definition read_ident :: "string \<Rightarrow> string \<times> string" where
  "read_ident s =
     (case s of
        [] \<Rightarrow> ([], [])
      | c # r \<Rightarrow>
          if c = dquote then (case unquote dquote r of None \<Rightarrow> ([], []) | Some p \<Rightarrow> p)
          else (map to_lower (takeWhile ((\<noteq>) CHR ''.'') s), dropWhile ((\<noteq>) CHR ''.'') s))"

definition regclass :: "string \<Rightarrow> string" where
  "regclass s =
     (case read_ident s of (schema, rest) \<Rightarrow> qualified_name schema (fst (read_ident (tl rest))))"

lemma read_ident_quoted:
  assumes "\<And>c r. rest = c # r \<Longrightarrow> c \<noteq> dquote"
  shows "read_ident (quoteIdent s @ rest) = (s, rest)"
  using unquote_replace [of rest dquote s] assms by (simp add: read_ident_def quoteIdent_def)

lemma regclass_qualified_name [simp]: "regclass (qualified_name s t) = qualified_name s t"
proof -
  have "read_ident (quoteIdent s @ CHR ''.'' # quoteIdent t) = (s, CHR ''.'' # quoteIdent t)"
    by (rule read_ident_quoted) (simp add: dquote_def)
  moreover have "read_ident (quoteIdent t) = (t, [])"
    using read_ident_quoted [of "[]" t] by simp
  ultimately show ?thesis
    by (simp add: regclass_def qualified_name_def)
qed

end
