(* ===== verification/Dest_Db.thy ===== *)
theory Dest_Db
  imports Sql_Text
begin

text \<open>
  The destination database as the statements of \<open>internal/destination\<close> see it. The SQL of the
  source is a datatype of statements, one constructor per statement text (\<open>sql_text\<close> gives the
  text of the built ones); \<open>run_stmt\<close> is what each statement does to the tables, reading its
  parameters by the positions the text gives them. Whatever else PostgreSQL or the network may
  answer (constraints, casts, timeouts, lost connections) is the environment's \<open>fault\<close>.
\<close>

named_theorems db_simps "equations about statements on the database"

section \<open>Tables\<close>

text \<open>
  A stored row: its user columns, and the metadata columns \<open>source_lsn\<close> (NULL or a position)
  and \<open>source_commit_time\<close>. \<open>replicated_at\<close> is a clock reading nothing depends on.
\<close>

record table_row =
  row_vals :: row
  row_lsn :: "lsn option"
  row_time :: int

text \<open>
  Columns with their types in catalog order (the metadata columns among them), the primary key
  (empty: none), the column sets of the other unique indexes, NOT NULL columns, defaults, rows.
\<close>

record dtable =
  tbl_columns :: "(string \<times> string) list"
  tbl_primary :: "string list"
  tbl_unique :: "string list list"
  tbl_notnull :: "string list"
  tbl_defaults :: row
  tbl_rows :: "table_row list"

text \<open>A JSONB column: SQL NULL, the JSON null, an object of strings and nulls, a list of strings, other JSON.\<close>

datatype json_col = SqlNull | JsonNull | JsonRow row | JsonStrings "string list" | JsonOther

record dead_row =
  dl_event_id :: string
  dl_schema :: string
  dl_table :: string
  dl_operation :: string
  dl_lsn :: string
  dl_time :: int
  dl_key :: json_col
  dl_before :: json_col
  dl_after :: json_col
  dl_unchanged :: json_col
  dl_reason :: goerr
  dl_occurred :: int

text \<open>
  \<open>cdc_applied_events\<close>, \<open>cdc_table_watermarks\<close>, \<open>cdc_state\<close> as maps from their primary
  keys, \<open>cdc_dead_letters\<close> in insertion order, the user tables by qualified name, the enum
  types, and the bookkeeping tables and columns that exist.
\<close>

record database =
  applied_events :: "string \<rightharpoonup> lsn"
  watermarks :: "string \<rightharpoonup> lsn"
  cdc_state :: "string \<rightharpoonup> string"
  dead_letters :: "dead_row list"
  tables :: "string \<rightharpoonup> dtable"
  enum_types :: "string \<times> string \<rightharpoonup> string list"
  meta_objects :: "string list"

section \<open>Statements\<close>

datatype sql_stmt =
    ColumnsSQL
  | ColumnNamesSQL
  | MetaDDL "string list" string
  | MarkerSQL
  | MarkerReturningSQL
  | UpsertSQL string "string list" "string list" "string \<rightharpoonup> string"
  | UpdateSQL string "string list" "string list" "string \<rightharpoonup> string"
  | InsertSQL string "string list" "string \<rightharpoonup> string"
  | DeleteSQL string "string list" "string \<rightharpoonup> string"
  | KeyProbeSQL string "string list" "string \<rightharpoonup> string"
  | TruncateSQL string
  | WatermarkSelectSQL
  | WatermarkUpsertSQL
  | DeadLetterInsertSQL
  | DeadLetterListSQL bool bool
  | DeadLetterGetSQL
  | DeleteMarkerSQL
  | DeleteDeadLetterSQL
  | AddColumnSQL string string string bool "string option"
  | TypeExistsSQL
  | CreateTypeSQL string string "string list"
  | StateSelectSQL
  | StateUpsertSQL
  | PrimaryKeySQL

datatype param = PVal pgvalue | PText string | PTime int | PJson json_col | PReason goerr

datatype sql_result = Affected nat | TextRows "pgvalue list list" | DeadRows "dead_row list"

text \<open>The text of the statements that the builders compose.\<close>

fun sql_text :: "sql_stmt \<Rightarrow> string" where
  "sql_text (UpsertSQL table columns keyColumns dataTypes) = buildUpsertSQL table columns keyColumns dataTypes"
| "sql_text (UpdateSQL table columns keyColumns dataTypes) = buildUpdateSQL table columns keyColumns dataTypes"
| "sql_text (InsertSQL table columns dataTypes) = buildInsertSQL table columns dataTypes"
| "sql_text (DeleteSQL table keyColumns dataTypes) = buildDeleteSQL table keyColumns dataTypes"
| "sql_text (KeyProbeSQL table keyColumns dataTypes) =
     ''SELECT '' @ metaSourceLSN @ '' FROM '' @ table @ '' WHERE '' @ buildKeyWhere keyColumns 1 dataTypes"
| "sql_text (TruncateSQL table) = ''TRUNCATE TABLE '' @ table"
| "sql_text (AddColumnSQL table column dataType nullable defaultValue) =
     ''ALTER TABLE '' @ table @ '' ADD COLUMN '' @ quoteIdent column @ '' '' @ dataType
     @ (if nullable then [] else '' NOT NULL'')
     @ (case defaultValue of None \<Rightarrow> [] | Some expr \<Rightarrow> '' DEFAULT '' @ expr)"
| "sql_text (CreateTypeSQL schema name labels) =
     ''CREATE TYPE '' @ qualified_name schema name @ '' AS ENUM ('' @ enumValues labels @ '')''"
| "sql_text _ = []"

text \<open>
  The services. \<open>parse_lsn\<close> and \<open>lsn_text\<close> are the text form of WAL positions, shared by
  \<open>pglogrepl\<close> and PostgreSQL. \<open>fault\<close> is asked before every statement, with the number of
  interactions so far. A failed COMMIT may or may not have reached the server: \<open>commit_fault\<close>
  says which. \<open>eval_default\<close> is the value of a DEFAULT expression.
\<close>

record dest_env =
  parse_lsn :: "string \<Rightarrow> lsn option"
  lsn_text :: "lsn \<Rightarrow> string"
  fault :: "nat \<Rightarrow> sql_stmt \<Rightarrow> param list \<Rightarrow> database \<Rightarrow> goerr option"
  begin_fault :: "nat \<Rightarrow> goerr option"
  commit_fault :: "nat \<Rightarrow> (goerr \<times> bool) option"
  rollback_fault :: "nat \<Rightarrow> goerr option"
  close_fault :: "nat \<Rightarrow> goerr option"
  clock :: "nat \<Rightarrow> int"
  eval_default :: "string \<Rightarrow> pgvalue"

section \<open>What statements do\<close>

fun param_value :: "param option \<Rightarrow> pgvalue" where
  "param_value (Some (PVal v)) = v"
| "param_value (Some (PText s)) = Some s"
| "param_value _ = None"

text \<open>Parameter \<open>$i\<close> (from 1).\<close>

definition nth_param :: "param list \<Rightarrow> nat \<Rightarrow> param option" where
  "nth_param ps i = (if 1 \<le> i \<and> i \<le> length ps then Some (ps ! (i - 1)) else None)"

definition param_lsn :: "dest_env \<Rightarrow> param option \<Rightarrow> lsn option" where
  "param_lsn env p = (case param_value p of None \<Rightarrow> None | Some s \<Rightarrow> parse_lsn env s)"

fun param_time :: "param option \<Rightarrow> int" where
  "param_time (Some (PTime t)) = t"
| "param_time _ = 0"

text \<open>The cells \<open>$first, $first+1, ...\<close> of the given columns.\<close>

definition cells :: "param list \<Rightarrow> nat \<Rightarrow> string list \<Rightarrow> (string \<times> pgvalue) list" where
  "cells ps first columns = map (\<lambda>(i, c). (c, param_value (nth_param ps (first + i)))) (enumerate 0 columns)"

text \<open>SQL equality is never true of NULL.\<close>

fun sql_eq :: "pgvalue \<Rightarrow> pgvalue \<Rightarrow> bool" where
  "sql_eq (Some a) (Some b) \<longleftrightarrow> a = b"
| "sql_eq _ _ \<longleftrightarrow> False"

definition stored :: "table_row \<Rightarrow> string \<Rightarrow> pgvalue" where
  "stored r c = (case row_get (row_vals r) c of None \<Rightarrow> None | Some v \<Rightarrow> v)"

definition key_matches :: "(string \<times> pgvalue) list \<Rightarrow> table_row \<Rightarrow> bool" where
  "key_matches key r \<longleftrightarrow> list_all (\<lambda>(c, v). sql_eq (stored r c) v) key"

text \<open>\<open>source_lsn IS NULL OR source_lsn <= new\<close>.\<close>

definition lsn_guard :: "lsn option \<Rightarrow> lsn \<Rightarrow> bool" where
  "lsn_guard old new \<longleftrightarrow> (case old of None \<Rightarrow> True | Some l \<Rightarrow> l \<le> new)"

definition set_cells :: "(string \<times> pgvalue) list \<Rightarrow> row \<Rightarrow> row" where
  "set_cells cs r = fold (\<lambda>(c, v). row_put c v) cs r"

definition write_row :: "(string \<times> pgvalue) list \<Rightarrow> lsn \<Rightarrow> int \<Rightarrow> table_row \<Rightarrow> table_row" where
  "write_row cs l t r = r\<lparr>row_vals := set_cells cs (row_vals r), row_lsn := Some l, row_time := t\<rparr>"

definition new_row :: "dtable \<Rightarrow> (string \<times> pgvalue) list \<Rightarrow> lsn \<Rightarrow> int \<Rightarrow> table_row" where
  "new_row tbl cs l t = \<lparr>row_vals = set_cells cs (tbl_defaults tbl), row_lsn = Some l, row_time = t\<rparr>"

definition null_violation :: "dtable \<Rightarrow> table_row \<Rightarrow> bool" where
  "null_violation tbl r \<longleftrightarrow> (\<exists>c \<in> set (tbl_notnull tbl). stored r c = None)"

definition missing_column :: "dtable \<Rightarrow> string list \<Rightarrow> bool" where
  "missing_column tbl columns \<longleftrightarrow> (\<exists>c \<in> set columns. c \<notin> fst ` set (tbl_columns tbl))"

definition unique_sets :: "dtable \<Rightarrow> string list list" where
  "unique_sets tbl = (if tbl_primary tbl = [] then [] else [tbl_primary tbl]) @ tbl_unique tbl"

definition run_upsert ::
  "dtable \<Rightarrow> string list \<Rightarrow> (string \<times> pgvalue) list \<Rightarrow> lsn \<Rightarrow> int \<Rightarrow> goerr + nat \<times> dtable" where
  "run_upsert tbl keyColumns cs l t =
     (let key = filter (\<lambda>(c, v). c \<in> set keyColumns) cs in
      if set keyColumns \<notin> set ` set (unique_sets tbl) then Inl (PgError ''42P10'')
      else if null_violation tbl (new_row tbl cs l t) then Inl (PgError ''23502'')
      else if \<exists>r \<in> set (tbl_rows tbl). key_matches key r
      then Inr (length (filter (\<lambda>r. key_matches key r \<and> lsn_guard (row_lsn r) l) (tbl_rows tbl)),
                tbl\<lparr>tbl_rows := map (\<lambda>r. if key_matches key r \<and> lsn_guard (row_lsn r) l
                                         then write_row cs l t r else r) (tbl_rows tbl)\<rparr>)
      else Inr (1, tbl\<lparr>tbl_rows := tbl_rows tbl @ [new_row tbl cs l t]\<rparr>))"

definition run_update ::
  "dtable \<Rightarrow> (string \<times> pgvalue) list \<Rightarrow> (string \<times> pgvalue) list \<Rightarrow> lsn \<Rightarrow> int \<Rightarrow> goerr + nat \<times> dtable" where
  "run_update tbl key cs l t =
     (let hit = (\<lambda>r. key_matches key r \<and> lsn_guard (row_lsn r) l) in
      if \<exists>r \<in> set (tbl_rows tbl). hit r \<and> null_violation tbl (write_row cs l t r) then Inl (PgError ''23502'')
      else Inr (length (filter hit (tbl_rows tbl)),
                tbl\<lparr>tbl_rows := map (\<lambda>r. if hit r then write_row cs l t r else r) (tbl_rows tbl)\<rparr>))"

definition run_insert ::
  "dtable \<Rightarrow> (string \<times> pgvalue) list \<Rightarrow> lsn \<Rightarrow> int \<Rightarrow> goerr + nat \<times> dtable" where
  "run_insert tbl cs l t =
     (if null_violation tbl (new_row tbl cs l t) then Inl (PgError ''23502'')
      else if \<exists>u \<in> set (unique_sets tbl). \<exists>r \<in> set (tbl_rows tbl).
                key_matches (map (\<lambda>c. (c, stored (new_row tbl cs l t) c)) u) r
      then Inl (PgError ''23505'')
      else Inr (1, tbl\<lparr>tbl_rows := tbl_rows tbl @ [new_row tbl cs l t]\<rparr>))"

definition run_delete :: "dtable \<Rightarrow> (string \<times> pgvalue) list \<Rightarrow> lsn \<Rightarrow> nat \<times> dtable" where
  "run_delete tbl key l =
     (let hit = (\<lambda>r. key_matches key r \<and> lsn_guard (row_lsn r) l)
      in (length (filter hit (tbl_rows tbl)), tbl\<lparr>tbl_rows := filter (\<lambda>r. \<not> hit r) (tbl_rows tbl)\<rparr>))"

text \<open>A data statement on a table of the given columns: 42P01 and 42703 where they are missing.\<close>

definition on_table ::
  "database \<Rightarrow> string \<Rightarrow> string list \<Rightarrow> (dtable \<Rightarrow> goerr + nat \<times> dtable) \<Rightarrow> goerr + sql_result \<times> database" where
  "on_table d table columns f =
     (case tables d table of
        None \<Rightarrow> Inl (PgError ''42P01'')
      | Some tbl \<Rightarrow>
          if missing_column tbl columns then Inl (PgError ''42703'')
          else (case f tbl of
                  Inl e \<Rightarrow> Inl e
                | Inr (n, tbl') \<Rightarrow> Inr (Affected n, d\<lparr>tables := (tables d)(table \<mapsto> tbl')\<rparr>)))"

definition with_lsn :: "dest_env \<Rightarrow> param option \<Rightarrow> (lsn \<Rightarrow> goerr + 'a) \<Rightarrow> goerr + 'a" where
  "with_lsn env p f = (case param_lsn env p of None \<Rightarrow> Inl (PgError ''22P02'') | Some l \<Rightarrow> f l)"

definition insert_marker :: "database \<Rightarrow> string \<Rightarrow> lsn \<Rightarrow> bool \<times> database" where
  "insert_marker d eid l =
     (if applied_events d eid = None then (True, d\<lparr>applied_events := (applied_events d)(eid \<mapsto> l)\<rparr>) else (False, d))"

definition text_param :: "param option \<Rightarrow> string" where
  "text_param p = (case param_value p of None \<Rightarrow> [] | Some s \<Rightarrow> s)"

definition upsert_dead_letter :: "dead_row \<Rightarrow> dead_row list \<Rightarrow> dead_row list" where
  "upsert_dead_letter row ds =
     (if \<exists>r \<in> set ds. dl_event_id r = dl_event_id row
      then map (\<lambda>r. if dl_event_id r = dl_event_id row then r\<lparr>dl_reason := dl_reason row\<rparr> else r) ds
      else ds @ [row])"

fun param_json :: "param \<Rightarrow> json_col" where
  "param_json (PJson j) = j"
| "param_json _ = SqlNull"

fun param_reason :: "param \<Rightarrow> goerr" where
  "param_reason (PReason e) = e"
| "param_reason _ = Errorf [] []"

text \<open>The row of the eleven parameters of the dead-letter INSERT; \<open>occurred_at\<close> defaults to now.\<close>

definition dead_letter_params :: "param list \<Rightarrow> int \<Rightarrow> dead_row option" where
  "dead_letter_params ps now =
     (if length ps \<noteq> 11 then None
      else Some \<lparr>dl_event_id = text_param (Some (ps ! 0)), dl_schema = text_param (Some (ps ! 1)),
                 dl_table = text_param (Some (ps ! 2)), dl_operation = text_param (Some (ps ! 3)),
                 dl_lsn = text_param (Some (ps ! 4)), dl_time = param_time (Some (ps ! 5)),
                 dl_key = param_json (ps ! 6), dl_before = param_json (ps ! 7), dl_after = param_json (ps ! 8),
                 dl_unchanged = param_json (ps ! 9), dl_reason = param_reason (ps ! 10), dl_occurred = now\<rparr>)"

definition add_column :: "dest_env \<Rightarrow> dtable \<Rightarrow> string \<Rightarrow> string \<Rightarrow> bool \<Rightarrow> string option \<Rightarrow> goerr + dtable" where
  "add_column env tbl column dataType nullable defaultValue =
     (let v = (case defaultValue of None \<Rightarrow> None | Some expr \<Rightarrow> eval_default env expr) in
      if column \<in> fst ` set (tbl_columns tbl) then Inl (PgError ''42701'')
      else if \<not> nullable \<and> v = None \<and> tbl_rows tbl \<noteq> [] then Inl (PgError ''23502'')
      else Inr (tbl\<lparr>tbl_columns := tbl_columns tbl @ [(column, dataType)],
                    tbl_notnull := (if nullable then tbl_notnull tbl else column # tbl_notnull tbl),
                    tbl_defaults := row_put column v (tbl_defaults tbl),
                    tbl_rows := map (\<lambda>r. r\<lparr>row_vals := row_put column v (row_vals r)\<rparr>) (tbl_rows tbl)\<rparr>))"

text \<open>The bookkeeping objects a statement needs; without them it fails with 42P01.\<close>

fun meta_needed :: "sql_stmt \<Rightarrow> string list" where
  "meta_needed MarkerSQL = [''cdc_applied_events'']"
| "meta_needed MarkerReturningSQL = [''cdc_applied_events'']"
| "meta_needed DeleteMarkerSQL = [''cdc_applied_events'']"
| "meta_needed WatermarkSelectSQL = [''cdc_table_watermarks'']"
| "meta_needed WatermarkUpsertSQL = [''cdc_table_watermarks'']"
| "meta_needed DeadLetterInsertSQL = [''cdc_dead_letters'', ''cdc_dead_letters.before'', ''cdc_dead_letters.unchanged_columns'']"
| "meta_needed (DeadLetterListSQL _ _) = [''cdc_dead_letters'', ''cdc_dead_letters.before'', ''cdc_dead_letters.unchanged_columns'']"
| "meta_needed DeadLetterGetSQL = [''cdc_dead_letters'', ''cdc_dead_letters.before'', ''cdc_dead_letters.unchanged_columns'']"
| "meta_needed DeleteDeadLetterSQL = [''cdc_dead_letters'']"
| "meta_needed StateSelectSQL = [''cdc_state'']"
| "meta_needed StateUpsertSQL = [''cdc_state'']"
| "meta_needed (MetaDDL needs _) = needs"
| "meta_needed _ = []"

definition has_meta :: "database \<Rightarrow> sql_stmt \<Rightarrow> bool" where
  "has_meta d stmt \<longleftrightarrow> set (meta_needed stmt) \<subseteq> set (meta_objects d)"

fun run_stmt :: "dest_env \<Rightarrow> int \<Rightarrow> sql_stmt \<Rightarrow> param list \<Rightarrow> database \<Rightarrow> goerr + sql_result \<times> database" where
  "run_stmt env now ColumnsSQL ps d =
     (case tables d (regclass (text_param (nth_param ps 1))) of
        None \<Rightarrow> Inl (PgError ''42P01'')
      | Some tbl \<Rightarrow> Inr (TextRows (map (\<lambda>(c, ty). [Some c, Some ty]) (tbl_columns tbl)), d))"
| "run_stmt env now ColumnNamesSQL ps d =
     (case tables d (regclass (text_param (nth_param ps 1))) of
        None \<Rightarrow> Inl (PgError ''42P01'')
      | Some tbl \<Rightarrow> Inr (TextRows (map (\<lambda>(c, ty). [Some c]) (tbl_columns tbl)), d))"
| "run_stmt env now (MetaDDL needs object) ps d = Inr (Affected 0, d\<lparr>meta_objects := List.insert object (meta_objects d)\<rparr>)"
| "run_stmt env now MarkerSQL ps d =
     with_lsn env (nth_param ps 2) (\<lambda>l.
       case insert_marker d (text_param (nth_param ps 1)) l of
         (new, d') \<Rightarrow> Inr (Affected (if new then 1 else 0), d'))"
| "run_stmt env now MarkerReturningSQL ps d =
     with_lsn env (nth_param ps 2) (\<lambda>l.
       case insert_marker d (text_param (nth_param ps 1)) l of
         (new, d') \<Rightarrow> Inr (TextRows (if new then [[Some (text_param (nth_param ps 1))]] else []), d'))"
| "run_stmt env now (UpsertSQL table columns keyColumns dataTypes) ps d =
     on_table d table (columns @ keyColumns) (\<lambda>tbl.
       with_lsn env (nth_param ps (length columns + 1)) (\<lambda>l.
         run_upsert tbl keyColumns (cells ps 1 columns) l (param_time (nth_param ps (length columns + 2)))))"
| "run_stmt env now (UpdateSQL table columns keyColumns dataTypes) ps d =
     on_table d table (columns @ keyColumns) (\<lambda>tbl.
       with_lsn env (nth_param ps (length columns + 1)) (\<lambda>l.
         run_update tbl (cells ps (length columns + 3) keyColumns) (cells ps 1 columns) l
           (param_time (nth_param ps (length columns + 2)))))"
| "run_stmt env now (InsertSQL table columns dataTypes) ps d =
     on_table d table columns (\<lambda>tbl.
       with_lsn env (nth_param ps (length columns + 1)) (\<lambda>l.
         run_insert tbl (cells ps 1 columns) l (param_time (nth_param ps (length columns + 2)))))"
| "run_stmt env now (DeleteSQL table keyColumns dataTypes) ps d =
     on_table d table keyColumns (\<lambda>tbl.
       with_lsn env (nth_param ps (length keyColumns + 1)) (\<lambda>l.
         Inr (run_delete tbl (cells ps 1 keyColumns) l)))"
| "run_stmt env now (KeyProbeSQL table keyColumns dataTypes) ps d =
     (case on_table d table keyColumns (\<lambda>tbl. Inr (0, tbl)) of
        Inl e \<Rightarrow> Inl e
      | Inr _ \<Rightarrow> Inr (TextRows (map (\<lambda>r. [map_option (lsn_text env) (row_lsn r)])
                        (filter (key_matches (cells ps 1 keyColumns)) (tbl_rows (the (tables d table))))), d))"
| "run_stmt env now (TruncateSQL table) ps d =
     on_table d table [] (\<lambda>tbl. Inr (0, tbl\<lparr>tbl_rows := []\<rparr>))"
| "run_stmt env now WatermarkSelectSQL ps d =
     Inr (TextRows (case watermarks d (text_param (nth_param ps 1)) of None \<Rightarrow> [] | Some l \<Rightarrow> [[Some (lsn_text env l)]]), d)"
| "run_stmt env now WatermarkUpsertSQL ps d =
     with_lsn env (nth_param ps 2) (\<lambda>l.
       Inr (Affected 1, d\<lparr>watermarks := (watermarks d)(text_param (nth_param ps 1) \<mapsto> l)\<rparr>))"
| "run_stmt env now DeadLetterInsertSQL ps d =
     (case dead_letter_params ps now of
        None \<Rightarrow> Inl (PgError ''08P01'')
      | Some row \<Rightarrow> Inr (Affected 1, d\<lparr>dead_letters := upsert_dead_letter row (dead_letters d)\<rparr>))"
| "run_stmt env now (DeadLetterListSQL by_schema by_table) ps d =
     Inr (DeadRows (sort_key dl_occurred (filter (\<lambda>r.
            (by_schema \<longrightarrow> Some (dl_schema r) = param_value (nth_param ps 1)) \<and>
            (by_table \<longrightarrow> Some (dl_table r) = param_value (nth_param ps (if by_schema then 2 else 1))))
          (dead_letters d))), d)"
| "run_stmt env now DeadLetterGetSQL ps d =
     Inr (DeadRows (filter (\<lambda>r. dl_event_id r = text_param (nth_param ps 1)) (dead_letters d)), d)"
| "run_stmt env now DeleteMarkerSQL ps d =
     Inr (Affected (if applied_events d (text_param (nth_param ps 1)) = None then 0 else 1),
          d\<lparr>applied_events := (applied_events d)(text_param (nth_param ps 1) := None)\<rparr>)"
| "run_stmt env now DeleteDeadLetterSQL ps d =
     Inr (Affected (length (filter (\<lambda>r. dl_event_id r = text_param (nth_param ps 1)) (dead_letters d))),
          d\<lparr>dead_letters := filter (\<lambda>r. dl_event_id r \<noteq> text_param (nth_param ps 1)) (dead_letters d)\<rparr>)"
| "run_stmt env now (AddColumnSQL table column dataType nullable defaultValue) ps d =
     on_table d table [] (\<lambda>tbl.
       case add_column env tbl column dataType nullable defaultValue of Inl e \<Rightarrow> Inl e | Inr tbl' \<Rightarrow> Inr (0, tbl'))"
| "run_stmt env now TypeExistsSQL ps d =
     Inr (TextRows (if enum_types d (text_param (nth_param ps 1), text_param (nth_param ps 2)) = None
                    then [[Some ''f'']] else [[Some ''t'']]), d)"
| "run_stmt env now (CreateTypeSQL schema name labels) ps d =
     (if enum_types d (schema, name) = None
      then Inr (Affected 0, d\<lparr>enum_types := (enum_types d)((schema, name) \<mapsto> labels)\<rparr>)
      else Inl (PgError ''42710''))"
| "run_stmt env now StateSelectSQL ps d =
     Inr (TextRows (case cdc_state d (text_param (nth_param ps 1)) of None \<Rightarrow> [] | Some v \<Rightarrow> [[Some v]]), d)"
| "run_stmt env now StateUpsertSQL ps d =
     Inr (Affected 1, d\<lparr>cdc_state := (cdc_state d)(text_param (nth_param ps 1) \<mapsto> ''done'')\<rparr>)"
| "run_stmt env now PrimaryKeySQL ps d =
     (case tables d (regclass (text_param (nth_param ps 1))) of
        None \<Rightarrow> Inl (PgError ''42P01'')
      | Some tbl \<Rightarrow> Inr (TextRows (map (\<lambda>c. [Some c]) (tbl_primary tbl)), d))"

section \<open>The connection\<close>

text \<open>
  One connection: the committed database, the view of the open transaction (if any) and whether
  a failed statement has aborted it, the number of interactions so far, and the Applier's column
  cache (\<open>columnsSeenAt\<close>, \<open>columnsByTable\<close>).
\<close>

record conn =
  db :: database
  tx_view :: "database option"
  tx_aborted :: bool
  tick :: nat
  columnsSeenAt :: "string \<rightharpoonup> int"
  columnsByTable :: "string \<rightharpoonup> (string \<times> string) list"

definition view :: "conn \<Rightarrow> database" where
  "view c = (case tx_view c of None \<Rightarrow> db c | Some d \<Rightarrow> d)"

definition put_view :: "database \<Rightarrow> conn \<Rightarrow> conn" where
  "put_view d c = (case tx_view c of None \<Rightarrow> c\<lparr>db := d\<rparr> | Some _ \<Rightarrow> c\<lparr>tx_view := Some d\<rparr>)"

definition fail_stmt :: "goerr \<Rightarrow> conn \<Rightarrow> (goerr + 'a) \<times> conn" where
  "fail_stmt e c = (Inl e, c\<lparr>tx_aborted := (tx_aborted c \<or> tx_view c \<noteq> None), tick := Suc (tick c)\<rparr>)"

definition exec :: "dest_env \<Rightarrow> sql_stmt \<Rightarrow> param list \<Rightarrow> conn \<Rightarrow> (goerr + sql_result) \<times> conn" where
  "exec env stmt ps c =
     (if tx_aborted c then fail_stmt (PgError ''25P02'') c
      else (case fault env (tick c) stmt ps (view c) of
              Some e \<Rightarrow> fail_stmt e c
            | None \<Rightarrow>
                if \<not> has_meta (view c) stmt then fail_stmt (PgError ''42P01'') c
                else (case run_stmt env (clock env (tick c)) stmt ps (view c) of
                        Inl e \<Rightarrow> fail_stmt e c
                      | Inr (res, d) \<Rightarrow> (Inr res, (put_view d c)\<lparr>tick := Suc (tick c)\<rparr>))))"

definition begin_tx :: "dest_env \<Rightarrow> conn \<Rightarrow> goerr option \<times> conn" where
  "begin_tx env c =
     (case begin_fault env (tick c) of
        Some e \<Rightarrow> (Some e, c\<lparr>tick := Suc (tick c)\<rparr>)
      | None \<Rightarrow> (None, c\<lparr>tx_view := Some (view c), tx_aborted := False, tick := Suc (tick c)\<rparr>))"

text \<open>\<open>Rollback\<close> on a closed transaction does nothing; otherwise the work is gone even when the call fails.\<close>

definition rollback :: "dest_env \<Rightarrow> conn \<Rightarrow> goerr option \<times> conn" where
  "rollback env c =
     (case tx_view c of
        None \<Rightarrow> (Some (ServiceErr ''tx is closed''), c)
      | Some _ \<Rightarrow> (rollback_fault env (tick c), c\<lparr>tx_view := None, tx_aborted := False, tick := Suc (tick c)\<rparr>))"

definition commit :: "dest_env \<Rightarrow> conn \<Rightarrow> goerr option \<times> conn" where
  "commit env c =
     (case tx_view c of
        None \<Rightarrow> (Some (ServiceErr ''tx is closed''), c)
      | Some d \<Rightarrow>
          (let c' = c\<lparr>tx_view := None, tx_aborted := False, tick := Suc (tick c)\<rparr> in
           if tx_aborted c then (Some (ServiceErr ''commit unexpectedly resulted in rollback''), c')
           else (case commit_fault env (tick c) of
                   Some (e, reached) \<Rightarrow> (Some e, if reached then c'\<lparr>db := d\<rparr> else c')
                 | None \<Rightarrow> (None, c'\<lparr>db := d\<rparr>))))"

end
