(* ===== verification/Applier.thy ===== *)
theory Applier
  imports Dest_Db
begin

text \<open>
  \<open>internal/destination/applier.go\<close>: applying events to the destination, one at a time or as a
  batch, quarantining them, and repairing the destination schema. Functions take and return the
  connection state; \<open>(T, error)\<close> is a sum, \<open>error\<close> an option.
\<close>

section \<open>Error classification\<close>

definition poisonOrWrap :: "goerr \<Rightarrow> string \<Rightarrow> goerr" where
  "poisonOrWrap err description =
     (if errors_as is_pg_error_type err
      then the (Permanent (Some (Wrapf ''%s: %w'' [description] err)))
      else Wrapf ''%s: %w'' [description] err)"

definition permanent :: "string \<Rightarrow> string list \<Rightarrow> goerr option \<Rightarrow> goerr" where
  "permanent format args err = Permanentf format args err"

fun is_undefined_column_type :: "goerr \<Rightarrow> bool" where
  "is_undefined_column_type (PgError code) \<longleftrightarrow> code = ''42703''"
| "is_undefined_column_type _ \<longleftrightarrow> False"

text \<open>\<open>errors.As\<close> finds the first \<open>*PgError\<close> of the chain; its code decides.\<close>

fun IsUndefinedColumn :: "goerr \<Rightarrow> bool" where
  "IsUndefinedColumn (Wrapf _ _ e) = IsUndefinedColumn e"
| "IsUndefinedColumn (PermanentE e) = IsUndefinedColumn e"
| "IsUndefinedColumn e = is_undefined_column_type e"

section \<open>Queries\<close>

definition exec_err :: "dest_env \<Rightarrow> sql_stmt \<Rightarrow> param list \<Rightarrow> conn \<Rightarrow> goerr option \<times> conn" where
  "exec_err env stmt ps c = (case exec env stmt ps c of (Inl e, c') \<Rightarrow> (Some e, c') | (Inr _, c') \<Rightarrow> (None, c'))"

text \<open>\<open>QueryRow(...).Scan\<close>: the first row, or \<open>pgx.ErrNoRows\<close>.\<close>

definition query_row :: "dest_env \<Rightarrow> sql_stmt \<Rightarrow> param list \<Rightarrow> conn \<Rightarrow> (goerr + pgvalue list) \<times> conn" where
  "query_row env stmt ps c =
     (case exec env stmt ps c of
        (Inl e, c') \<Rightarrow> (Inl e, c')
      | (Inr (TextRows (r # rs)), c') \<Rightarrow> (Inr r, c')
      | (Inr _, c') \<Rightarrow> (Inl ErrNoRows, c'))"

definition execWithPoison :: "dest_env \<Rightarrow> sql_stmt \<Rightarrow> param list \<Rightarrow> string \<Rightarrow> conn \<Rightarrow> goerr option \<times> conn" where
  "execWithPoison env stmt ps description c =
     (case exec env stmt ps c of
        (Inl e, c') \<Rightarrow> (Some (poisonOrWrap e description), c')
      | (Inr _, c') \<Rightarrow> (None, c'))"

section \<open>The column cache\<close>

definition columnCacheTTL :: int where
  "columnCacheTTL = 2 * 60 * 1000000000"

text \<open>Scanning name and type of each row.\<close>

fun scan_columns :: "pgvalue list list \<Rightarrow> (string \<times> string) list" where
  "scan_columns [] = []"
| "scan_columns (r # rs) =
     (case r of [Some name, Some dataType] \<Rightarrow> (name, dataType) # scan_columns rs | _ \<Rightarrow> scan_columns rs)"

definition cached_types :: "conn \<Rightarrow> string \<Rightarrow> string \<rightharpoonup> string" where
  "cached_types c qualified = (case columnsByTable c qualified of None \<Rightarrow> Map.empty | Some defs \<Rightarrow> map_of defs)"

definition tableColumns ::
  "dest_env \<Rightarrow> string \<Rightarrow> string \<Rightarrow> conn \<Rightarrow> (goerr + (string \<rightharpoonup> string)) \<times> conn" where
  "tableColumns env schema table c =
     (let qualified = qualified_name schema table; now = clock env (tick c) in
      if (case columnsSeenAt c qualified of None \<Rightarrow> False | Some fetched \<Rightarrow> now - fetched < columnCacheTTL)
      then (Inr (cached_types c qualified), c)
      else
        (let c1 = c\<lparr>columnsSeenAt := (columnsSeenAt c)(qualified \<mapsto> now)\<rparr> in
         case exec env ColumnsSQL [PText qualified] c1 of
           (Inl e, c2) \<Rightarrow> (Inl (Wrapf ''list columns of destination %s: %w'' [qualified] e), c2)
         | (Inr res, c2) \<Rightarrow>
             (let defs = (case res of TextRows rs \<Rightarrow> scan_columns rs | _ \<Rightarrow> []);
                  c3 = (if defs = [] then c2\<lparr>columnsSeenAt := (columnsSeenAt c2)(qualified := None)\<rparr>
                        else c2\<lparr>columnsByTable := (columnsByTable c2)(qualified \<mapsto> defs)\<rparr>)
              in (Inr (map_of defs), c3))))"

definition invalidateColumns :: "string \<Rightarrow> string \<Rightarrow> conn \<Rightarrow> conn" where
  "invalidateColumns schema table c =
     c\<lparr>columnsSeenAt := (columnsSeenAt c)(qualified_name schema table := None),
       columnsByTable := (columnsByTable c)(qualified_name schema table := None)\<rparr>"

section \<open>Bookkeeping tables\<close>

text \<open>
  \<open>EnsureMetaSchema\<close>: four CREATE TABLE IF NOT EXISTS, then two ADD COLUMN IF NOT EXISTS. The
  CREATE of \<open>cdc_dead_letters\<close> brings the two later columns only when it creates the table.
\<close>

definition meta_creates :: "string list" where
  "meta_creates =
     [''cdc_applied_events'', ''cdc_dead_letters'', ''cdc_table_watermarks'', ''cdc_state'']"

fun exec_all_meta :: "dest_env \<Rightarrow> string \<Rightarrow> (string list \<times> string) list \<Rightarrow> conn \<Rightarrow> goerr option \<times> conn" where
  "exec_all_meta env message [] c = (None, c)"
| "exec_all_meta env message ((needs, object) # rest) c =
     (case exec_err env (MetaDDL needs object) [] c of
        (Some e, c') \<Rightarrow> (Some (Wrapf message [] e), c')
      | (None, c') \<Rightarrow> exec_all_meta env message rest c')"

definition EnsureMetaSchema :: "dest_env \<Rightarrow> conn \<Rightarrow> goerr option \<times> conn" where
  "EnsureMetaSchema env c =
     (case exec_all_meta env ''ensure destination metadata schema: %w''
             (map (\<lambda>t. ([], t)) meta_creates) c of
        (Some e, c') \<Rightarrow> (Some e, c')
      | (None, c') \<Rightarrow>
          exec_all_meta env ''migrate destination metadata schema: %w''
            [([''cdc_dead_letters''], ''cdc_dead_letters.before''),
             ([''cdc_dead_letters''], ''cdc_dead_letters.unchanged_columns'')] c')"

section \<open>Rows to parameters\<close>

fun reserved_column :: "string list \<Rightarrow> goerr option" where
  "reserved_column [] = None"
| "reserved_column (column # columns) =
     (if column \<in> set reservedColumns
      then Some (Errorf ''column %q collides with a reserved pipeline column'' [column])
      else reserved_column columns)"

definition verifyColumns :: "event \<Rightarrow> goerr option" where
  "verifyColumns event =
     (case reserved_column (row_cols (After event)) of
        Some e \<Rightarrow> Some e
      | None \<Rightarrow> reserved_column (row_cols (Key event)))"

fun verify_row_columns :: "string list \<Rightarrow> goerr option" where
  "verify_row_columns [] = None"
| "verify_row_columns (column # columns) =
     (case verifyIdent column of
        Some e \<Rightarrow> Some e
      | None \<Rightarrow>
          if column \<in> set reservedColumns
          then Some (Errorf ''column %q collides with a reserved pipeline column'' [column])
          else verify_row_columns columns)"

definition row_value :: "row \<Rightarrow> string \<Rightarrow> pgvalue" where
  "row_value row column = (case row_get row column of None \<Rightarrow> None | Some v \<Rightarrow> v)"

definition transcodeRow :: "row \<Rightarrow> goerr + string list \<times> param list" where
  "transcodeRow row =
     (if row = [] then Inl (Errorf ''row has no columns'' [])
      else (case verify_row_columns (row_cols row) of
              Some e \<Rightarrow> Inl e
            | None \<Rightarrow>
                (let columns = sort (row_cols row)
                 in Inr (columns, map (\<lambda>column. PVal (row_value row column)) columns))))"

definition appendNumbered :: "param list \<Rightarrow> string \<Rightarrow> int \<Rightarrow> param list" where
  "appendNumbered vals lsn commitTime = vals @ [PText lsn, PTime commitTime]"

text \<open>The two loops over the key columns.\<close>

fun key_absent :: "string list \<Rightarrow> string list \<Rightarrow> string option" where
  "key_absent columns [] = None"
| "key_absent columns (column # keyColumns) =
     (if \<not> containsString columns column then Some column else key_absent columns keyColumns)"

fun key_unchanged :: "string list \<Rightarrow> string list \<Rightarrow> string option" where
  "key_unchanged unchanged [] = None"
| "key_unchanged unchanged (column # keyColumns) =
     (if containsString unchanged column then Some column else key_unchanged unchanged keyColumns)"

section \<open>One event\<close>

definition markApplied :: "dest_env \<Rightarrow> string \<Rightarrow> string \<Rightarrow> conn \<Rightarrow> (goerr + bool) \<times> conn" where
  "markApplied env eventID commitLSN c =
     (case query_row env MarkerReturningSQL [PText eventID, PText commitLSN] c of
        (Inl e, c') \<Rightarrow>
          if errors_is e ErrNoRows then (Inr False, c')
          else (Inl (Wrapf ''record applied event %s: %w'' [eventID] e), c')
      | (Inr _, c') \<Rightarrow> (Inr True, c'))"

definition tableWatermark :: "dest_env \<Rightarrow> string \<Rightarrow> conn \<Rightarrow> (goerr + lsn) \<times> conn" where
  "tableWatermark env table c =
     (case query_row env WatermarkSelectSQL [PText table] c of
        (Inl e, c') \<Rightarrow>
          if errors_is e ErrNoRows then (Inr 0, c')
          else (Inl (Wrapf ''read truncate watermark for %s: %w'' [table] e), c')
      | (Inr r, c') \<Rightarrow>
          (let watermarkText = (case r of Some t # _ \<Rightarrow> t | _ \<Rightarrow> []) in
           case parse_lsn env watermarkText of
             None \<Rightarrow> (Inl (permanent ''corrupted truncate watermark %q for %s: %v'' [watermarkText, table] None), c')
           | Some watermark \<Rightarrow> (Inr watermark, c')))"

definition truncateIsStale :: "lsn \<Rightarrow> lsn \<Rightarrow> bool" where
  "truncateIsStale eventLSN watermark \<longleftrightarrow> watermark \<noteq> 0 \<and> eventLSN \<le> watermark"

definition applyTruncateInTx :: "dest_env \<Rightarrow> event \<Rightarrow> conn \<Rightarrow> (goerr + bool) \<times> conn" where
  "applyTruncateInTx env event c =
     (case markApplied env (ID event) (CommitLSN (Source event)) c of
        (Inl e, c1) \<Rightarrow> (Inl e, c1)
      | (Inr False, c1) \<Rightarrow> (Inr False, c1)
      | (Inr True, c1) \<Rightarrow>
     (case parse_lsn env (CommitLSN (Source event)) of
        None \<Rightarrow> (Inl (permanent ''event %s: invalid commit LSN %q'' [ID event, CommitLSN (Source event)] None), c1)
      | Some eventLSN \<Rightarrow>
     (let table = qualified_name (Schema event) (Table event) in
      case tableWatermark env table c1 of
        (Inl e, c2) \<Rightarrow> (Inl e, c2)
      | (Inr watermark, c2) \<Rightarrow>
          if truncateIsStale eventLSN watermark then (Inr False, c2)
          else
     (case exec_err env (TruncateSQL table) [] c2 of
        (Some e, c3) \<Rightarrow> (Inl (poisonOrWrap e (''truncate '' @ table)), c3)
      | (None, c3) \<Rightarrow>
     (case exec_err env WatermarkUpsertSQL [PText table, PText (CommitLSN (Source event))] c3 of
        (Some e, c4) \<Rightarrow> (Inl (poisonOrWrap e (''advance truncate watermark for '' @ table)), c4)
      | (None, c4) \<Rightarrow> (Inr True, c4))))))"

definition applyUpdatePreserving ::
  "dest_env \<Rightarrow> string \<Rightarrow> string list \<Rightarrow> string list \<Rightarrow> (string \<rightharpoonup> string) \<Rightarrow> param list \<Rightarrow> param list \<Rightarrow> string
     \<Rightarrow> conn \<Rightarrow> goerr option \<times> conn" where
  "applyUpdatePreserving env table columns keyColumns dataTypes parameters keyValues description c =
     (case exec_err env (UpdateSQL table columns keyColumns dataTypes) (parameters @ keyValues) c of
        (Some e, c1) \<Rightarrow> (Some (poisonOrWrap e description), c1)
      | (None, c1) \<Rightarrow>
     (case query_row env (KeyProbeSQL table keyColumns dataTypes) keyValues c1 of
        (Inl e, c2) \<Rightarrow>
          if e = ErrNoRows
          then (case exec_err env (InsertSQL table columns dataTypes) parameters c2 of
                  (Some e', c3) \<Rightarrow> (Some (poisonOrWrap e' description), c3)
                | (None, c3) \<Rightarrow> (None, c3))
          else (Some (poisonOrWrap e description), c2)
      | (Inr _, c2) \<Rightarrow> (None, c2)))"

definition describe_write :: "string \<Rightarrow> event \<Rightarrow> string" where
  "describe_write what event =
     what @ '' event '' @ ID event @ '' on '' @ Schema event @ ''.'' @ Table event"

definition apply_upsert :: "dest_env \<Rightarrow> string \<Rightarrow> (string \<rightharpoonup> string) \<Rightarrow> event \<Rightarrow> conn \<Rightarrow> goerr option \<times> conn" where
  "apply_upsert env table dataTypes event c =
     (case transcodeRow (After event) of
        Inl e \<Rightarrow> (Some (permanent ''event %s: %v'' [ID event] (Some e)), c)
      | Inr (columns, vals) \<Rightarrow>
     (case transcodeRow (Key event) of
        Inl e \<Rightarrow> (Some (permanent ''event %s: %v'' [ID event] (Some e)), c)
      | Inr (keyColumns, keyValues) \<Rightarrow>
     (case key_absent columns keyColumns of
        Some column \<Rightarrow>
          (Some (permanent ''event %s: primary-key column %q is absent from the change row'' [ID event, column] None), c)
      | None \<Rightarrow>
     (case key_unchanged (UnchangedColumns event) keyColumns of
        Some column \<Rightarrow>
          (Some (permanent ''event %s: primary-key column %q is marked unchanged'' [ID event, column] None), c)
      | None \<Rightarrow>
          (let parameters = appendNumbered vals (CommitLSN (Source event)) (CommitTime (Source event));
               description = describe_write ''upsert'' event
           in if UnchangedColumns event \<noteq> []
              then applyUpdatePreserving env table columns keyColumns dataTypes parameters keyValues description c
              else execWithPoison env (UpsertSQL table columns keyColumns dataTypes) parameters description c)))))"

definition apply_delete :: "dest_env \<Rightarrow> string \<Rightarrow> (string \<rightharpoonup> string) \<Rightarrow> event \<Rightarrow> conn \<Rightarrow> goerr option \<times> conn" where
  "apply_delete env table dataTypes event c =
     (case transcodeRow (Key event) of
        Inl e \<Rightarrow> (Some (permanent ''event %s: %v'' [ID event] (Some e)), c)
      | Inr (keyColumns, keyValues) \<Rightarrow>
          execWithPoison env (DeleteSQL table keyColumns dataTypes)
            (keyValues @ [PText (CommitLSN (Source event))]) (describe_write ''delete'' event) c)"

definition applyMutation :: "dest_env \<Rightarrow> event \<Rightarrow> conn \<Rightarrow> goerr option \<times> conn" where
  "applyMutation env event c =
     (case verifyColumns event of
        Some e \<Rightarrow> (Some (permanent ''event %s: %v'' [ID event] (Some e)), c)
      | None \<Rightarrow>
     (let table = qualified_name (Schema event) (Table event) in
      case tableColumns env (Schema event) (Table event) c of
        (Inl e, c1) \<Rightarrow> (Some e, c1)
      | (Inr dataTypes, c1) \<Rightarrow>
          (case Operation event of
             OperationInsert \<Rightarrow> apply_upsert env table dataTypes event c1
           | OperationUpdate \<Rightarrow> apply_upsert env table dataTypes event c1
           | OperationDelete \<Rightarrow> apply_delete env table dataTypes event c1
           | _ \<Rightarrow> (None, c1))))"

definition ApplyInTx :: "dest_env \<Rightarrow> event \<Rightarrow> conn \<Rightarrow> (goerr + bool) \<times> conn" where
  "ApplyInTx env event c =
     (case Validate event of
        Some e \<Rightarrow> (Inl e, c)
      | None \<Rightarrow>
     (case verifyIdent (Schema event) of
        Some e \<Rightarrow> (Inl (permanent ''event %s: %v'' [ID event] (Some e)), c)
      | None \<Rightarrow>
     (case verifyIdent (Table event) of
        Some e \<Rightarrow> (Inl (permanent ''event %s: %v'' [ID event] (Some e)), c)
      | None \<Rightarrow>
          if Operation event = OperationTruncate then applyTruncateInTx env event c
          else
     (case markApplied env (ID event) (CommitLSN (Source event)) c of
        (Inl e, c1) \<Rightarrow> (Inl e, c1)
      | (Inr False, c1) \<Rightarrow> (Inr False, c1)
      | (Inr True, c1) \<Rightarrow>
          (case applyMutation env event c1 of
             (Some e, c2) \<Rightarrow> (Inl e, c2)
           | (None, c2) \<Rightarrow> (Inr True, c2))))))"

text \<open>The deferred Rollback runs on every path; after a Commit it finds the transaction closed.\<close>

definition Apply :: "dest_env \<Rightarrow> event \<Rightarrow> conn \<Rightarrow> (goerr + bool) \<times> conn" where
  "Apply env event c =
     (case Validate event of
        Some e \<Rightarrow> (Inl e, c)
      | None \<Rightarrow>
     (case begin_tx env c of
        (Some e, c1) \<Rightarrow> (Inl (Wrapf ''begin destination transaction: %w'' [] e), c1)
      | (None, c1) \<Rightarrow>
     (case ApplyInTx env event c1 of
        (Inl e, c2) \<Rightarrow> (Inl e, snd (rollback env c2))
      | (Inr applied, c2) \<Rightarrow>
     (case commit env c2 of
        (Some e, c3) \<Rightarrow> (Inl (Wrapf ''commit destination transaction: %w'' [] e), snd (rollback env c3))
      | (None, c3) \<Rightarrow> (Inr applied, snd (rollback env c3))))))"

section \<open>A batch\<close>

text \<open>The error of \<open>ApplyBatch\<close>: nil, a \<open>*BatchError\<close>, or another error.\<close>

datatype batch_result = BatchOk | BatchPoison nat event goerr | BatchFail goerr

fun validate_batch :: "nat \<Rightarrow> event list \<Rightarrow> batch_result" where
  "validate_batch i [] = BatchOk"
| "validate_batch i (event # events) =
     (case Validate event of
        Some e \<Rightarrow> BatchPoison i event e
      | None \<Rightarrow>
     (case verifyIdent (Schema event) of
        Some e \<Rightarrow> BatchPoison i event (permanent ''event %s: %v'' [ID event] (Some e))
      | None \<Rightarrow>
     (case verifyIdent (Table event) of
        Some e \<Rightarrow> BatchPoison i event (permanent ''event %s: %v'' [ID event] (Some e))
      | None \<Rightarrow> validate_batch (Suc i) events)))"

text \<open>The results of the marker batch, read in order: which markers are new.\<close>

fun run_markers :: "dest_env \<Rightarrow> nat \<Rightarrow> event list \<Rightarrow> conn \<Rightarrow> (batch_result + bool list) \<times> conn" where
  "run_markers env i [] c = (Inr [], c)"
| "run_markers env i (event # events) c =
     (case exec env MarkerSQL [PText (ID event), PText (CommitLSN (Source event))] c of
        (Inl e, c') \<Rightarrow> (Inl (BatchPoison i event (poisonOrWrap e (''record applied event '' @ ID event))), c')
      | (Inr res, c') \<Rightarrow>
          (case run_markers env (Suc i) events c' of
             (Inl r, c'') \<Rightarrow> (Inl r, c'')
           | (Inr fresh, c'') \<Rightarrow> (Inr ((res = Affected 1) # fresh), c'')))"

type_synonym queued_exec = "nat \<times> event \<times> sql_stmt \<times> param list"

fun run_queued :: "dest_env \<Rightarrow> queued_exec list \<Rightarrow> conn \<Rightarrow> batch_result \<times> conn" where
  "run_queued env [] c = (BatchOk, c)"
| "run_queued env ((i, event, stmt, ps) # queue) c =
     (case exec env stmt ps c of
        (Inl e, c') \<Rightarrow>
          (BatchPoison i event (poisonOrWrap e
             (''mutation for event '' @ ID event @ '' on '' @ Schema event @ ''.'' @ Table event)), c')
      | (Inr _, c') \<Rightarrow> run_queued env queue c')"

definition close_batch :: "dest_env \<Rightarrow> string \<Rightarrow> conn \<Rightarrow> batch_result \<times> conn" where
  "close_batch env message c =
     (case close_fault env (tick c) of
        Some e \<Rightarrow> (BatchFail (Wrapf message [] e), c\<lparr>tick := Suc (tick c)\<rparr>)
      | None \<Rightarrow> (BatchOk, c\<lparr>tick := Suc (tick c)\<rparr>))"

definition flush :: "dest_env \<Rightarrow> queued_exec list \<Rightarrow> conn \<Rightarrow> batch_result \<times> conn" where
  "flush env queue c =
     (if queue = [] then (BatchOk, c)
      else (case run_queued env queue c of
              (BatchOk, c') \<Rightarrow> close_batch env ''flush mutation batch: %w'' c'
            | r \<Rightarrow> r))"

definition applyTruncateBatched :: "dest_env \<Rightarrow> event \<Rightarrow> conn \<Rightarrow> goerr option \<times> conn" where
  "applyTruncateBatched env event c =
     (case parse_lsn env (CommitLSN (Source event)) of
        None \<Rightarrow> (Some (permanent ''event %s: invalid commit LSN %q'' [ID event, CommitLSN (Source event)] None), c)
      | Some eventLSN \<Rightarrow>
     (let table = qualified_name (Schema event) (Table event) in
      case tableWatermark env table c of
        (Inl e, c1) \<Rightarrow> (Some e, c1)
      | (Inr watermark, c1) \<Rightarrow>
          if truncateIsStale eventLSN watermark then (None, c1)
          else
     (case exec_err env (TruncateSQL table) [] c1 of
        (Some e, c2) \<Rightarrow> (Some (poisonOrWrap e (''truncate '' @ table)), c2)
      | (None, c2) \<Rightarrow>
     (case exec_err env WatermarkUpsertSQL [PText table, PText (CommitLSN (Source event))] c2 of
        (Some e, c3) \<Rightarrow> (Some (poisonOrWrap e (''advance truncate watermark for '' @ table)), c3)
      | (None, c3) \<Rightarrow> (None, c3)))))"

text \<open>What the loop of \<open>ApplyBatch\<close> does with a delete or a write before it queues or runs it.\<close>

datatype prepared =
    Refuse goerr
  | Queue sql_stmt "param list"
  | Preserve "string list" "string list" "string \<rightharpoonup> string" "param list" "param list"

definition batch_delete :: "dest_env \<Rightarrow> event \<Rightarrow> conn \<Rightarrow> prepared \<times> conn" where
  "batch_delete env event c =
     (case verifyColumns event of
        Some e \<Rightarrow> (Refuse (permanent ''event %s: %v'' [ID event] (Some e)), c)
      | None \<Rightarrow>
     (let table = qualified_name (Schema event) (Table event) in
      case tableColumns env (Schema event) (Table event) c of
        (Inl e, c1) \<Rightarrow> (Refuse e, c1)
      | (Inr dataTypes, c1) \<Rightarrow>
     (case transcodeRow (Key event) of
        Inl e \<Rightarrow> (Refuse (permanent ''event %s: %v'' [ID event] (Some e)), c1)
      | Inr (keyColumns, keyValues) \<Rightarrow>
          (Queue (DeleteSQL table keyColumns dataTypes) (keyValues @ [PText (CommitLSN (Source event))]), c1))))"

definition batch_upsert :: "dest_env \<Rightarrow> event \<Rightarrow> conn \<Rightarrow> prepared \<times> conn" where
  "batch_upsert env event c =
     (case verifyColumns event of
        Some e \<Rightarrow> (Refuse (permanent ''event %s: %v'' [ID event] (Some e)), c)
      | None \<Rightarrow>
     (let table = qualified_name (Schema event) (Table event) in
      case tableColumns env (Schema event) (Table event) c of
        (Inl e, c1) \<Rightarrow> (Refuse e, c1)
      | (Inr dataTypes, c1) \<Rightarrow>
     (case transcodeRow (After event) of
        Inl e \<Rightarrow> (Refuse (permanent ''event %s: %v'' [ID event] (Some e)), c1)
      | Inr (columns, vals) \<Rightarrow>
     (case transcodeRow (Key event) of
        Inl e \<Rightarrow> (Refuse (permanent ''event %s: %v'' [ID event] (Some e)), c1)
      | Inr (keyColumns, keyValues) \<Rightarrow>
     (case key_absent columns keyColumns of
        Some column \<Rightarrow>
          (Refuse (permanent ''event %s: primary-key column %q is absent from the change row'' [ID event, column] None), c1)
      | None \<Rightarrow>
     (case key_unchanged (UnchangedColumns event) keyColumns of
        Some column \<Rightarrow>
          (Refuse (permanent ''event %s: primary-key column %q is marked unchanged'' [ID event, column] None), c1)
      | None \<Rightarrow>
          (let parameters = appendNumbered vals (CommitLSN (Source event)) (CommitTime (Source event))
           in if UnchangedColumns event \<noteq> []
              then (Preserve columns keyColumns dataTypes parameters keyValues, c1)
              else (Queue (UpsertSQL table columns keyColumns dataTypes) parameters, c1))))))))"

text \<open>The second phase: the fresh events in order, with the queue of statements not sent yet.\<close>

fun batch_mutations ::
  "dest_env \<Rightarrow> nat \<Rightarrow> (event \<times> bool) list \<Rightarrow> queued_exec list \<Rightarrow> conn \<Rightarrow> batch_result \<times> conn" where
  "batch_mutations env i [] queue c = flush env queue c"
| "batch_mutations env i ((event, fresh) # rest) queue c =
     (if \<not> fresh then batch_mutations env (Suc i) rest queue c
      else
     (case Operation event of
        OperationTruncate \<Rightarrow>
          (case flush env queue c of
             (BatchOk, c1) \<Rightarrow>
               (case applyTruncateBatched env event c1 of
                  (Some e, c2) \<Rightarrow> (BatchPoison i event e, c2)
                | (None, c2) \<Rightarrow> batch_mutations env (Suc i) rest [] c2)
           | r \<Rightarrow> r)
      | OtherOp _ \<Rightarrow> batch_mutations env (Suc i) rest queue c
      | op \<Rightarrow>
          (case (if op = OperationDelete then batch_delete env event c else batch_upsert env event c) of
             (Refuse e, c1) \<Rightarrow> (BatchPoison i event e, c1)
           | (Queue stmt ps, c1) \<Rightarrow> batch_mutations env (Suc i) rest (queue @ [(i, event, stmt, ps)]) c1
           | (Preserve columns keyColumns dataTypes parameters keyValues, c1) \<Rightarrow>
               (case flush env queue c1 of
                  (BatchOk, c2) \<Rightarrow>
                    (case applyUpdatePreserving env (qualified_name (Schema event) (Table event)) columns keyColumns
                            dataTypes parameters keyValues (describe_write ''upsert'' event) c2 of
                       (Some e, c3) \<Rightarrow> (BatchPoison i event e, c3)
                     | (None, c3) \<Rightarrow> batch_mutations env (Suc i) rest [] c3)
                | r \<Rightarrow> r))))"

definition ApplyBatch :: "dest_env \<Rightarrow> event list \<Rightarrow> conn \<Rightarrow> batch_result \<times> conn" where
  "ApplyBatch env events c =
     (if events = [] then (BatchOk, c)
      else
     (case validate_batch 0 events of
        BatchOk \<Rightarrow>
          (case run_markers env 0 events c of
             (Inl r, c1) \<Rightarrow> (r, c1)
           | (Inr fresh, c1) \<Rightarrow>
               (case close_batch env ''flush marker batch: %w'' c1 of
                  (BatchOk, c2) \<Rightarrow> batch_mutations env 0 (zip events fresh) [] c2
                | r \<Rightarrow> r))
      | r \<Rightarrow> (r, c)))"

section \<open>Snapshot rows\<close>

definition UpsertSnapshotRow ::
  "dest_env \<Rightarrow> string \<Rightarrow> string \<Rightarrow> row \<Rightarrow> row \<Rightarrow> string \<Rightarrow> int \<Rightarrow> conn \<Rightarrow> goerr option \<times> conn" where
  "UpsertSnapshotRow env schema table after key snapshotLSN commitTime c =
     (case verifyIdent schema of
        Some e \<Rightarrow> (Some (permanent ''snapshot row %s.%s: %v'' [schema, table] (Some e)), c)
      | None \<Rightarrow>
     (case verifyIdent table of
        Some e \<Rightarrow> (Some (permanent ''snapshot row %s.%s: %v'' [schema, table] (Some e)), c)
      | None \<Rightarrow>
     (case transcodeRow after of
        Inl e \<Rightarrow> (Some (permanent ''snapshot row %s.%s: %v'' [schema, table] (Some e)), c)
      | Inr (columns, vals) \<Rightarrow>
     (case transcodeRow key of
        Inl e \<Rightarrow> (Some (permanent ''snapshot row %s.%s: %v'' [schema, table] (Some e)), c)
      | Inr (keyColumns, _) \<Rightarrow>
     (case key_absent columns keyColumns of
        Some column \<Rightarrow>
          (Some (permanent ''snapshot row %s.%s: primary-key column %q is absent from the row'' [schema, table, column] None), c)
      | None \<Rightarrow>
     (case tableColumns env schema table c of
        (Inl e, c1) \<Rightarrow> (Some e, c1)
      | (Inr dataTypes, c1) \<Rightarrow>
          execWithPoison env (UpsertSQL (qualified_name schema table) columns keyColumns dataTypes)
            (appendNumbered vals snapshotLSN commitTime)
            (''snapshot upsert on '' @ schema @ ''.'' @ table) c1))))))"

section \<open>Quarantine\<close>

text \<open>\<open>json.Marshal\<close> of a row and of the unchanged columns, as the JSONB column they land in.\<close>

definition json_of_row :: "row \<Rightarrow> json_col" where
  "json_of_row r = (if r = [] then JsonNull else JsonRow r)"

definition json_of_strings :: "string list \<Rightarrow> json_col" where
  "json_of_strings l = (if l = [] then JsonNull else JsonStrings l)"

definition dead_letter_values :: "event \<Rightarrow> goerr \<Rightarrow> param list" where
  "dead_letter_values event reason =
     [PText (ID event), PText (Schema event), PText (Table event), PText (op_string (Operation event)),
      PText (CommitLSN (Source event)), PTime (CommitTime (Source event)),
      PJson (json_of_row (Key event)), PJson (json_of_row (Before event)), PJson (json_of_row (After event)),
      PJson (json_of_strings (UnchangedColumns event)), PReason reason]"

definition RecordDeadLetter :: "dest_env \<Rightarrow> event \<Rightarrow> goerr \<Rightarrow> conn \<Rightarrow> goerr option \<times> conn" where
  "RecordDeadLetter env event reason c =
     (case begin_tx env c of
        (Some e, c1) \<Rightarrow> (Some (Wrapf ''begin dead-letter transaction: %w'' [] e), c1)
      | (None, c1) \<Rightarrow>
     (case markApplied env (ID event) (CommitLSN (Source event)) c1 of
        (Inl e, c2) \<Rightarrow> (Some e, snd (rollback env c2))
      | (Inr _, c2) \<Rightarrow>
     (case exec_err env DeadLetterInsertSQL (dead_letter_values event reason) c2 of
        (Some e, c3) \<Rightarrow> (Some (Wrapf ''insert dead-letter record: %w'' [] e), snd (rollback env c3))
      | (None, c3) \<Rightarrow>
     (case commit env c3 of
        (Some e, c4) \<Rightarrow> (Some (Wrapf ''commit dead-letter transaction: %w'' [] e), snd (rollback env c4))
      | (None, c4) \<Rightarrow> (None, snd (rollback env c4))))))"

end
