(* ===== verification/Schema_Repair.thy ===== *)
theory Schema_Repair
  imports Applier
begin

text \<open>
  The schema repair of \<open>internal/destination/applier.go\<close>: adding to the destination the columns
  an event needs, with the definitions the source catalog gives. The source database answers the
  catalog queries; its answers are the record \<open>source_catalog\<close>.
\<close>

section \<open>The source catalog\<close>

text \<open>
  One row of the column query: type (NULL or text), nullability, default expression, and kind,
  schema and name of the type. \<open>src_column\<close> answers it for a qualified table and a column:
  an error, no row, or the row; \<open>src_type\<close> gives the rows (kind, label) of the enum query.
\<close>

record column_defn =
  cd_type :: "string option"
  cd_nullable :: bool
  cd_default :: "string option"
  cd_kind :: string
  cd_schema :: string
  cd_name :: string

record source_catalog =
  src_connect :: "goerr option"
  src_column :: "string \<Rightarrow> string \<Rightarrow> goerr + column_defn option"
  src_type :: "string \<Rightarrow> string \<Rightarrow> goerr + (string \<times> string option) list"

section \<open>Enum types\<close>

text \<open>The loop over the rows keeps the last kind and collects the labels that are not NULL.\<close>

fun enum_rows :: "(string \<times> string option) list \<Rightarrow> string list \<times> string \<Rightarrow> string list \<times> string" where
  "enum_rows [] acc = acc"
| "enum_rows ((kind, label) # rows) (labels, _) =
     enum_rows rows (case label of None \<Rightarrow> labels | Some l \<Rightarrow> labels @ [l], kind)"

definition sourceEnumDefn :: "source_catalog \<Rightarrow> string \<Rightarrow> string \<Rightarrow> goerr + string list \<times> string" where
  "sourceEnumDefn src schema name =
     (case src_type src schema name of
        Inl e \<Rightarrow> Inl (Wrapf ''read source type %s.%s: %w'' [schema, name] e)
      | Inr rows \<Rightarrow>
          if rows = [] then Inl (Errorf ''source type %s.%s does not exist'' [schema, name])
          else Inr (enum_rows rows ([], [])))"

definition ensureDestinationType ::
  "dest_env \<Rightarrow> source_catalog \<Rightarrow> string \<Rightarrow> string \<Rightarrow> conn \<Rightarrow> goerr option \<times> conn" where
  "ensureDestinationType env src schema name c =
     (if schema = [] \<or> name = [] then (None, c)
      else
     (case query_row env TypeExistsSQL [PText schema, PText name] c of
        (Inl e, c1) \<Rightarrow> (Some (Wrapf ''check destination type %s.%s: %w'' [schema, name] e), c1)
      | (Inr r, c1) \<Rightarrow>
          if r = [Some ''t''] then (None, c1)
          else
     (case sourceEnumDefn src schema name of
        Inl e \<Rightarrow> (Some e, c1)
      | Inr (labels, kind) \<Rightarrow>
          if kind \<noteq> ''e''
          then (Some (Errorf ''source type %s.%s is a %s, not an enum; auto-creating it is not supported''
                        [schema, name, kind]), c1)
          else
     (case exec_err env (CreateTypeSQL schema name labels) [] c1 of
        (Some e, c2) \<Rightarrow> (Some (Wrapf ''auto-create destination enum type %s.%s: %w'' [schema, name] e), c2)
      | (None, c2) \<Rightarrow> (None, c2)))))"

section \<open>Missing columns\<close>

text \<open>The columns of \<open>After\<close> and then of \<open>Key\<close> that the type map does not have, sorted.\<close>

definition missing_columns :: "(string \<rightharpoonup> string) \<Rightarrow> event \<Rightarrow> string list" where
  "missing_columns dataTypes event =
     sort (filter (\<lambda>column. dataTypes column = None) (row_cols (After event))
           @ filter (\<lambda>column. dataTypes column = None) (row_cols (Key event)))"

fun repair_columns ::
  "dest_env \<Rightarrow> source_catalog \<Rightarrow> event \<Rightarrow> nat \<Rightarrow> string list \<Rightarrow> conn \<Rightarrow> (goerr + nat) \<times> conn" where
  "repair_columns env src event added [] c = (Inr added, c)"
| "repair_columns env src event added (column # columns) c =
     (let table = qualified_name (Schema event) (Table event) in
      case src_column src table column of
        Inl e \<Rightarrow> (Inl (Wrapf ''read source definition of column %q: %w'' [column] e), c)
      | Inr None \<Rightarrow>
          (Inl (Errorf ''column %q is also missing on the source %s.%s; it cannot be auto-added, align the schemas manually''
                  [column, Schema event, Table event]), c)
      | Inr (Some defn) \<Rightarrow>
          (case cd_type defn of
             None \<Rightarrow> (Inl (Errorf ''column %q on the source %s.%s has no type'' [column, Schema event, Table event]), c)
           | Some dataType \<Rightarrow>
          (case (if cd_kind defn = ''e'' then ensureDestinationType env src (cd_schema defn) (cd_name defn) c
                 else (None, c)) of
             (Some e, c1) \<Rightarrow> (Inl (Wrapf ''column %q on %s.%s: %w'' [column, Schema event, Table event] e), c1)
           | (None, c1) \<Rightarrow>
          (case exec_err env (AddColumnSQL table column dataType (cd_nullable defn) (cd_default defn)) [] c1 of
             (Some e, c2) \<Rightarrow>
               (Inl (Wrapf ''auto-apply column %q on the destination %s.%s: %w'' [column, Schema event, Table event] e), c2)
           | (None, c2) \<Rightarrow> repair_columns env src event (Suc added) columns c2))))"

definition RepairSchema :: "dest_env \<Rightarrow> source_catalog \<Rightarrow> event \<Rightarrow> conn \<Rightarrow> (goerr + bool) \<times> conn" where
  "RepairSchema env src event c =
     (case tableColumns env (Schema event) (Table event) c of
        (Inl e, c1) \<Rightarrow> (Inl e, c1)
      | (Inr dataTypes, c1) \<Rightarrow>
          (let missing = missing_columns dataTypes event in
           if missing = [] then (Inr False, c1)
           else
          (case src_connect src of
             Some e \<Rightarrow> (Inl (Wrapf ''connect to source for schema repair: %w'' [] e), c1)
           | None \<Rightarrow>
          (case repair_columns env src event 0 missing c1 of
             (Inl e, c2) \<Rightarrow> (Inl e, c2)
           | (Inr added, c2) \<Rightarrow> (Inr (added > 0), invalidateColumns (Schema event) (Table event) c2)))))"

end
