(* ===== verification/Snapshot.thy ===== *)
theory Snapshot
  imports Applier
begin

text \<open>
  \<open>internal/destination/snapshot.go\<close>: the initial copy of the published tables. The source
  database answers queries inside one REPEATABLE READ transaction, so its answers do not depend on
  when they are asked: they are the record \<open>snapshot_source\<close>. The answer to the polling query of
  \<open>WaitForSlot\<close> depends on the attempt.
\<close>

text \<open>
  A scanned column value: nil, a string, a pointer to one, or another value with its printed form.
\<close>

datatype scanned = NilValue | TextValue string | StringPointer "string option" | OtherValue string

text \<open>
  \<open>ss_rows\<close> answers \<open>SELECT columns::text FROM table\<close>: for each row the error of \<open>rows.Values\<close> or
  the values, and the error that ended the rows, if any. \<open>ss_present\<close> lists which of the given
  columns a table has.
\<close>

record snapshot_source =
  ss_connect :: "goerr option"
  ss_slot_exists :: "goerr + bool"
  ss_slot_ready :: "nat \<Rightarrow> goerr + string option"
  ss_wait :: "nat \<Rightarrow> goerr option"
  ss_restart_lsn :: "goerr + string"
  ss_tables :: "goerr + (string \<times> string) list"
  ss_begin :: "goerr option"
  ss_now :: "goerr + int"
  ss_present :: "string \<Rightarrow> string list \<Rightarrow> goerr + string list"
  ss_rows :: "string \<Rightarrow> string list \<Rightarrow> goerr + (goerr + scanned list) list \<times> goerr option"
  ss_commit :: "goerr option"

record snapshotter =
  snap_slot :: string
  snap_publication :: string

definition snapshotStateKey :: string where
  "snapshotStateKey = ''snapshot_done''"

section \<open>State\<close>

text \<open>\<open>strings.EqualFold\<close> on ASCII text.\<close>

definition EqualFold :: "string \<Rightarrow> string \<Rightarrow> bool" where
  "EqualFold s t \<longleftrightarrow> map to_lower s = map to_lower t"

definition Completed :: "dest_env \<Rightarrow> conn \<Rightarrow> (goerr + bool) \<times> conn" where
  "Completed env c =
     (case query_row env StateSelectSQL [PText snapshotStateKey] c of
        (Inl e, c1) \<Rightarrow> if errors_is e ErrNoRows then (Inr False, c1) else (Inl (Wrapf ''read snapshot state: %w'' [] e), c1)
      | (Inr r, c1) \<Rightarrow> (Inr (EqualFold (case r of Some v # _ \<Rightarrow> v | _ \<Rightarrow> []) ''done''), c1))"

definition MarkCompleted :: "dest_env \<Rightarrow> conn \<Rightarrow> goerr option \<times> conn" where
  "MarkCompleted env c =
     (case exec_err env StateUpsertSQL [PText snapshotStateKey] c of
        (Some e, c1) \<Rightarrow> (Some (Wrapf ''mark snapshot complete: %w'' [] e), c1)
      | (None, c1) \<Rightarrow> (None, c1))"

definition VerifyNotCorrupt :: "dest_env \<Rightarrow> snapshot_source \<Rightarrow> snapshotter \<Rightarrow> conn \<Rightarrow> goerr option \<times> conn" where
  "VerifyNotCorrupt env src s c =
     (case Completed env c of
        (Inl e, c1) \<Rightarrow> (Some e, c1)
      | (Inr False, c1) \<Rightarrow> (None, c1)
      | (Inr True, c1) \<Rightarrow>
          (case ss_connect src of
             Some e \<Rightarrow> (Some (Wrapf ''connect to source for corruption check: %w'' [] e), c1)
           | None \<Rightarrow>
          (case ss_slot_exists src of
             Inl e \<Rightarrow> (Some (Wrapf ''check replication slot %q: %w'' [snap_slot s] e), c1)
           | Inr False \<Rightarrow>
               (Some (Errorf (''corrupted state: snapshot is marked done but replication slot %q is missing on the source; ''
                        @ ''restore the slot or reset the pipeline'') [snap_slot s]), c1)
           | Inr True \<Rightarrow> (None, c1))))"

text \<open>
  The polling loop of \<open>WaitForSlot\<close>: the deadline is 60 seconds away and each round that does
  not return waits two seconds, so \<open>polls\<close> rounds pass before the deadline.
\<close>

fun wait_for_slot :: "snapshot_source \<Rightarrow> snapshotter \<Rightarrow> nat \<Rightarrow> nat \<Rightarrow> goerr option" where
  "wait_for_slot src s 0 k = Some (Errorf ''replication slot %q was not created within %s'' [snap_slot s, ''timeout''])"
| "wait_for_slot src s (Suc polls) k =
     (case ss_slot_ready src k of
        Inr (Some restartLSN) \<Rightarrow> None
      | Inl e \<Rightarrow> Some (Wrapf ''wait for replication slot %q: %w'' [snap_slot s] e)
      | Inr None \<Rightarrow>
          (case ss_wait src k of Some ctx_err \<Rightarrow> Some ctx_err | None \<Rightarrow> wait_for_slot src s polls (Suc k)))"

definition WaitForSlot :: "snapshot_source \<Rightarrow> snapshotter \<Rightarrow> nat \<Rightarrow> goerr option" where
  "WaitForSlot src s polls =
     (case ss_connect src of
        Some e \<Rightarrow> Some (Wrapf ''connect to source while waiting for replication slot: %w'' [] e)
      | None \<Rightarrow> wait_for_slot src s polls 0)"

section \<open>Copying a table\<close>

fun first_cells :: "pgvalue list list \<Rightarrow> string list" where
  "first_cells [] = []"
| "first_cells (r # rs) = (case r of Some v # _ \<Rightarrow> v # first_cells rs | _ \<Rightarrow> first_cells rs)"

definition text_rows :: "sql_result \<Rightarrow> pgvalue list list" where
  "text_rows r = (case r of TextRows rs \<Rightarrow> rs | _ \<Rightarrow> [])"

definition listTableColumns :: "dest_env \<Rightarrow> string \<Rightarrow> conn \<Rightarrow> (goerr + string list) \<times> conn" where
  "listTableColumns env qualifiedTable c =
     (case exec env ColumnNamesSQL [PText qualifiedTable] c of
        (Inl e, c1) \<Rightarrow> (Inl (Wrapf ''list columns of destination %s: %w'' [qualifiedTable] e), c1)
      | (Inr r, c1) \<Rightarrow> (Inr (first_cells (text_rows r)), c1))"

definition destinationPrimaryKey :: "dest_env \<Rightarrow> string \<Rightarrow> conn \<Rightarrow> (goerr + string list) \<times> conn" where
  "destinationPrimaryKey env qualifiedTable c =
     (case exec env PrimaryKeySQL [PText qualifiedTable] c of
        (Inl e, c1) \<Rightarrow> (Inl (Wrapf ''read primary key of destination %s: %w'' [qualifiedTable] e), c1)
      | (Inr r, c1) \<Rightarrow>
          (let columns = first_cells (text_rows r) in
           if columns = []
           then (Inl (Errorf ''destination table %s has no primary key; add one or drop the table before snapshotting''
                        [qualifiedTable]), c1)
           else (Inr columns, c1)))"

fun verifyRowAgainstPrimaryKey :: "row \<Rightarrow> string list \<Rightarrow> goerr option" where
  "verifyRowAgainstPrimaryKey row [] = None"
| "verifyRowAgainstPrimaryKey row (column # primaryKey) =
     (case row_get row column of
        Some (Some v) \<Rightarrow> verifyRowAgainstPrimaryKey row primaryKey
      | _ \<Rightarrow> Some (Errorf ''primary-key column %q is missing or NULL'' [column]))"

definition select_text :: "string \<Rightarrow> string \<Rightarrow> string list \<Rightarrow> string" where
  "select_text schema table columns =
     ''SELECT '' @ join_from 0 '', '' (\<lambda>index column. quoteIdent column @ ''::text'') columns
     @ '' FROM '' @ quoteIdent schema @ ''.'' @ quoteIdent table"

fun textPointer :: "scanned \<Rightarrow> pgvalue" where
  "textPointer NilValue = None"
| "textPointer (StringPointer p) = p"
| "textPointer (TextValue t) = Some t"
| "textPointer (OtherValue t) = Some t"

text \<open>The row pairs columns and values in order.\<close>

definition snapshot_row :: "string list \<Rightarrow> scanned list \<Rightarrow> row" where
  "snapshot_row columns vals = row_of (zip columns (map textPointer vals))"

definition sourceColumnsPresent :: "snapshot_source \<Rightarrow> string \<Rightarrow> string \<Rightarrow> string list \<Rightarrow> goerr + string set" where
  "sourceColumnsPresent src schema table columns =
     (case ss_present src (qualified_name schema table) columns of
        Inl e \<Rightarrow> Inl (Wrapf ''list source columns of %s.%s: %w'' [schema, table] e)
      | Inr present \<Rightarrow> Inr (set present))"

definition snapshot_key :: "row \<Rightarrow> string list \<Rightarrow> row" where
  "snapshot_key row primaryKey = row_of (map (\<lambda>column. (column, row_value row column)) primaryKey)"

fun copy_rows ::
  "dest_env \<Rightarrow> string \<Rightarrow> string \<Rightarrow> string list \<Rightarrow> string list \<Rightarrow> string \<Rightarrow> int
     \<Rightarrow> (goerr + scanned list) list \<Rightarrow> nat \<Rightarrow> conn \<Rightarrow> goerr option \<times> nat \<times> conn" where
  "copy_rows env schema table columns primaryKey restartLSN t [] count c = (None, count, c)"
| "copy_rows env schema table columns primaryKey restartLSN t (Inl e # rows) count c =
     (Some (Wrapf ''scan snapshot row from %s.%s: %w'' [schema, table] e), count, c)"
| "copy_rows env schema table columns primaryKey restartLSN t (Inr vals # rows) count c =
     (let row = snapshot_row columns vals in
      case verifyRowAgainstPrimaryKey row primaryKey of
        Some e \<Rightarrow> (Some (Wrapf ''snapshot row from %s.%s: %w'' [schema, table] e), count, c)
      | None \<Rightarrow>
     (case UpsertSnapshotRow env schema table row (snapshot_key row primaryKey) restartLSN t c of
        (Some e, c1) \<Rightarrow> (Some e, count, c1)
      | (None, c1) \<Rightarrow> copy_rows env schema table columns primaryKey restartLSN t rows (Suc count) c1))"

definition copyTable ::
  "dest_env \<Rightarrow> snapshot_source \<Rightarrow> string \<Rightarrow> string \<Rightarrow> string list \<Rightarrow> string \<Rightarrow> int \<Rightarrow> conn
     \<Rightarrow> goerr option \<times> nat \<times> conn" where
  "copyTable env src schema table primaryKey restartLSN t c =
     (case listTableColumns env (schema @ ''.'' @ table) c of
        (Inl e, c1) \<Rightarrow> (Some e, 0, c1)
      | (Inr dstColumns, c1) \<Rightarrow>
     (case sourceColumnsPresent src schema table dstColumns of
        Inl e \<Rightarrow> (Some e, 0, c1)
      | Inr present \<Rightarrow>
     (let columns = filter (\<lambda>column. column \<in> present) dstColumns in
      case key_absent columns primaryKey of
        Some column \<Rightarrow>
          (Some (Errorf ''destination primary-key column %q of %s.%s is missing on the source; align the schemas before snapshotting''
                   [column, schema, table]), 0, c1)
      | None \<Rightarrow>
     (case ss_rows src (qualified_name schema table) columns of
        Inl e \<Rightarrow> (Some (Wrapf ''select snapshot rows from %s.%s: %w'' [schema, table] e), 0, c1)
      | Inr (rows, rows_err) \<Rightarrow>
     (case copy_rows env schema table columns primaryKey restartLSN t rows 0 c1 of
        (Some e, count, c2) \<Rightarrow> (Some e, count, c2)
      | (None, count, c2) \<Rightarrow>
          (case rows_err of
             Some e \<Rightarrow> (Some (Wrapf ''iterate snapshot rows from %s.%s: %w'' [schema, table] e), count, c2)
           | None \<Rightarrow> (None, count, c2)))))))"

section \<open>The whole snapshot\<close>

definition publishedTables :: "snapshot_source \<Rightarrow> snapshotter \<Rightarrow> goerr + (string \<times> string) list" where
  "publishedTables src s =
     (case ss_tables src of
        Inl e \<Rightarrow> Inl (Wrapf ''list tables of publication %q: %w'' [snap_publication s] e)
      | Inr published \<Rightarrow> Inr published)"

fun copy_tables ::
  "dest_env \<Rightarrow> snapshot_source \<Rightarrow> string \<Rightarrow> int \<Rightarrow> (string \<times> string) list \<Rightarrow> nat \<Rightarrow> conn \<Rightarrow> goerr option \<times> nat \<times> conn" where
  "copy_tables env src restartLSN t [] loaded c = (None, loaded, c)"
| "copy_tables env src restartLSN t ((schema, table) # rest) loaded c =
     (case destinationPrimaryKey env (schema @ ''.'' @ table) c of
        (Inl e, c1) \<Rightarrow> (Some e, loaded, c1)
      | (Inr primaryKey, c1) \<Rightarrow>
     (case copyTable env src schema table primaryKey restartLSN t c1 of
        (Some e, _, c2) \<Rightarrow> (Some e, loaded, c2)
      | (None, tableCount, c2) \<Rightarrow> copy_tables env src restartLSN t rest (loaded + tableCount) c2))"

text \<open>The deferred rollbacks run on every path after the transactions have begun.\<close>

definition RunSnapshot :: "dest_env \<Rightarrow> snapshot_source \<Rightarrow> snapshotter \<Rightarrow> conn \<Rightarrow> goerr option \<times> conn" where
  "RunSnapshot env src s c =
     (case ss_connect src of
        Some e \<Rightarrow> (Some (Wrapf ''connect to source for snapshot: %w'' [] e), c)
      | None \<Rightarrow>
     (case ss_restart_lsn src of
        Inl e \<Rightarrow> (Some (Wrapf ''read replication slot %q consistent point: %w'' [snap_slot s] e), c)
      | Inr restartLSN \<Rightarrow>
     (case publishedTables src s of
        Inl e \<Rightarrow> (Some e, c)
      | Inr published \<Rightarrow>
          if published = [] then (Some (Errorf ''publication %q publishes no tables'' [snap_publication s]), c)
          else
     (case ss_begin src of
        Some e \<Rightarrow> (Some (Wrapf ''begin source snapshot transaction: %w'' [] e), c)
      | None \<Rightarrow>
     (case ss_now src of
        Inl e \<Rightarrow> (Some (Wrapf ''read snapshot commit time: %w'' [] e), c)
      | Inr t \<Rightarrow>
     (case begin_tx env c of
        (Some e, c1) \<Rightarrow> (Some (Wrapf ''begin destination snapshot transaction: %w'' [] e), c1)
      | (None, c1) \<Rightarrow>
     (case copy_tables env src restartLSN t published 0 c1 of
        (Some e, _, c2) \<Rightarrow> (Some e, snd (rollback env c2))
      | (None, loaded, c2) \<Rightarrow>
     (case commit env c2 of
        (Some e, c3) \<Rightarrow> (Some (Wrapf ''commit destination snapshot transaction: %w'' [] e), snd (rollback env c3))
      | (None, c3) \<Rightarrow>
          (case ss_commit src of
             Some e \<Rightarrow> (Some (Wrapf ''commit source snapshot transaction: %w'' [] e), snd (rollback env c3))
           | None \<Rightarrow> (None, snd (rollback env c3)))))))))))"

text \<open>
  \<open>bootSnapshot\<close> of \<open>cmd/destination-writer/main.go\<close>: nothing is consumed from Kafka before the
  destination is seeded.
\<close>

definition bootSnapshot ::
  "dest_env \<Rightarrow> snapshot_source \<Rightarrow> snapshotter \<Rightarrow> nat \<Rightarrow> conn \<Rightarrow> goerr option \<times> conn" where
  "bootSnapshot env src s polls c =
     (case Completed env c of
        (Inl e, c1) \<Rightarrow> (Some e, c1)
      | (Inr True, c1) \<Rightarrow> VerifyNotCorrupt env src s c1
      | (Inr False, c1) \<Rightarrow>
     (case WaitForSlot src s polls of
        Some e \<Rightarrow> (Some e, c1)
      | None \<Rightarrow>
     (case RunSnapshot env src s c1 of
        (Some e, c2) \<Rightarrow> (Some e, c2)
      | (None, c2) \<Rightarrow>
     (case MarkCompleted env c2 of
        (Some e, c3) \<Rightarrow> (Some e, c3)
      | (None, c3) \<Rightarrow> VerifyNotCorrupt env src s c3))))"

end
