(* ===== verification/Metrics.thy ===== *)
theory Metrics
  imports Errclass
begin

text \<open>
  \<open>internal/metrics\<close>: the collectors both programs write and the endpoints that read them. A
  gauge in seconds is kept in nanoseconds, the resolution of the durations it is computed from
  (the float rounding of Prometheus is not modelled), a histogram as the list of its observations.
  The registry is the list of registered names; the routes of the HTTP server are a function of the
  path and the state, the server that \<open>StartServer\<close> runs is not modelled.
\<close>

record metrics =
  MessagesProcessed :: "string \<Rightarrow> nat"
  MessagesPublished :: nat
  TransactionsAcked :: nat
  Errors :: "string \<Rightarrow> nat"
  DeadLetters :: nat
  LagSeconds :: int
  RetentionHeadroomSeconds :: int
  PendingEvents :: int
  GroupAgeSeconds :: int
  BatchDurations :: "int list"
  BatchSizes :: "nat list"
  Ready :: int
  ready :: bool

definition initial_metrics :: metrics where
  "initial_metrics = \<lparr>MessagesProcessed = (\<lambda>_. 0), MessagesPublished = 0, TransactionsAcked = 0, Errors = (\<lambda>_. 0),
     DeadLetters = 0, LagSeconds = 0, RetentionHeadroomSeconds = 0, PendingEvents = 0, GroupAgeSeconds = 0,
     BatchDurations = [], BatchSizes = [], Ready = 0, ready = False\<rparr>"

definition SetReady :: "bool \<Rightarrow> metrics \<Rightarrow> metrics" where
  "SetReady isReady m = m\<lparr>ready := isReady, Ready := (if isReady then 1 else 0)\<rparr>"

definition IsReady :: "metrics \<Rightarrow> bool" where
  "IsReady m = ready m"

definition SetLag :: "int \<Rightarrow> int \<Rightarrow> metrics \<Rightarrow> metrics" where
  "SetLag lagSeconds retentionSeconds m =
     m\<lparr>LagSeconds := lagSeconds, RetentionHeadroomSeconds := retentionSeconds - lagSeconds\<rparr>"

definition inc_error :: "string \<Rightarrow> metrics \<Rightarrow> metrics" where
  "inc_error kind m = m\<lparr>Errors := (Errors m)(kind := Suc (Errors m kind))\<rparr>"

definition inc_processed :: "string \<Rightarrow> metrics \<Rightarrow> metrics" where
  "inc_processed op m = m\<lparr>MessagesProcessed := (MessagesProcessed m)(op := Suc (MessagesProcessed m op))\<rparr>"

section \<open>The registry\<close>

text \<open>The collectors that \<open>init\<close> registers, with the names of their labels.\<close>

definition collectors :: "(string \<times> string list) list" where
  "collectors =
     [(''cdc_messages_processed_total'', [''operation'']), (''cdc_messages_published_total'', []),
      (''cdc_transactions_acked_total'', []), (''cdc_errors_total'', [''kind'']), (''cdc_dead_letters_total'', []),
      (''cdc_lag_seconds'', []), (''cdc_retention_headroom_seconds'', []), (''cdc_pending_events'', []),
      (''cdc_group_age_seconds'', []), (''cdc_batch_duration_seconds'', []), (''cdc_batch_size'', []), (''cdc_ready'', [])]"

text \<open>\<open>Registry.MustRegister\<close> panics at a name that is there already.\<close>

fun MustRegister :: "string list \<Rightarrow> (string \<times> string list) list \<Rightarrow> goerr + string list" where
  "MustRegister registry [] = Inr registry"
| "MustRegister registry ((name, labels) # cs) =
     (if name \<in> set registry then Inl (Panic ''duplicate metrics collector registration attempted'')
      else MustRegister (registry @ [name]) cs)"

definition init :: "goerr + string list" where
  "init = MustRegister [] collectors"

lemma MustRegister_Inr:
  "MustRegister registry cs = Inr registry' \<longleftrightarrow>
     distinct (map fst cs) \<and> set (map fst cs) \<inter> set registry = {} \<and> registry' = registry @ map fst cs"
  by (induction registry cs rule: MustRegister.induct) auto

lemma init_registers_all: "init = Inr (map fst collectors)"
  unfolding init_def MustRegister_Inr by (simp add: collectors_def)

section \<open>The endpoints\<close>

text \<open>Status and body; \<open>exposition\<close> is what the Prometheus handler writes.\<close>

definition healthz :: "metrics \<Rightarrow> nat \<times> string" where
  "healthz m = (200, ''ok'' @ [CHR 0x0A])"

definition readyz :: "metrics \<Rightarrow> nat \<times> string" where
  "readyz m = (if IsReady m then (200, ''ready'' @ [CHR 0x0A]) else (503, ''not ready'' @ [CHR 0x0A]))"

definition RegisterHandlers :: "(metrics \<Rightarrow> string) \<Rightarrow> string \<Rightarrow> metrics \<Rightarrow> (nat \<times> string) option" where
  "RegisterHandlers exposition path m =
     (if path = ''/metrics'' then Some (200, exposition m)
      else if path = ''/healthz'' then Some (healthz m)
      else if path = ''/readyz'' then Some (readyz m)
      else None)"

text \<open>The endpoint and the gauge agree, whichever way readiness went.\<close>

lemma readyz_gauge: "RegisterHandlers exposition ''/readyz'' (SetReady b m) = Some (200, body) \<longleftrightarrow>
    Ready (SetReady b m) = 1 \<and> body = ''ready'' @ [CHR 0x0A]"
  by (auto simp: RegisterHandlers_def readyz_def SetReady_def IsReady_def)

end
