(* ===== verification/Observer.thy ===== *)
theory Observer
  imports Metrics
begin

text \<open>
  \<open>internal/destination/observer.go\<close>: the counters of the writer and the numbers of the
  consumer metrics line. The answers of the Kafka admin client are the record
  \<open>kafka_offsets\<close>; the line itself is a record of the numbers it prints.
\<close>

record observer =
  applied :: "64 word"
  duplicates :: "64 word"
  deadLetters :: "64 word"

definition NewObserver :: observer where
  "NewObserver = \<lparr>applied = 0, duplicates = 0, deadLetters = 0\<rparr>"

definition RecordApplied :: "observer \<Rightarrow> observer" where
  "RecordApplied obs = obs\<lparr>applied := applied obs + 1\<rparr>"

definition RecordDuplicate :: "observer \<Rightarrow> observer" where
  "RecordDuplicate obs = obs\<lparr>duplicates := duplicates obs + 1\<rparr>"

definition observer_RecordDeadLetter :: "observer \<Rightarrow> observer" where
  "observer_RecordDeadLetter obs = obs\<lparr>deadLetters := deadLetters obs + 1\<rparr>"

text \<open>The result of \<open>Lookup\<close>: nothing, or an entry with its error and its offset.\<close>

type_synonym listed_offset = "(goerr option \<times> int) option"

definition offsetOf :: "listed_offset \<Rightarrow> int \<times> bool" where
  "offsetOf looked = (case looked of None \<Rightarrow> (-1, False)
     | Some (Some _, _) \<Rightarrow> (-1, False)
     | Some (None, offset) \<Rightarrow> (offset, True))"

text \<open>\<open>strconv.ParseInt(s, 10, 64)\<close>: an optional sign, at least one digit, and the range of 64 bits.\<close>

definition is_digit :: "char \<Rightarrow> bool" where
  "is_digit c \<longleftrightarrow> 48 \<le> (of_char c :: nat) \<and> (of_char c :: nat) < 58"

definition parse_digits :: "string \<Rightarrow> nat option" where
  "parse_digits s = (if s \<noteq> [] \<and> list_all is_digit s then Some (digits_value s) else None)"

definition ParseInt64 :: "string \<Rightarrow> int option" where
  "ParseInt64 s =
     (let neg = (s \<noteq> [] \<and> hd s = CHR ''-'');
          digits = (if s \<noteq> [] \<and> (hd s = CHR ''-'' \<or> hd s = CHR ''+'') then tl s else s)
      in case parse_digits digits of
           None \<Rightarrow> None
         | Some n \<Rightarrow>
             (if neg then (if int n \<le> 2 ^ 63 then Some (- int n) else None)
              else if int n < 2 ^ 63 then Some (int n) else None))"

text \<open>Topic configuration: keys with their values (\<open>MaybeValue\<close>), in order.\<close>

fun retention_entry :: "(string \<times> string) list \<Rightarrow> int" where
  "retention_entry [] = 0"
| "retention_entry ((key, v) # configs) =
     (if key \<noteq> ''retention.ms'' then retention_entry configs
      else (case ParseInt64 v of None \<Rightarrow> 0 | Some retention \<Rightarrow> retention))"

definition topicRetention :: "goerr + (goerr option \<times> (string \<times> string) list) option \<Rightarrow> int" where
  "topicRetention described =
     (case described of
        Inl _ \<Rightarrow> 0
      | Inr None \<Rightarrow> 0
      | Inr (Some (Some _, _)) \<Rightarrow> 0
      | Inr (Some (None, configs)) \<Rightarrow> retention_entry configs)"

record kafka_offsets =
  end_offsets :: "goerr + listed_offset"
  start_offsets :: "goerr + listed_offset"
  group_offsets :: "goerr + listed_offset"
  topic_configs :: "goerr + (goerr option \<times> (string \<times> string) list) option"

record metrics_line =
  log_start :: int
  log_end :: int
  m_produced :: int
  m_committed :: int
  m_consumed :: int
  m_lag :: int
  m_retention :: int
  m_outran :: bool

definition group_committed :: "listed_offset \<Rightarrow> int" where
  "group_committed commits = (case commits of Some (None, at) \<Rightarrow> at | _ \<Rightarrow> -1)"

definition offset_numbers :: "int \<Rightarrow> bool \<Rightarrow> int \<Rightarrow> bool \<Rightarrow> int \<Rightarrow> int \<times> int \<times> int" where
  "offset_numbers endOffset endOK startOffset startOK committed =
     (if endOK \<and> startOK \<and> endOffset \<ge> startOffset
      then (endOffset - startOffset,
            if committed \<ge> 0 then committed - startOffset else -1,
            if committed \<ge> 0 \<and> endOffset \<ge> committed then endOffset - committed else -1)
      else (-1, -1, -1))"

text \<open>\<open>logMetrics\<close>: nothing but a warning when a query fails, else the numbers and the alarm.\<close>

definition logMetrics :: "kafka_offsets \<Rightarrow> metrics_line option" where
  "logMetrics k =
     (case end_offsets k of Inl _ \<Rightarrow> None | Inr end_listed \<Rightarrow>
     (case start_offsets k of Inl _ \<Rightarrow> None | Inr start_listed \<Rightarrow>
     (case group_offsets k of Inl _ \<Rightarrow> None | Inr commits \<Rightarrow>
       (case offsetOf end_listed of (endOffset, endOK) \<Rightarrow>
       (case offsetOf start_listed of (startOffset, startOK) \<Rightarrow>
        let committed = group_committed commits in
       (case offset_numbers endOffset endOK startOffset startOK committed of (produced, consumed, lag) \<Rightarrow>
          Some \<lparr>log_start = startOffset, log_end = endOffset, m_produced = produced, m_committed = committed,
                m_consumed = consumed, m_lag = lag, m_retention = topicRetention (topic_configs k),
                m_outran = (startOK \<and> committed \<ge> 0 \<and> committed < startOffset)\<rparr>))))))"

definition KafkaLagForDemo :: "int \<Rightarrow> int \<Rightarrow> int" where
  "KafkaLagForDemo produced consumed =
     (if produced < 0 \<or> consumed < 0 \<or> consumed > produced then -1 else produced - consumed)"

definition RetentionOutranConsumption :: "int \<Rightarrow> int \<Rightarrow> bool" where
  "RetentionOutranConsumption committed startOffset \<longleftrightarrow> committed \<ge> 0 \<and> committed < startOffset"

section \<open>What the line says\<close>

lemma logMetrics_outran:
  assumes "logMetrics k = Some line"
  shows "m_outran line \<longleftrightarrow> RetentionOutranConsumption (m_committed line) (log_start line)"
  using assms
  by (auto simp: logMetrics_def RetentionOutranConsumption_def offsetOf_def Let_def split: sum.splits option.splits prod.splits)

lemma offset_numbers_lag:
  assumes "offset_numbers endOffset endOK startOffset startOK committed = (produced, consumed, lag)"
    and "startOffset \<le> committed"
  shows "lag = KafkaLagForDemo produced consumed"
  using assms by (auto simp: offset_numbers_def KafkaLagForDemo_def split: if_splits)

end
