(* ===== verification/Retry.thy ===== *)
theory Retry
  imports Errclass "HOL-Library.Signed_Division"
begin

text \<open>
  \<open>internal/retry\<close>: the bounded exponential backoff loop. A \<open>time.Duration\<close> is a signed
  64-bit count of nanoseconds; it is an \<^typ>\<open>int\<close> here with the wrap-around of \<open>delay *= 2\<close>
  written out. The random number and the outcome of each wait (timer, or end of the context)
  are arguments of the model.
\<close>

section \<open>Backoff\<close>

definition wrap64 :: "int \<Rightarrow> int" where
  "wrap64 x = (x + 2 ^ 63) mod 2 ^ 64 - 2 ^ 63"

definition millisecond :: int where
  "millisecond = 1000000"

record retry_config =
  Base :: int
  Max_delay :: int
  MaxRetries :: int

definition Default :: retry_config where
  "Default = \<lparr>Base = 100 * millisecond, Max_delay = 2000 * millisecond, MaxRetries = 20\<rparr>"

text \<open>The loop of \<open>baseBackoff\<close>, with \<open>n\<close> doublings left.\<close>

fun base_loop :: "retry_config \<Rightarrow> nat \<Rightarrow> int \<Rightarrow> int" where
  "base_loop c 0 delay = (if delay > Max_delay c then Max_delay c else delay)"
| "base_loop c (Suc n) delay =
     (let delay' = wrap64 (delay * 2)
      in if delay' \<ge> Max_delay c then Max_delay c else base_loop c n delay')"

definition baseBackoff :: "retry_config \<Rightarrow> int \<Rightarrow> int" where
  "baseBackoff c attempt = base_loop c (nat (attempt - 1)) (Base c)"

text \<open>
  \<open>rand.Int64N(n)\<close> returns a number in \<open>[0, n)\<close>, here \<open>rnd mod n\<close> for an arbitrary
  \<open>rnd\<close>, and panics when \<open>n \<le> 0\<close>; \<^term>\<open>None\<close> is that panic.
\<close>

definition Backoff :: "retry_config \<Rightarrow> int \<Rightarrow> int \<Rightarrow> int option" where
  "Backoff c attempt rnd =
     (let delay = baseBackoff c attempt;
          n = wrap64 ((delay sdiv 5) + 1)
      in if n \<le> 0 then None
         else (let delay' = wrap64 (delay - rnd mod n)
               in Some (if delay' < millisecond then millisecond else delay')))"

lemma wrap64_id [simp]: "- (2 ^ 63) \<le> x \<Longrightarrow> x < 2 ^ 63 \<Longrightarrow> wrap64 x = x"
  by (simp add: wrap64_def)

lemma sdiv_5: "0 \<le> x \<Longrightarrow> (x :: int) sdiv 5 = x div 5"
  by (cases "x = 0") (simp_all add: signed_divide_int_def sgn_if)

text \<open>A configuration whose doublings stay inside 64 bits.\<close>

definition sane_config :: "retry_config \<Rightarrow> bool" where
  "sane_config c \<longleftrightarrow> 0 < Base c \<and> Base c \<le> Max_delay c \<and> Max_delay c < 2 ^ 62"

lemma sane_Default [simp]: "sane_config Default"
  by (simp add: sane_config_def Default_def millisecond_def)

lemma base_loop_eq:
  assumes "sane_config c" and "0 < delay" and "delay \<le> Max_delay c"
  shows "base_loop c n delay = min (Max_delay c) (delay * 2 ^ n)"
  using assms(2,3)
proof (induction n arbitrary: delay)
  case 0
  then show ?case by simp
next
  case (Suc n)
  have w: "wrap64 (delay * 2) = delay * 2"
    using assms(1) Suc.prems by (intro wrap64_id) (auto simp: sane_config_def)
  show ?case
  proof (cases "delay * 2 \<ge> Max_delay c")
    case True
    have "delay * 2 * 1 \<le> delay * 2 * 2 ^ n"
      using Suc.prems by (intro mult_left_mono) auto
    with True have "Max_delay c \<le> delay * 2 ^ Suc n" by simp
    with w True show ?thesis by (simp add: Let_def)
  next
    case False
    with w Suc.IH [of "delay * 2"] Suc.prems show ?thesis
      by (simp add: Let_def mult.assoc)
  qed
qed

lemma baseBackoff_range:
  assumes "sane_config c"
  shows "0 < baseBackoff c attempt" and "baseBackoff c attempt \<le> Max_delay c" and "Base c \<le> baseBackoff c attempt"
proof -
  let ?n = "nat (attempt - 1)"
  have eq: "baseBackoff c attempt = min (Max_delay c) (Base c * 2 ^ ?n)"
    using assms by (auto simp: baseBackoff_def sane_config_def intro: base_loop_eq)
  have "Base c * 1 \<le> Base c * 2 ^ ?n"
    using assms by (intro mult_left_mono) (auto simp: sane_config_def)
  with assms eq show "0 < baseBackoff c attempt" "baseBackoff c attempt \<le> Max_delay c" "Base c \<le> baseBackoff c attempt"
    by (auto simp: sane_config_def)
qed

lemma Backoff_Some:
  assumes "sane_config c"
  shows "\<exists>d. Backoff c attempt rnd = Some d \<and> millisecond \<le> d \<and> d \<le> max millisecond (baseBackoff c attempt)
              \<and> baseBackoff c attempt - baseBackoff c attempt div 5 \<le> d"
proof -
  let ?b = "baseBackoff c attempt"
  have b: "0 < ?b" "?b < 2 ^ 62"
    using baseBackoff_range [OF assms, of attempt] assms by (auto simp: sane_config_def)
  have n: "wrap64 (?b sdiv 5 + 1) = ?b div 5 + 1"
    using b by (simp add: sdiv_5)
  define m where "m = rnd mod (?b div 5 + 1)"
  have r: "0 \<le> m" "m < ?b div 5 + 1"
    using b pos_mod_bound [of "?b div 5 + 1" rnd] by (simp_all add: m_def)
  have "wrap64 (?b - m) = ?b - m"
    using b r by (intro wrap64_id) auto
  with b n r show ?thesis
    by (auto simp: Backoff_def Let_def m_def [symmetric])
qed

section \<open>The retry loop\<close>

text \<open>
  \<open>fn\<close> changes a state and returns an error or nil. \<open>rnd\<close> gives the random number drawn
  after an attempt; \<open>wait attempt delay\<close> is the outcome of the \<open>select\<close>: nil when the timer
  fired, the context's error when the context ended first.
\<close>

function (sequential) do_loop ::
  "(int \<Rightarrow> int \<Rightarrow> goerr option) \<Rightarrow> (int \<Rightarrow> int) \<Rightarrow> retry_config \<Rightarrow> string \<Rightarrow> ('s \<Rightarrow> goerr option \<times> 's)
     \<Rightarrow> int \<Rightarrow> 's \<Rightarrow> goerr option \<times> 's" where
  "do_loop wait rnd cfg operation fn attempt s =
     (case fn s of
        (None, s') \<Rightarrow> (None, s')
      | (Some err, s') \<Rightarrow>
          (if attempt \<ge> MaxRetries cfg then (Some (Wrapf ''%s: %w'' [operation] err), s')
           else (case Backoff cfg attempt (rnd attempt) of
                   None \<Rightarrow> (Some (Panic ''rand.Int64N''), s')
                 | Some delay \<Rightarrow>
                     (case wait attempt delay of
                        Some ctx_err \<Rightarrow> (Some ctx_err, s')
                      | None \<Rightarrow> do_loop wait rnd cfg operation fn (attempt + 1) s'))))"
  by pat_completeness auto
termination
  by (relation "measure (\<lambda>(wait, rnd, cfg, operation, fn, attempt, s). nat (MaxRetries cfg - attempt))") auto

declare do_loop.simps [simp del]

definition retry_Do ::
  "(int \<Rightarrow> int \<Rightarrow> goerr option) \<Rightarrow> (int \<Rightarrow> int) \<Rightarrow> retry_config \<Rightarrow> string \<Rightarrow> ('s \<Rightarrow> goerr option \<times> 's)
     \<Rightarrow> 's \<Rightarrow> goerr option \<times> 's" where
  "retry_Do wait rnd cfg operation fn s = do_loop wait rnd cfg operation fn 1 s"

lemma retry_first: "fn s = (None, s') \<Longrightarrow> retry_Do wait rnd cfg operation fn s = (None, s')"
  by (simp add: retry_Do_def do_loop.simps)

text \<open>The state after \<open>k\<close> calls of \<open>fn\<close>, and the error of call \<open>k\<close> (counted from 0).\<close>

definition calls_state :: "('s \<Rightarrow> goerr option \<times> 's) \<Rightarrow> nat \<Rightarrow> 's \<Rightarrow> 's" where
  "calls_state fn k s = ((snd \<circ> fn) ^^ k) s"

definition call_error :: "('s \<Rightarrow> goerr option \<times> 's) \<Rightarrow> nat \<Rightarrow> 's \<Rightarrow> goerr option" where
  "call_error fn k s = fst (fn (calls_state fn k s))"

lemma calls_state_0 [simp]: "calls_state fn 0 s = s"
  by (simp add: calls_state_def)

lemma calls_state_Suc: "calls_state fn (Suc k) s = calls_state fn k (snd (fn s))"
  by (simp add: calls_state_def funpow_swap1)

lemma call_error_0 [simp]: "call_error fn 0 s = fst (fn s)"
  by (simp add: call_error_def)

lemma call_error_Suc: "call_error fn (Suc k) s = call_error fn k (snd (fn s))"
  by (simp add: call_error_def calls_state_Suc)

lemma do_loop_success:
  assumes sane: "sane_config cfg" and timer: "\<And>a d. wait a d = None"
    and "\<And>i. i < k \<Longrightarrow> call_error fn i s \<noteq> None" and "call_error fn k s = None"
    and "k = 0 \<or> attempt + int k \<le> MaxRetries cfg"
  shows "do_loop wait rnd cfg operation fn attempt s = (None, calls_state fn (Suc k) s)"
  using assms(3-5)
proof (induction k arbitrary: attempt s)
  case 0
  then show ?case
    by (cases "fn s") (simp add: do_loop.simps calls_state_Suc)
next
  case (Suc k)
  obtain e s' where fn: "fn s = (Some e, s')"
    using Suc.prems(1) [of 0] by (cases "fn s") auto
  obtain d where d: "Backoff cfg attempt (rnd attempt) = Some d"
    using Backoff_Some [OF sane] by blast
  have "do_loop wait rnd cfg operation fn (attempt + 1) s' = (None, calls_state fn (Suc k) s')"
    using Suc.prems Suc.prems(1) [of "Suc i" for i] fn
    by (intro Suc.IH) (auto simp: call_error_Suc)
  then show ?case
    using Suc.prems fn d timer by (subst do_loop.simps) (simp add: calls_state_Suc)
qed

lemma do_loop_exhausted:
  assumes sane: "sane_config cfg" and timer: "\<And>a d. wait a d = None"
    and "\<And>i. i \<le> k \<Longrightarrow> call_error fn i s \<noteq> None"
    and "k = 0 \<and> MaxRetries cfg \<le> attempt \<or> attempt + int k = MaxRetries cfg"
  shows "do_loop wait rnd cfg operation fn attempt s =
           (Some (Wrapf ''%s: %w'' [operation] (the (call_error fn k s))), calls_state fn (Suc k) s)"
  using assms(3,4)
proof (induction k arbitrary: attempt s)
  case 0
  then show ?case
    by (cases "fn s") (auto simp: do_loop.simps calls_state_Suc)
next
  case (Suc k)
  obtain e s' where fn: "fn s = (Some e, s')"
    using Suc.prems(1) [of 0] by (cases "fn s") auto
  obtain d where d: "Backoff cfg attempt (rnd attempt) = Some d"
    using Backoff_Some [OF sane] by blast
  have "do_loop wait rnd cfg operation fn (attempt + 1) s' =
          (Some (Wrapf ''%s: %w'' [operation] (the (call_error fn k s'))), calls_state fn (Suc k) s')"
    using Suc.prems Suc.prems(1) [of "Suc i" for i] fn
    by (intro Suc.IH) (auto simp: call_error_Suc)
  then show ?case
    using Suc.prems fn d timer by (subst do_loop.simps) (simp add: calls_state_Suc call_error_Suc)
qed

text \<open>What the loop has called: every call before the last one failed.\<close>

lemma do_loop_calls:
  "do_loop wait rnd cfg operation fn attempt s = (r, s') \<Longrightarrow>
     \<exists>k. s' = calls_state fn (Suc k) s \<and> (k = 0 \<or> attempt + int k \<le> MaxRetries cfg) \<and>
         (\<forall>i < k. call_error fn i s \<noteq> None) \<and> (r = None \<longleftrightarrow> call_error fn k s = None)"
proof (induction wait rnd cfg operation fn attempt s rule: do_loop.induct)
  case (1 wait rnd cfg operation fn attempt s)
  obtain e s1 where fn: "fn s = (e, s1)" by (cases "fn s") auto
  show ?case
  proof (cases "\<exists>err d. e = Some err \<and> attempt < MaxRetries cfg \<and> Backoff cfg attempt (rnd attempt) = Some d \<and> wait attempt d = None")
    case False
    then have "s' = s1 \<and> (r = None \<longleftrightarrow> e = None)"
      using "1.prems" fn by (subst (asm) do_loop.simps) (auto split: option.splits if_splits dest: sym [of "Some _"])
    then show ?thesis
      using fn by (intro exI [of _ 0]) (simp add: calls_state_Suc)
  next
    case True
    then obtain err d where t: "e = Some err" "attempt < MaxRetries cfg" "Backoff cfg attempt (rnd attempt) = Some d" "wait attempt d = None"
      by blast
    then have "do_loop wait rnd cfg operation fn (attempt + 1) s1 = (r, s')"
      using "1.prems" fn by (subst (asm) do_loop.simps) simp
    then obtain k where k: "s' = calls_state fn (Suc k) s1" "k = 0 \<or> attempt + 1 + int k \<le> MaxRetries cfg"
        "\<forall>i < k. call_error fn i s1 \<noteq> None" "r = None \<longleftrightarrow> call_error fn k s1 = None"
      using "1.IH" fn t by force
    have "call_error fn i s \<noteq> None" if "i < Suc k" for i
      using that fn t(1) k(3) by (cases i) (simp_all add: call_error_Suc)
    then show ?thesis
      using k t(2) fn by (intro exI [of _ "Suc k"]) (auto simp: calls_state_Suc call_error_Suc)
  qed
qed

text \<open>What every call keeps, the loop keeps; and a nil result is the nil result of the last call.\<close>

lemma do_loop_keeps:
  fixes fn :: "'s \<Rightarrow> goerr option \<times> 's"
  assumes keep: "\<And>s. I s \<Longrightarrow> I (snd (fn s))"
  shows "I s \<Longrightarrow> do_loop wait rnd cfg operation fn attempt s = (r, s') \<Longrightarrow>
         I s' \<and> (r = None \<longrightarrow> (\<exists>s0. I s0 \<and> fn s0 = (None, s')))"
proof (induction "nat (MaxRetries cfg - attempt)" arbitrary: attempt s)
  case 0
  obtain e s1 where fn: "fn s = (e, s1)"
    by (cases "fn s") auto
  have "I s1"
    using keep [OF 0(2)] fn by simp
  with 0 fn show ?case
    by (subst (asm) do_loop.simps) (auto split: option.splits)
next
  case (Suc n)
  obtain e s1 where fn: "fn s = (e, s1)"
    by (cases "fn s") auto
  have "I s1"
    using keep [OF Suc.prems(1)] fn by simp
  moreover have "n = nat (MaxRetries cfg - (attempt + 1))"
    using Suc.hyps(2) by simp
  ultimately show ?case
    using Suc.prems(1) fn Suc.hyps(1) [of "attempt + 1" s1] Suc.prems(2) [unfolded do_loop.simps [of wait rnd cfg operation fn attempt s]]
    by (auto split: option.splits if_splits)
qed

lemma retry_Do_keeps:
  assumes "\<And>s. I s \<Longrightarrow> I (snd (fn s))" and "I s" and "retry_Do wait rnd cfg operation fn s = (r, s')"
  shows "I s' \<and> (r = None \<longrightarrow> (\<exists>s0. I s0 \<and> fn s0 = (None, s')))"
  using do_loop_keeps [of I fn, OF assms(1)] assms(2,3) unfolding retry_Do_def by blast

end
