(* ===== verification/Writer.thy ===== *)
theory Writer
  imports Schema_Repair Snapshot Observer Retry
begin

text \<open>
  \<open>cmd/destination-writer/main.go\<close>: the consumer loop. Kafka events are buffered until the last
  event of a source transaction arrives; the group is then applied to the destination, and only
  then is the Kafka offset committed.
\<close>

section \<open>State\<close>

record kafka_record =
  rec_topic :: string
  rec_partition :: int
  rec_offset :: int
  rec_key :: string
  rec_value :: string

text \<open>\<open>g_tx\<close> says whether \<open>group.tx\<close> is not nil; the transaction itself is the connection's.\<close>

record groupState =
  g_txid :: "32 word"
  g_count :: int
  g_nextSeq :: int
  g_tx :: bool
  g_lastRecord :: "kafka_record option"
  g_buffer :: "(kafka_record \<times> event) list"
  g_startedAt :: int

text \<open>
  The connection, the current group, the committed offset of the consumer group (on the broker),
  how often a rebalance has been allowed, the counters, and the number of Kafka calls so far.
\<close>

record writer =
  w_conn :: conn
  w_group :: "groupState option"
  w_committed :: "int option"
  w_rebalances :: nat
  w_observer :: observer
  w_metrics :: metrics
  w_tick :: nat

record fetched =
  fetch_errors :: "goerr list"
  fetch_records :: "kafka_record list"

text \<open>
  Services of the writer: the destination and the source catalog, \<open>json.Unmarshal\<close> of an event,
  the Kafka client (a failed offset commit may or may not have reached the broker), the waits and
  random numbers of the retry loop, the clock and the retention budget.
\<close>

record writer_env =
  we_db :: dest_env
  we_source :: source_catalog
  we_unmarshal :: "string \<Rightarrow> goerr + event"
  we_poll :: "nat \<Rightarrow> fetched"
  we_commit :: "nat \<Rightarrow> (goerr \<times> bool) option"
  we_wait :: "int \<Rightarrow> int \<Rightarrow> goerr option"
  we_rnd :: "int \<Rightarrow> int"
  we_now :: "nat \<Rightarrow> int"
  we_retention :: int

section \<open>Counters\<close>

definition on_observer :: "(observer \<Rightarrow> observer) \<Rightarrow> writer \<Rightarrow> writer" where
  "on_observer f w = w\<lparr>w_observer := f (w_observer w)\<rparr>"

definition on_metrics :: "(metrics \<Rightarrow> metrics) \<Rightarrow> writer \<Rightarrow> writer" where
  "on_metrics f w = w\<lparr>w_metrics := f (w_metrics w)\<rparr>"

definition count_applied :: "bool \<Rightarrow> writer \<Rightarrow> writer" where
  "count_applied was_applied w = on_observer (if was_applied then RecordApplied else RecordDuplicate) w"

definition count_dead_letter :: "writer \<Rightarrow> writer" where
  "count_dead_letter w =
     on_metrics (\<lambda>m. m\<lparr>DeadLetters := Suc (DeadLetters m)\<rparr>) (on_observer observer_RecordDeadLetter w)"

section \<open>Poison\<close>

fun replay_events :: "writer_env \<Rightarrow> string \<Rightarrow> (kafka_record \<times> event) list \<Rightarrow> writer \<Rightarrow> goerr option \<times> writer" where
  "replay_events env poisonID [] w = (None, w)"
| "replay_events env poisonID ((record, event) # rest) w =
     (if ID event = poisonID then replay_events env poisonID rest w
      else
     (case Apply (we_db env) event (w_conn w) of
        (Inr was_applied, c) \<Rightarrow> replay_events env poisonID rest (count_applied was_applied (w\<lparr>w_conn := c\<rparr>))
      | (Inl err, c) \<Rightarrow>
          if IsPermanent (Some err)
          then (case RecordDeadLetter (we_db env) event err c of
                  (Some deadLetterErr, c') \<Rightarrow> (Some deadLetterErr, w\<lparr>w_conn := c'\<rparr>)
                | (None, c') \<Rightarrow> replay_events env poisonID rest (count_dead_letter (w\<lparr>w_conn := c'\<rparr>)))
          else (Some err, w\<lparr>w_conn := c\<rparr>)))"

definition replayHealthyEvents :: "writer_env \<Rightarrow> groupState \<Rightarrow> event \<Rightarrow> writer \<Rightarrow> goerr option \<times> writer" where
  "replayHealthyEvents env g poison w = replay_events env (ID poison) (g_buffer g) w"

definition stash_poison :: "writer_env \<Rightarrow> event \<Rightarrow> goerr \<Rightarrow> writer \<Rightarrow> goerr option \<times> writer" where
  "stash_poison env poison reason w =
     (case RecordDeadLetter (we_db env) poison reason (w_conn w) of
        (Some e, c) \<Rightarrow> (Some e, w\<lparr>w_conn := c\<rparr>)
      | (None, c) \<Rightarrow> (None, count_dead_letter (w\<lparr>w_conn := c\<rparr>)))"

definition quarantinePoison :: "writer_env \<Rightarrow> event \<Rightarrow> goerr \<Rightarrow> writer \<Rightarrow> goerr option \<times> writer" where
  "quarantinePoison env poison reason w =
     (if \<not> IsUndefinedColumn reason then stash_poison env poison reason w
      else
     (case RepairSchema (we_db env) (we_source env) poison (w_conn w) of
        (Inl repairErr, c) \<Rightarrow> stash_poison env poison reason (w\<lparr>w_conn := c\<rparr>)
      | (Inr False, c) \<Rightarrow> stash_poison env poison reason (w\<lparr>w_conn := c\<rparr>)
      | (Inr True, c) \<Rightarrow>
          (case Apply (we_db env) poison c of
             (Inr was_applied, c') \<Rightarrow> (None, count_applied was_applied (w\<lparr>w_conn := c'\<rparr>))
           | (Inl applyErr, c') \<Rightarrow>
               if \<not> IsPermanent (Some applyErr) then (Some applyErr, w\<lparr>w_conn := c'\<rparr>)
               else stash_poison env poison applyErr (w\<lparr>w_conn := c'\<rparr>))))"

section \<open>Closing a group\<close>

text \<open>
  \<open>commitDestinationTransaction\<close>. The group is changed only by setting \<open>tx\<close> to nil; it is nil on
  every path that gets past the first test.
\<close>

definition commitDestinationTransaction :: "writer_env \<Rightarrow> groupState \<Rightarrow> writer \<Rightarrow> goerr option \<times> writer" where
  "commitDestinationTransaction env g w =
     (if \<not> g_tx g then (None, w)
      else
     (case ApplyBatch (we_db env) (map snd (g_buffer g)) (w_conn w) of
        (BatchOk, c) \<Rightarrow>
          (case commit (we_db env) c of
             (Some e, c1) \<Rightarrow>
               (Some (Wrapf ''commit destination transaction for source transaction %d: %w'' [itoa (uint (g_txid g))] e),
                w\<lparr>w_conn := snd (rollback (we_db env) c1)\<rparr>)
           | (None, c1) \<Rightarrow> (None, w\<lparr>w_conn := c1\<rparr>))
      | (BatchFail e, c) \<Rightarrow>
          (Some e, on_metrics (inc_error ''apply'') (w\<lparr>w_conn := snd (rollback (we_db env) c)\<rparr>))
      | (BatchPoison i poison err, c) \<Rightarrow>
          (case rollback (we_db env) c of
             (Some e, c1) \<Rightarrow> (Some (Wrapf ''roll back quarantined group: %w'' [] e), w\<lparr>w_conn := c1\<rparr>)
           | (None, c1) \<Rightarrow>
          (case replayHealthyEvents env g poison (w\<lparr>w_conn := c1\<rparr>) of
             (Some e, w1) \<Rightarrow> (Some e, w1)
           | (None, w1) \<Rightarrow>
          (case quarantinePoison env poison err w1 of
             (Some e, w2) \<Rightarrow> (Some e, w2)
           | (None, w2) \<Rightarrow> (None, on_metrics (inc_error ''poison'') w2))))))"

text \<open>One call of \<open>CommitRecords\<close>: on success the group's offset is the one after the record.\<close>

definition commit_records :: "writer_env \<Rightarrow> kafka_record \<Rightarrow> writer \<Rightarrow> goerr option \<times> writer" where
  "commit_records env record w =
     (let w' = w\<lparr>w_tick := Suc (w_tick w)\<rparr> in
      case we_commit env (w_tick w) of
        Some (e, reached) \<Rightarrow> (Some e, if reached then w'\<lparr>w_committed := Some (rec_offset record + 1)\<rparr> else w')
      | None \<Rightarrow> (None, w'\<lparr>w_committed := Some (rec_offset record + 1)\<rparr>))"

text \<open>\<open>ctx_err\<close> is \<open>ctx.Err()\<close> as a function of the number of Kafka calls so far.\<close>

definition commitKafkaOffsetAndAllowRebalance ::
  "writer_env \<Rightarrow> (nat \<Rightarrow> goerr option) \<Rightarrow> groupState \<Rightarrow> writer \<Rightarrow> goerr option \<times> writer" where
  "commitKafkaOffsetAndAllowRebalance env ctx_err g w =
     (case g_lastRecord g of
        None \<Rightarrow> (None, w)
      | Some record \<Rightarrow>
          (case retry_Do (we_wait env) (we_rnd env) Default ''commit Kafka offset'' (commit_records env record) w of
             (Some err, w1) \<Rightarrow>
               (case ctx_err (w_tick w1) of
                  Some e \<Rightarrow> (Some e, w1)
                | None \<Rightarrow>
                    (Some (Wrapf ''commit Kafka offset %d after source transaction %d: %w''
                       [itoa (rec_offset record), itoa (uint (g_txid g))] err), w1))
           | (None, w1) \<Rightarrow> (None, w1\<lparr>w_rebalances := Suc (w_rebalances w1)\<rparr>)))"

definition closeGroup ::
  "writer_env \<Rightarrow> (nat \<Rightarrow> goerr option) \<Rightarrow> groupState \<Rightarrow> writer \<Rightarrow> goerr option \<times> writer" where
  "closeGroup env ctx_err g w =
     (case commitDestinationTransaction env g w of
        (Some e, w1) \<Rightarrow> (Some e, w1)
      | (None, w1) \<Rightarrow>
     (case commitKafkaOffsetAndAllowRebalance env ctx_err g w1 of
        (Some e, w2) \<Rightarrow> (Some e, w2)
      | (None, w2) \<Rightarrow>
          (None, on_metrics (\<lambda>m. m\<lparr>BatchDurations := BatchDurations m @ [we_now env (w_tick w2) - g_startedAt g],
                                  BatchSizes := BatchSizes m @ [length (g_buffer g)], PendingEvents := 0,
                                  GroupAgeSeconds := 0\<rparr>) w2)))"

section \<open>Events\<close>

text \<open>The group an event belongs to: the open one, or a new one with its transaction begun.\<close>

definition open_group :: "writer_env \<Rightarrow> kafka_record \<Rightarrow> event \<Rightarrow> writer \<Rightarrow> (goerr + groupState) \<times> writer" where
  "open_group env record event w =
     (case w_group w of
        None \<Rightarrow>
          if Sequence (Source event) \<noteq> 1
          then (Inl (Errorf ''out-of-order Kafka stream: event %s starts at sequence %d, want 1''
                       [ID event, itoa (Sequence (Source event))]), on_metrics (inc_error ''ordering'') w)
          else (case begin_tx (we_db env) (w_conn w) of
                  (Some e, c) \<Rightarrow>
                    (Inl (Wrapf ''begin destination transaction for source transaction %d: %w''
                            [itoa (uint (TransactionID (Source event)))] e), w\<lparr>w_conn := c\<rparr>)
                | (None, c) \<Rightarrow>
                    (Inr \<lparr>g_txid = TransactionID (Source event), g_count = TransactionEventCount (Source event),
                          g_nextSeq = 1, g_tx = True, g_lastRecord = Some record, g_buffer = [],
                          g_startedAt = we_now env (w_tick w)\<rparr>, w\<lparr>w_conn := c\<rparr>))
      | Some g \<Rightarrow>
          if TransactionID (Source event) \<noteq> g_txid g
          then (Inl (Errorf ''out-of-order Kafka stream: event %s has transaction %d while %d is still open''
                       [ID event, itoa (uint (TransactionID (Source event))), itoa (uint (g_txid g))]),
                on_metrics (inc_error ''ordering'') w)
          else if Sequence (Source event) \<noteq> g_nextSeq g
          then (Inl (Errorf ''out-of-order Kafka stream: event %s has sequence %d, want %d''
                       [ID event, itoa (Sequence (Source event)), itoa (g_nextSeq g)]),
                on_metrics (inc_error ''ordering'') w)
          else (Inr g, w))"

definition buffer_event :: "kafka_record \<Rightarrow> event \<Rightarrow> groupState \<Rightarrow> groupState" where
  "buffer_event record event g =
     g\<lparr>g_buffer := g_buffer g @ [(record, event)], g_lastRecord := Some record, g_nextSeq := g_nextSeq g + 1\<rparr>"

definition event_metrics :: "writer_env \<Rightarrow> event \<Rightarrow> groupState \<Rightarrow> writer \<Rightarrow> writer" where
  "event_metrics env event g w =
     on_metrics (\<lambda>m. (SetLag (we_now env (w_tick w) - CommitTime (Source event)) (we_retention env)
                        (inc_processed (op_string (Operation event)) m))
                     \<lparr>PendingEvents := int (length (g_buffer g)), GroupAgeSeconds := we_now env (w_tick w) - g_startedAt g\<rparr>) w"

definition group_complete :: "groupState \<Rightarrow> bool" where
  "group_complete g \<longleftrightarrow> g_nextSeq g - 1 = g_count g"

text \<open>
  \<open>handleEvent\<close>. When closing fails, the group pointer keeps what it was: nil for a group of one
  event, else the group, with the event added and \<open>tx\<close> nil.
\<close>

definition handleEvent ::
  "writer_env \<Rightarrow> (nat \<Rightarrow> goerr option) \<Rightarrow> kafka_record \<Rightarrow> event \<Rightarrow> writer \<Rightarrow> goerr option \<times> writer" where
  "handleEvent env ctx_err record event w =
     (case open_group env record event w of
        (Inl e, w1) \<Rightarrow> (Some e, w1)
      | (Inr g0, w1) \<Rightarrow>
          (let g = buffer_event record event g0; w2 = event_metrics env event g w1 in
           if group_complete g
           then (case closeGroup env ctx_err g w2 of
                   (Some e, w3) \<Rightarrow>
                     (Some e, w3\<lparr>w_group := (if w_group w = None then None else Some (g\<lparr>g_tx := False\<rparr>))\<rparr>)
                 | (None, w3) \<Rightarrow> (None, w3\<lparr>w_group := None\<rparr>))
           else (None, w2\<lparr>w_group := Some g\<rparr>)))"

section \<open>The loop\<close>

definition poll_records :: "writer_env \<Rightarrow> writer \<Rightarrow> fetched \<times> writer" where
  "poll_records env w = (we_poll env (w_tick w), w\<lparr>w_tick := Suc (w_tick w)\<rparr>)"

definition discard_group :: "writer_env \<Rightarrow> groupState \<Rightarrow> writer \<Rightarrow> writer" where
  "discard_group env g w = (if g_tx g then w\<lparr>w_conn := snd (rollback (we_db env) (w_conn w))\<rparr> else w)"

text \<open>
  \<open>shutdown\<close> closes the group under its own context, \<open>group_ctx\<close> (ten seconds); it returns
  \<open>ctx.Err()\<close>.
\<close>

definition shutdown ::
  "writer_env \<Rightarrow> (nat \<Rightarrow> goerr option) \<Rightarrow> (nat \<Rightarrow> goerr option) \<Rightarrow> writer \<Rightarrow> goerr option \<times> writer" where
  "shutdown env ctx_err group_ctx w =
     (let w' = (case w_group w of
                  None \<Rightarrow> w
                | Some g \<Rightarrow> if group_complete g then snd (closeGroup env group_ctx g w) else discard_group env g w)
      in (ctx_err (w_tick w'), w'))"

fun consume_records ::
  "writer_env \<Rightarrow> (nat \<Rightarrow> goerr option) \<Rightarrow> kafka_record list \<Rightarrow> writer \<Rightarrow> goerr option \<times> writer" where
  "consume_records env ctx_err [] w = (None, w)"
| "consume_records env ctx_err (record # records) w =
     (case we_unmarshal env (rec_value record) of
        Inl e \<Rightarrow>
          (Some (Wrapf ''decode Kafka record at partition %d offset %d: %w''
                   [itoa (rec_partition record), itoa (rec_offset record)] e),
           (case w_group w of None \<Rightarrow> w | Some g \<Rightarrow> w\<lparr>w_conn := snd (rollback (we_db env) (w_conn w))\<rparr>))
      | Inr event \<Rightarrow>
          (case handleEvent env ctx_err record event w of
             (Some e, w1) \<Rightarrow> (Some e, w1)
           | (None, w1) \<Rightarrow> consume_records env ctx_err records w1))"

text \<open>The function the retry loop calls to poll again; it also keeps what it fetched.\<close>

definition poll_again ::
  "writer_env \<Rightarrow> (nat \<Rightarrow> goerr option) \<Rightarrow> fetched \<times> writer \<Rightarrow> goerr option \<times> fetched \<times> writer" where
  "poll_again env ctx_err s =
     (case poll_records env (snd s) of
        (fetches, w) \<Rightarrow>
          (case ctx_err (w_tick w) of
             Some e \<Rightarrow> (Some e, fetches, w)
           | None \<Rightarrow>
               (case fetch_errors fetches of
                  [] \<Rightarrow> (None, fetches, w)
                | e # _ \<Rightarrow> (Some (Flatf ''poll Kafka: %v'' [] e), fetches, w))))"

text \<open>One round of the loop of \<open>consume\<close>: it ends the loop with a result, or goes on.\<close>

datatype round_result = Ended "goerr option" writer | Continue writer

definition consume_round ::
  "writer_env \<Rightarrow> (nat \<Rightarrow> goerr option) \<Rightarrow> (nat \<Rightarrow> goerr option) \<Rightarrow> writer \<Rightarrow> round_result" where
  "consume_round env ctx_err group_ctx w =
     (let stop = (\<lambda>w'. case shutdown env ctx_err group_ctx w' of (e, w'') \<Rightarrow> Ended e w'');
          go = (\<lambda>fetches w'. case consume_records env ctx_err (fetch_records fetches) w' of
                  (Some e, w'') \<Rightarrow> Ended (Some e) w'' | (None, w'') \<Rightarrow> Continue w'')
      in case poll_records env w of
           (fetches, w1) \<Rightarrow>
             if ctx_err (w_tick w1) \<noteq> None then stop w1
             else if fetch_errors fetches = [] then go fetches w1
             else (case retry_Do (we_wait env) (we_rnd env) Default ''poll Kafka'' (poll_again env ctx_err) (fetches, w1) of
                     (Some e, fetches', w2) \<Rightarrow> stop w2
                   | (None, fetches', w2) \<Rightarrow> go fetches' w2))"

text \<open>The loop for at most \<open>n\<close> rounds: \<^term>\<open>None\<close> when it is still running.\<close>

fun consume ::
  "writer_env \<Rightarrow> (nat \<Rightarrow> goerr option) \<Rightarrow> (nat \<Rightarrow> goerr option) \<Rightarrow> nat \<Rightarrow> writer \<Rightarrow> goerr option option \<times> writer" where
  "consume env ctx_err group_ctx 0 w = (None, w)"
| "consume env ctx_err group_ctx (Suc n) w =
     (case consume_round env ctx_err group_ctx w of
        Ended e w' \<Rightarrow> (Some e, w')
      | Continue w' \<Rightarrow> consume env ctx_err group_ctx n w')"

section \<open>Starting\<close>

text \<open>
  \<open>verifySinglePartition\<close> on the answer of the admin client: an error, no entry for the topic, or
  the topic's error and its number of partitions.
\<close>

definition verifySinglePartition :: "goerr + (goerr option \<times> nat) option \<Rightarrow> string \<Rightarrow> goerr option" where
  "verifySinglePartition metadata topic =
     (case metadata of
        Inl e \<Rightarrow> Some (Wrapf ''fetch Kafka metadata for %q: %w'' [topic] e)
      | Inr None \<Rightarrow> Some (Errorf ''Kafka topic %q was not found'' [topic])
      | Inr (Some (Some e, _)) \<Rightarrow> Some (Wrapf ''load Kafka topic %q: %w'' [topic] e)
      | Inr (Some (None, partitions)) \<Rightarrow>
          if partitions \<noteq> 1
          then Some (Errorf ''unsafe Kafka configuration: topic %q has %d partitions, want exactly 1 to preserve event order''
                       [topic, itoa (int partitions)])
          else None)"

text \<open>The outcomes of the connections \<open>run\<close> opens before it consumes.\<close>

record writer_boot =
  wb_destination :: "goerr option"
  wb_kafka_client :: "goerr option"
  wb_ping :: "goerr option"
  wb_metadata :: "goerr + (goerr option \<times> nat) option"
  wb_topic :: string
  wb_snapshot :: snapshot_source
  wb_snapshotter :: snapshotter
  wb_polls :: nat

text \<open>\<open>run\<close> up to the call of \<open>consume\<close>, and then \<open>n\<close> rounds of it.\<close>

definition start_writer :: "writer_env \<Rightarrow> writer_boot \<Rightarrow> writer \<Rightarrow> goerr option \<times> writer" where
  "start_writer env b w =
     (case wb_destination b of
        Some e \<Rightarrow> (Some (Wrapf ''connect to destination PostgreSQL: %w'' [] e), w)
      | None \<Rightarrow>
     (case EnsureMetaSchema (we_db env) (w_conn w) of
        (Some e, c) \<Rightarrow> (Some e, w\<lparr>w_conn := c\<rparr>)
      | (None, c) \<Rightarrow>
     (case wb_kafka_client b of
        Some e \<Rightarrow> (Some (Wrapf ''create Kafka consumer: %w'' [] e), w\<lparr>w_conn := c\<rparr>)
      | None \<Rightarrow>
     (case wb_ping b of
        Some e \<Rightarrow> (Some (Wrapf ''connect to Kafka: %w'' [] e), w\<lparr>w_conn := c\<rparr>)
      | None \<Rightarrow>
     (case verifySinglePartition (wb_metadata b) (wb_topic b) of
        Some e \<Rightarrow> (Some e, w\<lparr>w_conn := c\<rparr>)
      | None \<Rightarrow>
     (case bootSnapshot (we_db env) (wb_snapshot b) (wb_snapshotter b) (wb_polls b) c of
        (Some e, c') \<Rightarrow> (Some e, w\<lparr>w_conn := c'\<rparr>)
      | (None, c') \<Rightarrow> (None, on_metrics (SetReady True) (w\<lparr>w_conn := c'\<rparr>))))))))"

definition writer_run ::
  "writer_env \<Rightarrow> writer_boot \<Rightarrow> (nat \<Rightarrow> goerr option) \<Rightarrow> (nat \<Rightarrow> goerr option) \<Rightarrow> nat \<Rightarrow> writer
     \<Rightarrow> goerr option option \<times> writer" where
  "writer_run env b ctx_err group_ctx n w =
     (case start_writer env b w of
        (Some e, w1) \<Rightarrow> (Some (Some e), w1)
      | (None, w1) \<Rightarrow>
          (case consume env ctx_err group_ctx n w1 of
             (None, w2) \<Rightarrow> (None, w2)
           | (Some e, w2) \<Rightarrow> (Some e, on_metrics (SetReady False) w2)))"

end
