(* ===== verification/Dead_Letter.thy ===== *)
theory Dead_Letter
  imports Applier
begin

text \<open>
  \<open>internal/destination/deadletter.go\<close>: reading the quarantined events back, replaying and
  dropping them. A JSONB column is a value of \<^typ>\<open>json_col\<close>; the reason column holds an error
  (its text).
\<close>

section \<open>Records\<close>

record DeadLetter =
  rec_EventID :: string
  rec_Schema :: string
  rec_Table :: string
  rec_Operation :: operation
  rec_SourceLSN :: string
  rec_SourceCommitTime :: int
  rec_Key :: row
  rec_Before :: row
  rec_After :: row
  rec_UnchangedColumns :: "string list"
  rec_Reason :: goerr
  rec_OccurredAt :: int

text \<open>\<open>DeadLetter.Event\<close>: the fields that are not stored are Go's zero values.\<close>

definition dead_letter_Event :: "DeadLetter \<Rightarrow> event" where
  "dead_letter_Event r =
     \<lparr>Version = EventVersion, ID = rec_EventID r, Schema = rec_Schema r, Table = rec_Table r,
      Operation = rec_Operation r, Key = rec_Key r, Before = rec_Before r, After = rec_After r,
      Source = \<lparr>TransactionID = 0, CommitLSN = rec_SourceLSN r, TransactionEndLSN = [],
                CommitTime = rec_SourceCommitTime r, Sequence = 0, TransactionEventCount = 0\<rparr>,
      UnchangedColumns = rec_UnchangedColumns r\<rparr>"

definition json_error :: goerr where
  "json_error = ServiceErr ''json''"

fun jsonRow :: "json_col \<Rightarrow> goerr + row" where
  "jsonRow SqlNull = Inr []"
| "jsonRow JsonNull = Inr []"
| "jsonRow (JsonRow r) = Inr r"
| "jsonRow (JsonStrings _) = Inl json_error"
| "jsonRow JsonOther = Inl json_error"

fun json_columns :: "json_col \<Rightarrow> goerr + string list" where
  "json_columns SqlNull = Inr []"
| "json_columns JsonNull = Inr []"
| "json_columns (JsonStrings l) = Inr l"
| "json_columns (JsonRow _) = Inl json_error"
| "json_columns JsonOther = Inl json_error"

definition scanDeadLetter :: "dead_row \<Rightarrow> goerr + DeadLetter" where
  "scanDeadLetter r =
     (case jsonRow (dl_key r) of
        Inl e \<Rightarrow> Inl (Wrapf ''decode dead-letter key: %w'' [] e)
      | Inr key \<Rightarrow>
     (case jsonRow (dl_before r) of
        Inl e \<Rightarrow> Inl (Wrapf ''decode dead-letter before row: %w'' [] e)
      | Inr before \<Rightarrow>
     (case jsonRow (dl_after r) of
        Inl e \<Rightarrow> Inl (Wrapf ''decode dead-letter after row: %w'' [] e)
      | Inr after \<Rightarrow>
     (case json_columns (dl_unchanged r) of
        Inl e \<Rightarrow> Inl (Wrapf ''decode dead-letter unchanged columns: %w'' [] e)
      | Inr unchanged \<Rightarrow>
          Inr \<lparr>rec_EventID = dl_event_id r, rec_Schema = dl_schema r, rec_Table = dl_table r,
               rec_Operation = op_of (dl_operation r), rec_SourceLSN = dl_lsn r, rec_SourceCommitTime = dl_time r,
               rec_Key = key, rec_Before = before, rec_After = after, rec_UnchangedColumns = unchanged,
               rec_Reason = dl_reason r, rec_OccurredAt = dl_occurred r\<rparr>))))"

section \<open>Listing and loading\<close>

fun scan_all :: "dead_row list \<Rightarrow> goerr + DeadLetter list" where
  "scan_all [] = Inr []"
| "scan_all (r # rs) =
     (case scanDeadLetter r of
        Inl e \<Rightarrow> Inl e
      | Inr record \<Rightarrow> (case scan_all rs of Inl e \<Rightarrow> Inl e | Inr records \<Rightarrow> Inr (record # records)))"

definition ListDeadLetters :: "dest_env \<Rightarrow> string \<Rightarrow> string \<Rightarrow> conn \<Rightarrow> (goerr + DeadLetter list) \<times> conn" where
  "ListDeadLetters env schema table c =
     (let arguments = (if schema \<noteq> [] then [PText schema] else []) @ (if table \<noteq> [] then [PText table] else []) in
      case exec env (DeadLetterListSQL (schema \<noteq> []) (table \<noteq> [])) arguments c of
        (Inl e, c1) \<Rightarrow> (Inl (Wrapf ''list dead letters: %w'' [] e), c1)
      | (Inr (DeadRows rows), c1) \<Rightarrow> (scan_all rows, c1)
      | (Inr _, c1) \<Rightarrow> (Inr [], c1))"

definition GetDeadLetter :: "dest_env \<Rightarrow> string \<Rightarrow> conn \<Rightarrow> (goerr + DeadLetter) \<times> conn" where
  "GetDeadLetter env eventID c =
     (case exec env DeadLetterGetSQL [PText eventID] c of
        (Inl e, c1) \<Rightarrow> (Inl (Wrapf ''load dead letter %s: %w'' [eventID] (Wrapf ''scan dead letter: %w'' [] e)), c1)
      | (Inr (DeadRows (r # rs)), c1) \<Rightarrow>
          (case scanDeadLetter r of
             Inl e \<Rightarrow> (Inl (Wrapf ''load dead letter %s: %w'' [eventID] e), c1)
           | Inr record \<Rightarrow> (Inr record, c1))
      | (Inr _, c1) \<Rightarrow> (Inl (Wrapf ''load dead letter %s: %w'' [eventID] (Errorf ''no such dead letter'' [])), c1))"

section \<open>Replaying and dropping\<close>

text \<open>
  In the message of a failed re-stash both errors are printed; the model keeps the first as the
  printed error.
\<close>

definition ReplayDeadLetter :: "dest_env \<Rightarrow> string \<Rightarrow> conn \<Rightarrow> (goerr + bool) \<times> conn" where
  "ReplayDeadLetter env eventID c =
     (case GetDeadLetter env eventID c of
        (Inl e, c1) \<Rightarrow> (Inl e, c1)
      | (Inr record, c1) \<Rightarrow>
     (case exec_err env DeleteMarkerSQL [PText eventID] c1 of
        (Some e, c2) \<Rightarrow> (Inl (Wrapf ''rewind quarantine marker %s: %w'' [eventID] e), c2)
      | (None, c2) \<Rightarrow>
     (case Apply env (dead_letter_Event record) c2 of
        (Inl err, c3) \<Rightarrow>
          (case RecordDeadLetter env (dead_letter_Event record) (Flatf ''replay failed: %v'' [] err) c3 of
             (Some restashErr, c4) \<Rightarrow>
               (Inl (Flatf ''replay %s failed: %v (and re-stashing the quarantine marker failed: %v)'' [eventID] err), c4)
           | (None, c4) \<Rightarrow> (Inl (Wrapf ''replay %s: %w'' [eventID] err), c4))
      | (Inr _, c3) \<Rightarrow>
     (case exec_err env DeleteDeadLetterSQL [PText eventID] c3 of
        (Some e, c4) \<Rightarrow> (Inl (Wrapf ''drop replayed dead letter %s: %w'' [eventID] e), c4)
      | (None, c4) \<Rightarrow> (Inr True, c4)))))"

definition DropDeadLetter :: "dest_env \<Rightarrow> string \<Rightarrow> conn \<Rightarrow> goerr option \<times> conn" where
  "DropDeadLetter env eventID c =
     (case begin_tx env c of
        (Some e, c1) \<Rightarrow> (Some (Wrapf ''begin dead-letter drop: %w'' [] e), c1)
      | (None, c1) \<Rightarrow>
     (case exec_err env DeleteDeadLetterSQL [PText eventID] c1 of
        (Some e, c2) \<Rightarrow> (Some (Wrapf ''drop dead-letter record %s: %w'' [eventID] e), snd (rollback env c2))
      | (None, c2) \<Rightarrow>
     (case exec_err env DeleteMarkerSQL [PText eventID] c2 of
        (Some e, c3) \<Rightarrow> (Some (Wrapf ''drop quarantine marker %s: %w'' [eventID] e), snd (rollback env c3))
      | (None, c3) \<Rightarrow>
     (case commit env c3 of
        (Some e, c4) \<Rightarrow> (Some (Wrapf ''commit dead-letter drop %s: %w'' [eventID] e), snd (rollback env c4))
      | (None, c4) \<Rightarrow> (None, snd (rollback env c4))))))"

end
