(* ===== verification/Applier_Runs.thy ===== *)
theory Applier_Runs
  imports Schema_Repair Dead_Letter Snapshot
begin

text \<open>
  What the operations of the applier do to the connection, whatever the server answers: inside a
  transaction they only run statements, so the committed database is untouched until COMMIT; and
  no statement of the apply path forgets an applied-event marker.
\<close>

section \<open>Running statements\<close>

text \<open>
  \<open>runs env P c c'\<close>: \<open>c'\<close> comes from \<open>c\<close> by statements satisfying \<open>P\<close>, by interactions that
  only advance the tick, and by changes of the column cache.
\<close>

inductive runs :: "dest_env \<Rightarrow> (sql_stmt \<Rightarrow> bool) \<Rightarrow> conn \<Rightarrow> conn \<Rightarrow> bool" for env P where
  runs_refl: "runs env P c c"
| runs_exec: "runs env P c c' \<Longrightarrow> P stmt \<Longrightarrow> runs env P c (snd (exec env stmt ps c'))"
| runs_cache: "runs env P c c' \<Longrightarrow> db c'' = db c' \<Longrightarrow> tx_view c'' = tx_view c' \<Longrightarrow> tx_aborted c'' = tx_aborted c'
    \<Longrightarrow> runs env P c c''"

lemma runs_trans: "runs env P c' c'' \<Longrightarrow> runs env P c c' \<Longrightarrow> runs env P c c''"
  by (induction rule: runs.induct) (auto intro: runs.intros)

lemma runs_exec_eq:
  assumes "exec env stmt ps c' = (r, c'')" and "runs env P c c'" and "P stmt"
  shows "runs env P c c''"
  using runs_exec [OF assms(2,3), of ps] assms(1) by simp

text \<open>
  The statements that keep every marker; and those of the apply path, which also leave the dead
  letters and the snapshot state alone.
\<close>

fun keeps_markers :: "sql_stmt \<Rightarrow> bool" where
  "keeps_markers DeleteMarkerSQL = False"
| "keeps_markers DeleteDeadLetterSQL = False"
| "keeps_markers _ = True"

fun applies :: "sql_stmt \<Rightarrow> bool" where
  "applies DeleteMarkerSQL = False"
| "applies DeleteDeadLetterSQL = False"
| "applies DeadLetterInsertSQL = False"
| "applies StateUpsertSQL = False"
| "applies _ = True"

lemma applies_keeps_markers: "applies stmt \<Longrightarrow> keeps_markers stmt"
  by (cases stmt) simp_all

lemma runs_mono: "runs env P c c' \<Longrightarrow> (\<And>stmt. P stmt \<Longrightarrow> Q stmt) \<Longrightarrow> runs env Q c c'"
  by (induction rule: runs.induct) (auto intro: runs.intros)

text \<open>\<open>marks d d'\<close>: every marker of \<open>d\<close> is in \<open>d'\<close>, with its position.\<close>

definition marks :: "database \<Rightarrow> database \<Rightarrow> bool" where
  "marks d d' \<longleftrightarrow> applied_events d \<subseteq>\<^sub>m applied_events d'"

lemma marks_refl [simp]: "marks d d"
  by (simp add: marks_def)

lemma marks_trans: "marks d d' \<Longrightarrow> marks d' d'' \<Longrightarrow> marks d d''"
  by (auto simp: marks_def intro: map_le_trans)

lemma marks_dom: "marks d d' \<Longrightarrow> applied_events d eid \<noteq> None \<Longrightarrow> applied_events d' eid \<noteq> None"
  unfolding marks_def map_le_def by (metis domIff)

lemma marks_insert_marker: "insert_marker d eid l = (new, d') \<Longrightarrow> marks d d'"
  by (auto simp: insert_marker_def marks_def map_le_def split: if_splits)

lemma on_table_marks:
  assumes "on_table d table columns f = Inr (res, d')"
  shows "applied_events d' = applied_events d"
  using assms by (auto simp: on_table_def split: option.splits if_splits sum.splits)

lemma run_stmt_marks:
  assumes "run_stmt env now stmt ps d = Inr (res, d')" and "keeps_markers stmt"
  shows "marks d d'"
  using assms
proof (cases stmt)
  case MarkerSQL
  then show ?thesis
    using assms by (auto simp: with_lsn_def split: option.splits prod.splits intro: marks_insert_marker)
next
  case MarkerReturningSQL
  then show ?thesis
    using assms by (auto simp: with_lsn_def split: option.splits prod.splits intro: marks_insert_marker)
next
  case (AddColumnSQL table column ty nullable dflt)
  then show ?thesis
    using assms by (auto simp: marks_def dest!: on_table_marks)
qed (use assms in \<open>auto simp: marks_def with_lsn_def dest: on_table_marks split: option.splits if_splits sum.splits\<close>)

text \<open>What one statement does to the connection.\<close>

lemma exec_cases:
  assumes "exec env stmt ps c = (r, c')"
  shows "(\<exists>e. r = Inl e) \<and> db c' = db c \<and> tx_view c' = tx_view c \<and>
           tx_aborted c' = (tx_aborted c \<or> tx_view c \<noteq> None) \<or>
         (\<exists>res d now. r = Inr res \<and> run_stmt env now stmt ps (view c) = Inr (res, d) \<and> has_meta (view c) stmt \<and>
            \<not> tx_aborted c \<and> tx_aborted c' = tx_aborted c \<and> view c' = d \<and>
            (case tx_view c of None \<Rightarrow> tx_view c' = None \<and> db c' = d | Some _ \<Rightarrow> tx_view c' = Some d \<and> db c' = db c))"
  using assms
  by (auto simp: exec_def fail_stmt_def put_view_def view_def split: if_splits option.splits sum.splits)

text \<open>In a transaction, statements leave the committed database alone and keep the markers.\<close>

definition tx_runs :: "conn \<Rightarrow> conn \<Rightarrow> bool" where
  "tx_runs c c' \<longleftrightarrow>
     (tx_view c \<noteq> None \<longrightarrow> db c' = db c \<and> tx_view c' \<noteq> None \<and> (tx_aborted c \<longrightarrow> tx_aborted c')) \<and> 
     (tx_view c = None \<longrightarrow> tx_view c' = None \<and> tx_aborted c' = tx_aborted c) \<and>
     marks (view c) (view c')"

lemma tx_runs_refl [simp]: "tx_runs c c"
  by (simp add: tx_runs_def)

lemma tx_runs_trans: "tx_runs c c' \<Longrightarrow> tx_runs c' c'' \<Longrightarrow> tx_runs c c''"
  by (auto simp: tx_runs_def intro: marks_trans)

lemma exec_tx_runs:
  assumes "exec env stmt ps c = (r, c')" and "keeps_markers stmt"
  shows "tx_runs c c'"
  using exec_cases [OF assms(1)] run_stmt_marks [OF _ assms(2)]
  by (auto simp: tx_runs_def view_def split: option.splits)

lemma keeps_tx_runs: "runs env keeps_markers c c' \<Longrightarrow> tx_runs c c'"
proof (induction rule: runs.induct)
  case (runs_exec c c' stmt ps)
  obtain r c'' where "exec env stmt ps c' = (r, c'')"
    by (cases "exec env stmt ps c'") auto
  with exec_tx_runs [OF this] runs_exec show ?case
    by (auto intro: tx_runs_trans)
next
  case (runs_cache c c' c'')
  then show ?case by (auto simp: tx_runs_def view_def)
qed simp

lemma runs_tx_runs: "runs env applies c c' \<Longrightarrow> tx_runs c c'"
  using keeps_tx_runs runs_mono applies_keeps_markers by blast

text \<open>The apply path leaves the dead letters and the state of the snapshot as they are.\<close>

lemma on_table_other:
  "on_table d table columns f = Inr (res, d') \<Longrightarrow> dead_letters d' = dead_letters d \<and> cdc_state d' = cdc_state d"
  by (auto simp: on_table_def split: option.splits if_splits sum.splits)

lemma run_stmt_applies:
  assumes "run_stmt env now stmt ps d = Inr (res, d')" and "applies stmt"
  shows "dead_letters d' = dead_letters d \<and> cdc_state d' = cdc_state d"
  using assms by (cases stmt)
    (auto simp: with_lsn_def insert_marker_def split: option.splits prod.splits if_splits sum.splits dest: on_table_other)

lemma runs_applies_keeps:
  "runs env applies c c' \<Longrightarrow> dead_letters (view c') = dead_letters (view c) \<and> cdc_state (view c') = cdc_state (view c)"
proof (induction rule: runs.induct)
  case (runs_exec c c' stmt ps)
  obtain r c'' where r: "exec env stmt ps c' = (r, c'')"
    by (cases "exec env stmt ps c'") auto
  from exec_cases [OF r] run_stmt_applies [OF _ runs_exec.hyps(2)] runs_exec.IH r show ?case
    by (fastforce simp: view_def split: option.splits)
next
  case (runs_cache c c' c'')
  then have "view c'' = view c'"
    by (cases "tx_view c'") (simp_all add: view_def)
  with runs_cache.IH show ?case by simp
qed simp

section \<open>The operations\<close>

named_theorems run_intros "the operations run statements"

lemma runs_exec_err [run_intros]:
  "exec_err env stmt ps c' = (r, c'') \<Longrightarrow> runs env P c c' \<Longrightarrow> P stmt \<Longrightarrow> runs env P c c''"
  by (auto simp: exec_err_def dest: runs_exec_eq split: prod.splits sum.splits)

lemma runs_query_row [run_intros]:
  "query_row env stmt ps c' = (r, c'') \<Longrightarrow> runs env P c c' \<Longrightarrow> P stmt \<Longrightarrow> runs env P c c''"
  by (auto simp: query_row_def dest: runs_exec_eq split: prod.splits sum.splits sql_result.splits list.splits)

lemma runs_execWithPoison [run_intros]:
  "execWithPoison env stmt ps msg c' = (r, c'') \<Longrightarrow> runs env P c c' \<Longrightarrow> P stmt \<Longrightarrow> runs env P c c''"
  by (auto simp: execWithPoison_def dest: runs_exec_eq split: prod.splits sum.splits)

lemma runs_markApplied [run_intros]:
  "markApplied env eid lsn c' = (r, c'') \<Longrightarrow> runs env P c c' \<Longrightarrow> P MarkerReturningSQL \<Longrightarrow> runs env P c c''"
  by (auto simp: markApplied_def dest: runs_query_row split: prod.splits sum.splits if_splits)

lemma runs_tableWatermark [run_intros]:
  "tableWatermark env table c' = (r, c'') \<Longrightarrow> runs env P c c' \<Longrightarrow> P WatermarkSelectSQL \<Longrightarrow> runs env P c c''"
  by (auto simp: tableWatermark_def Let_def dest: runs_query_row split: prod.splits sum.splits if_splits option.splits)

lemma runs_tableColumns [run_intros]:
  assumes "tableColumns env schema table c' = (r, c'')" and "runs env P c c'" and "P ColumnsSQL"
  shows "runs env P c c''"
proof -
  let ?q = "qualified_name schema table"
  let ?c1 = "c'\<lparr>columnsSeenAt := (columnsSeenAt c')(?q \<mapsto> clock env (tick c'))\<rparr>"
  obtain x c2 where x: "exec env ColumnsSQL [PText ?q] ?c1 = (x, c2)"
    by (cases "exec env ColumnsSQL [PText ?q] ?c1") auto
  have "runs env P c ?c1"
    by (rule runs_cache [OF assms(2)]) simp_all
  from runs_exec_eq [OF x this assms(3)] have c2: "runs env P c c2" .
  have "c'' = c' \<or> (db c'' = db c2 \<and> tx_view c'' = tx_view c2 \<and> tx_aborted c'' = tx_aborted c2)"
    using assms(1) x
    by (auto simp: tableColumns_def Let_def split: if_splits option.splits sum.splits)
  then show ?thesis
    using runs_cache [OF c2] assms(2) by blast
qed

lemma runs_applyUpdatePreserving [run_intros]:
  "applyUpdatePreserving env table cols keyCols types ps kvs msg c' = (r, c'') \<Longrightarrow> runs env applies c c' \<Longrightarrow> runs env applies c c''"
  by (auto simp: applyUpdatePreserving_def elim!: runs_exec_err runs_query_row
      split: prod.splits sum.splits option.splits if_splits)

abbreviation apply_runs :: "dest_env \<Rightarrow> conn \<Rightarrow> conn \<Rightarrow> bool" where
  "apply_runs env \<equiv> runs env applies"

lemma runs_tick: "runs env P c c' \<Longrightarrow> runs env P c (c'\<lparr>tick := n\<rparr>)"
  by (rule runs_cache) simp_all

lemma runs_applyTruncateInTx:
  "applyTruncateInTx env event c' = (r, c'') \<Longrightarrow> apply_runs env c c' \<Longrightarrow> apply_runs env c c''"
  by (auto simp: applyTruncateInTx_def Let_def elim!: runs_exec_err runs_tableWatermark runs_markApplied
      split: prod.splits sum.splits option.splits if_splits bool.splits)

lemma runs_apply_upsert:
  "apply_upsert env table types event c' = (r, c'') \<Longrightarrow> apply_runs env c c' \<Longrightarrow> apply_runs env c c''"
  by (auto simp: apply_upsert_def Let_def elim!: runs_execWithPoison runs_applyUpdatePreserving
      split: prod.splits sum.splits option.splits if_splits)

lemma runs_apply_delete:
  "apply_delete env table types event c' = (r, c'') \<Longrightarrow> apply_runs env c c' \<Longrightarrow> apply_runs env c c''"
  by (auto simp: apply_delete_def elim!: runs_execWithPoison split: prod.splits sum.splits)

lemma runs_applyMutation:
  "applyMutation env event c' = (r, c'') \<Longrightarrow> apply_runs env c c' \<Longrightarrow> apply_runs env c c''"
  by (auto simp: applyMutation_def Let_def elim!: runs_apply_upsert runs_apply_delete runs_tableColumns
      split: prod.splits sum.splits option.splits operation.splits)

lemma runs_ApplyInTx:
  "ApplyInTx env event c' = (r, c'') \<Longrightarrow> apply_runs env c c' \<Longrightarrow> apply_runs env c c''"
  by (auto simp: ApplyInTx_def elim!: runs_applyMutation runs_markApplied runs_applyTruncateInTx
      split: prod.splits sum.splits option.splits if_splits bool.splits)

lemma runs_run_markers:
  "run_markers env i events c' = (r, c'') \<Longrightarrow> apply_runs env c c' \<Longrightarrow> apply_runs env c c''"
  by (induction env i events c' arbitrary: r c'' rule: run_markers.induct)
    (auto dest: runs_exec_eq split: prod.splits sum.splits)

definition queue_applies :: "queued_exec list \<Rightarrow> bool" where
  "queue_applies queue \<longleftrightarrow> (\<forall>(i, event, stmt, ps) \<in> set queue. applies stmt)"

lemma runs_run_queued:
  "run_queued env queue c' = (r, c'') \<Longrightarrow> queue_applies queue \<Longrightarrow> apply_runs env c c' \<Longrightarrow> apply_runs env c c''"
  by (induction env queue c' arbitrary: r c'' rule: run_queued.induct)
    (auto simp: queue_applies_def dest: runs_exec_eq split: prod.splits sum.splits)

lemma runs_close_batch: "close_batch env msg c' = (r, c'') \<Longrightarrow> runs env P c c' \<Longrightarrow> runs env P c c''"
  by (auto simp: close_batch_def intro: runs_tick split: option.splits)

lemma runs_flush:
  "flush env queue c' = (r, c'') \<Longrightarrow> queue_applies queue \<Longrightarrow> apply_runs env c c' \<Longrightarrow> apply_runs env c c''"
  by (auto simp: flush_def elim!: runs_close_batch runs_run_queued split: if_splits prod.splits batch_result.splits)

lemma runs_applyTruncateBatched:
  "applyTruncateBatched env event c' = (r, c'') \<Longrightarrow> apply_runs env c c' \<Longrightarrow> apply_runs env c c''"
  by (auto simp: applyTruncateBatched_def Let_def elim!: runs_exec_err runs_tableWatermark
      split: prod.splits sum.splits option.splits if_splits)

lemma batch_delete_runs:
  assumes "batch_delete env event c' = (p, c'')" and "apply_runs env c c'"
  shows "apply_runs env c c'' \<and> (\<forall>stmt ps. p = Queue stmt ps \<longrightarrow> applies stmt)"
  using assms by (auto simp: batch_delete_def Let_def elim: runs_tableColumns
      split: prod.splits sum.splits option.splits)

lemma batch_upsert_runs:
  assumes "batch_upsert env event c' = (p, c'')" and "apply_runs env c c'"
  shows "apply_runs env c c'' \<and> (\<forall>stmt ps. p = Queue stmt ps \<longrightarrow> applies stmt)"
  using assms by (auto simp: batch_upsert_def Let_def elim: runs_tableColumns
      split: prod.splits sum.splits option.splits if_splits)

text \<open>Deletes and writes share the code that queues or runs them.\<close>

definition batch_prepare :: "dest_env \<Rightarrow> event \<Rightarrow> conn \<Rightarrow> prepared \<times> conn" where
  "batch_prepare env event c =
     (if Operation event = OperationDelete then batch_delete env event c else batch_upsert env event c)"

definition batch_write ::
  "dest_env \<Rightarrow> nat \<Rightarrow> event \<Rightarrow> (event \<times> bool) list \<Rightarrow> queued_exec list \<Rightarrow> conn \<Rightarrow> batch_result \<times> conn" where
  "batch_write env i event rest queue c =
     (case batch_prepare env event c of
        (Refuse e, c1) \<Rightarrow> (BatchPoison i event e, c1)
      | (Queue stmt ps, c1) \<Rightarrow> batch_mutations env (Suc i) rest (queue @ [(i, event, stmt, ps)]) c1
      | (Preserve columns keyColumns dataTypes parameters keyValues, c1) \<Rightarrow>
          (case flush env queue c1 of
             (BatchOk, c2) \<Rightarrow>
               (case applyUpdatePreserving env (qualified_name (Schema event) (Table event)) columns keyColumns
                       dataTypes parameters keyValues (describe_write ''upsert'' event) c2 of
                  (Some e, c3) \<Rightarrow> (BatchPoison i event e, c3)
                | (None, c3) \<Rightarrow> batch_mutations env (Suc i) rest [] c3)
           | r \<Rightarrow> r))"

definition batch_truncate ::
  "dest_env \<Rightarrow> nat \<Rightarrow> event \<Rightarrow> (event \<times> bool) list \<Rightarrow> queued_exec list \<Rightarrow> conn \<Rightarrow> batch_result \<times> conn" where
  "batch_truncate env i event rest queue c =
     (case flush env queue c of
        (BatchOk, c1) \<Rightarrow>
          (case applyTruncateBatched env event c1 of
             (Some e, c2) \<Rightarrow> (BatchPoison i event e, c2)
           | (None, c2) \<Rightarrow> batch_mutations env (Suc i) rest [] c2)
      | r \<Rightarrow> r)"

lemma batch_mutations_Cons:
  "batch_mutations env i ((event, fresh) # rest) queue c =
     (if \<not> fresh then batch_mutations env (Suc i) rest queue c
      else (case Operation event of
              OperationTruncate \<Rightarrow> batch_truncate env i event rest queue c
            | OtherOp _ \<Rightarrow> batch_mutations env (Suc i) rest queue c
            | _ \<Rightarrow> batch_write env i event rest queue c))"
  by (simp add: batch_truncate_def batch_write_def batch_prepare_def split: operation.split)

declare batch_mutations.simps(2) [simp del]

lemma batch_prepare_runs:
  assumes "batch_prepare env event c' = (p, c'')" and "apply_runs env c c'"
  shows "apply_runs env c c'' \<and> (\<forall>stmt ps. p = Queue stmt ps \<longrightarrow> applies stmt)"
  using assms batch_delete_runs batch_upsert_runs by (auto simp: batch_prepare_def split: if_splits)

lemma queue_applies_simps [simp]:
  "queue_applies []"
  "queue_applies (q @ [(i, event, stmt, ps)]) \<longleftrightarrow> queue_applies q \<and> applies stmt"
  by (auto simp: queue_applies_def)

lemma runs_batch_mutations:
  "batch_mutations env i events queue c' = (r, c'') \<Longrightarrow> queue_applies queue \<Longrightarrow> apply_runs env c c' \<Longrightarrow> apply_runs env c c''"
proof (induction events arbitrary: i queue c' r c'')
  case Nil
  then show ?case
    using runs_flush by auto
next
  case (Cons a events)
  obtain event fresh where a: "a = (event, fresh)"
    by (cases a) auto
  have trunc: "apply_runs env c c''" if "batch_truncate env i event events queue c' = (r, c'')"
    using that Cons.prems(2,3)
    by (auto simp: batch_truncate_def split: prod.splits batch_result.splits option.splits
        dest!: runs_flush [OF _ Cons.prems(2,3)] dest: runs_applyTruncateBatched Cons.IH)
  have writes: "apply_runs env c c''" if "batch_write env i event events queue c' = (r, c'')"
  proof -
    obtain p c1 where p: "batch_prepare env event c' = (p, c1)"
      by (cases "batch_prepare env event c'") auto
    from batch_prepare_runs [OF p Cons.prems(3)] have c1: "apply_runs env c c1" "\<And>stmt ps. p = Queue stmt ps \<Longrightarrow> applies stmt"
      by auto
    show ?thesis
      using that p c1 Cons.prems(2)
      by (auto simp: batch_write_def split: prepared.splits prod.splits batch_result.splits option.splits
          dest!: runs_flush [OF _ Cons.prems(2) c1(1)] dest: runs_applyUpdatePreserving Cons.IH)
  qed
  show ?case
    using Cons.prems trunc writes Cons.IH unfolding a batch_mutations_Cons
    by (auto split: if_splits operation.splits)
qed

lemma runs_ApplyBatch:
  "ApplyBatch env events c' = (r, c'') \<Longrightarrow> apply_runs env c c' \<Longrightarrow> apply_runs env c c''"
  by (auto simp: ApplyBatch_def elim!: runs_batch_mutations runs_close_batch runs_run_markers
      split: if_splits prod.splits sum.splits batch_result.splits)

lemma runs_UpsertSnapshotRow:
  "UpsertSnapshotRow env schema table after key lsn t c' = (r, c'') \<Longrightarrow> apply_runs env c c' \<Longrightarrow> apply_runs env c c''"
  by (auto simp: UpsertSnapshotRow_def elim!: runs_execWithPoison runs_tableColumns
      split: prod.splits sum.splits option.splits)

lemma runs_ensureDestinationType:
  "ensureDestinationType env src schema name c' = (r, c'') \<Longrightarrow> apply_runs env c c' \<Longrightarrow> apply_runs env c c''"
  by (auto simp: ensureDestinationType_def elim!: runs_exec_err runs_query_row
      split: prod.splits sum.splits option.splits if_splits)

lemma runs_repair_columns:
  "repair_columns env src event added columns c' = (r, c'') \<Longrightarrow> apply_runs env c c' \<Longrightarrow> apply_runs env c c''"
proof (induction columns arbitrary: added c')
  case Nil
  then show ?case by simp
next
  case (Cons column columns)
  have type: "apply_runs env c c1"
    if "(if k then ensureDestinationType env src s n c' else (None, c')) = (x, c1)" for k s n x c1
    using that Cons.prems(2) runs_ensureDestinationType by (auto split: if_splits)
  show ?case
    using Cons.prems
    by (auto simp: Let_def split: sum.splits option.splits prod.splits
        dest!: type intro: Cons.IH dest: runs_exec_err)
qed

lemma runs_RepairSchema:
  assumes "RepairSchema env src event c' = (r, c'')" and "apply_runs env c c'"
  shows "apply_runs env c c''"
proof -
  obtain x c1 where x: "tableColumns env (Schema event) (Table event) c' = (x, c1)"
    by (cases "tableColumns env (Schema event) (Table event) c'") auto
  have c1: "apply_runs env c c1"
    using runs_tableColumns [OF x assms(2)] by simp
  have inv: "runs env applies c (invalidateColumns s t c2)" if "apply_runs env c c2" for s t c2
    using that by (rule runs_cache) (simp_all add: invalidateColumns_def)
  show ?thesis
    using assms(1) x c1
    by (auto simp: RepairSchema_def Let_def split: sum.splits option.splits prod.splits if_splits
        dest: runs_repair_columns [OF _ c1] intro!: inv)
qed

end
