(* ===== verification/Applier_Markers.thy ===== *)
theory Applier_Markers
  imports Applier_Runs
begin

text \<open>
  Transactions of the applier: BEGIN, statements, COMMIT or ROLLBACK. An event that was applied or
  quarantined has its marker in the committed database; an operation that fails leaves the
  committed database as it was, unless its COMMIT failed after reaching the server.
\<close>

section \<open>Transactions\<close>

definition idle :: "conn \<Rightarrow> bool" where
  "idle c \<longleftrightarrow> tx_view c = None \<and> \<not> tx_aborted c"

definition marked :: "database \<Rightarrow> event \<Rightarrow> bool" where
  "marked d event \<longleftrightarrow> applied_events d (ID event) \<noteq> None"

lemma marks_marked: "marks d d' \<Longrightarrow> marked d e \<Longrightarrow> marked d' e"
  by (simp add: marked_def marks_dom)

text \<open>No COMMIT fails after it has reached the server.\<close>

definition commits_clean :: "dest_env \<Rightarrow> bool" where
  "commits_clean env \<longleftrightarrow> (\<forall>n e. commit_fault env n \<noteq> Some (e, True))"

lemma begin_tx_idle:
  assumes "begin_tx env c = (r, c')" and "idle c"
  shows "db c' = db c \<and> (r \<noteq> None \<longrightarrow> idle c') \<and> (r = None \<longrightarrow> tx_view c' = Some (db c) \<and> \<not> tx_aborted c')"
  using assms by (auto simp: begin_tx_def idle_def view_def split: option.splits)

lemma rollback_idle [simp]:
  "db (snd (rollback env c)) = db c"
  "tx_view c \<noteq> None \<Longrightarrow> idle (snd (rollback env c))"
  "idle c \<Longrightarrow> snd (rollback env c) = c"
  by (auto simp: rollback_def idle_def split: option.splits)

lemma commit_idle:
  assumes "commit env c = (r, c')" and "tx_view c = Some d"
  shows "idle c' \<and> (r = None \<longrightarrow> db c' = d \<and> \<not> tx_aborted c) \<and> (db c' = db c \<or> db c' = d) \<and> (commits_clean env \<longrightarrow> r \<noteq> None \<longrightarrow> db c' = db c)"
  using assms by (auto simp: commit_def idle_def Let_def commits_clean_def split: if_splits option.splits prod.splits)

text \<open>
  The frame every operation of the applier has: statements between BEGIN and COMMIT. Whatever the
  body answers, the connection is idle again; the markers are kept; on an error the database is
  the old one.
\<close>

definition tx_frame ::
  "dest_env \<Rightarrow> (goerr \<Rightarrow> 'e) \<Rightarrow> (goerr \<Rightarrow> 'e) \<Rightarrow> (conn \<Rightarrow> ('e + 'a) \<times> conn) \<Rightarrow> conn \<Rightarrow> ('e + 'a) \<times> conn" where
  "tx_frame env begin_err commit_err body c =
     (case begin_tx env c of
        (Some e, c1) \<Rightarrow> (Inl (begin_err e), c1)
      | (None, c1) \<Rightarrow>
     (case body c1 of
        (Inl e, c2) \<Rightarrow> (Inl e, snd (rollback env c2))
      | (Inr x, c2) \<Rightarrow>
     (case commit env c2 of
        (Some e, c3) \<Rightarrow> (Inl (commit_err e), snd (rollback env c3))
      | (None, c3) \<Rightarrow> (Inr x, snd (rollback env c3)))))"

lemma tx_frame_outcome:
  assumes "tx_frame env be ce body c = (r, c')" and "idle c"
    and runs: "\<And>c1 x c2. body c1 = (x, c2) \<Longrightarrow> runs env keeps_markers c1 c2"
  shows "idle c' \<and> marks (db c) (db c') \<and>
    (case r of
       Inl e \<Rightarrow> commits_clean env \<longrightarrow> db c' = db c
     | Inr x \<Rightarrow> \<exists>c1 c2. tx_view c1 = Some (db c) \<and> \<not> tx_aborted c1 \<and> body c1 = (Inr x, c2) \<and>
                 tx_view c2 = Some (db c') \<and> \<not> tx_aborted c2)"
proof -
  obtain b c1 where b: "begin_tx env c = (b, c1)"
    by (cases "begin_tx env c") auto
  note b1 = begin_tx_idle [OF b assms(2)]
  show ?thesis
  proof (cases b)
    case (Some e)
    then show ?thesis
      using assms(1) b b1 by (auto simp: tx_frame_def)
  next
    case None
    obtain x c2 where x: "body c1 = (x, c2)"
      by (cases "body c1") auto
    from runs [OF x, THEN keeps_tx_runs] b1 None obtain d
      where d: "tx_view c2 = Some d" "db c2 = db c" "marks (db c) d"
      by (auto simp: tx_runs_def view_def)
    show ?thesis
    proof (cases x)
      case (Inl e)
      then have "r = Inl e" "c' = snd (rollback env c2)"
        using assms(1) b x None by (auto simp: tx_frame_def)
      then show ?thesis
        using d by auto
    next
      case (Inr y)
      obtain e c3 where e: "commit env c2 = (e, c3)"
        by (cases "commit env c2") auto
      note e1 = commit_idle [OF e d(1)]
      have r: "r = (case e of None \<Rightarrow> Inr y | Some err \<Rightarrow> Inl (ce err))" "c' = c3"
        using assms(1) b x None Inr e e1 by (auto simp: tx_frame_def split: option.splits)
      show ?thesis
        using r d e1 b1 None x Inr by (auto split: option.splits)
    qed
  qed
qed

section \<open>Apply\<close>

lemma Apply_frame:
  "Validate event = None \<Longrightarrow>
   Apply env event c = tx_frame env (Wrapf ''begin destination transaction: %w'' []) (Wrapf ''commit destination transaction: %w'' [])
     (ApplyInTx env event) c"
  by (simp add: Apply_def tx_frame_def)

lemma exec_marker:
  assumes "exec env MarkerReturningSQL [PText eid, PText lsn] c = (Inr r, c')"
  shows "applied_events (view c') eid \<noteq> None"
proof -
  have "applied_events d eid \<noteq> None"
    if "run_stmt env now MarkerReturningSQL [PText eid, PText lsn] d0 = Inr (res, d)" for now d0 res d
    using that by (auto simp: with_lsn_def insert_marker_def text_param_def nth_param_def split: option.splits if_splits)
  with exec_cases [OF assms] show ?thesis by blast
qed

text \<open>
  An error that looks like \<open>pgx.ErrNoRows\<close> would be taken for a duplicate; but it aborts the
  transaction, so nothing is committed on it.
\<close>

lemma markApplied_marks:
  assumes "markApplied env eid lsn c = (Inr b, c')" and "tx_view c \<noteq> None"
  shows "applied_events (view c') eid \<noteq> None \<or> tx_aborted c'"
proof -
  obtain r c1 where r: "exec env MarkerReturningSQL [PText eid, PText lsn] c = (r, c1)"
    by (cases "exec env MarkerReturningSQL [PText eid, PText lsn] c") auto
  have c': "c' = c1"
    using assms r by (auto simp: markApplied_def query_row_def split: sum.splits if_splits sql_result.splits list.splits)
  show ?thesis
    using exec_marker exec_cases [OF r] r assms(2) unfolding c' by (cases r) auto
qed

lemma marks_or_aborted:
  assumes "applied_events (view c) eid \<noteq> None \<or> tx_aborted c" and "tx_view c \<noteq> None" and "tx_runs c c'"
  shows "applied_events (view c') eid \<noteq> None \<or> tx_aborted c'"
  using assms marks_dom unfolding tx_runs_def by blast

lemma applyTruncateInTx_marks_first:
  assumes "applyTruncateInTx env event c = (Inr b, c')"
  shows "\<exists>b1 c1. markApplied env (ID event) (CommitLSN (Source event)) c = (Inr b1, c1) \<and> apply_runs env c1 c'"
  using assms
  by (auto simp: applyTruncateInTx_def Let_def split: prod.splits sum.splits bool.splits option.splits if_splits
      intro: runs_refl) (meson applies.simps runs_exec_err runs_refl runs_tableWatermark)+

lemma ApplyInTx_marks_first:
  assumes "ApplyInTx env event c = (Inr b, c')"
  shows "\<exists>b1 c1. markApplied env (ID event) (CommitLSN (Source event)) c = (Inr b1, c1) \<and> apply_runs env c1 c'"
proof (cases "Operation event = OperationTruncate")
  case True
  with assms have "applyTruncateInTx env event c = (Inr b, c')"
    by (auto simp: ApplyInTx_def split: option.splits)
  then show ?thesis by (rule applyTruncateInTx_marks_first)
next
  case False
  with assms show ?thesis
    by (auto simp: ApplyInTx_def intro: runs_refl runs_applyMutation
        split: option.splits prod.splits sum.splits bool.splits)
qed

lemma ApplyInTx_marks:
  assumes "ApplyInTx env event c = (Inr b, c')" and "tx_view c \<noteq> None"
  shows "marked (view c') event \<or> tx_aborted c'"
proof -
  obtain b1 c1 where m: "markApplied env (ID event) (CommitLSN (Source event)) c = (Inr b1, c1)"
    and rest: "apply_runs env c1 c'"
    using ApplyInTx_marks_first [OF assms(1)] by blast
  have "apply_runs env c c1"
    using m by (auto intro: runs_markApplied runs_refl)
  then have "tx_view c1 \<noteq> None"
    using assms(2) runs_tx_runs by (auto simp: tx_runs_def)
  with marks_or_aborted [OF markApplied_marks [OF m assms(2)] _ runs_tx_runs [OF rest]] show ?thesis
    by (simp add: marked_def)
qed

text \<open>The outcome of \<open>Apply\<close>.\<close>

lemma Apply_outcome:
  assumes "Apply env event c = (r, c')" and "idle c"
  shows "idle c' \<and> marks (db c) (db c') \<and>
    (case r of Inl e \<Rightarrow> commits_clean env \<longrightarrow> db c' = db c | Inr b \<Rightarrow> marked (db c') event)"
proof (cases "Validate event")
  case (Some e)
  then show ?thesis
    using assms by (auto simp: Apply_def)
next
  case None
  have runs: "runs env keeps_markers c1 c2" if "ApplyInTx env event c1 = (x, c2)" for c1 x c2
    using runs_ApplyInTx [OF that runs_refl] runs_mono applies_keeps_markers by blast
  have o: "idle c' \<and> marks (db c) (db c') \<and>
    (case r of
       Inl e \<Rightarrow> commits_clean env \<longrightarrow> db c' = db c
     | Inr x \<Rightarrow> \<exists>c1 c2. tx_view c1 = Some (db c) \<and> \<not> tx_aborted c1 \<and> ApplyInTx env event c1 = (Inr x, c2) \<and>
                 tx_view c2 = Some (db c') \<and> \<not> tx_aborted c2)"
    using assms runs unfolding Apply_frame [OF None] by (rule tx_frame_outcome)
  have "marked (db c') event" if r: "r = Inr b" for b
  proof -
    obtain c1 c2 where c: "tx_view c1 = Some (db c)" "ApplyInTx env event c1 = (Inr b, c2)" "tx_view c2 = Some (db c')" "\<not> tx_aborted c2"
      using o unfolding r sum.case by blast
    with ApplyInTx_marks [OF c(2)] show ?thesis
      by (simp add: view_def)
  qed
  with o show ?thesis
    by (auto split: sum.splits)
qed

lemma Apply_keeps_letters:
  assumes "Apply env event c = (r, c')" and "idle c"
  shows "dead_letters (db c') = dead_letters (db c) \<and> cdc_state (db c') = cdc_state (db c)"
proof (cases "Validate event")
  case (Some e)
  then show ?thesis using assms by (auto simp: Apply_def)
next
  case None
  obtain b c1 where b: "begin_tx env c = (b, c1)"
    by (cases "begin_tx env c") auto
  note b1 = begin_tx_idle [OF b assms(2)]
  show ?thesis
  proof (cases b)
    case (Some e)
    then show ?thesis using assms(1) None b b1 by (auto simp: Apply_def)
  next
    case begun: None
    obtain x c2 where x: "ApplyInTx env event c1 = (x, c2)"
      by (cases "ApplyInTx env event c1") auto
    note keep = runs_applies_keeps [OF runs_ApplyInTx [OF x runs_refl]]
    obtain d where d: "tx_view c2 = Some d" "db c2 = db c"
      using runs_tx_runs [OF runs_ApplyInTx [OF x runs_refl]] b1 begun by (auto simp: tx_runs_def)
    have kd: "dead_letters d = dead_letters (db c) \<and> cdc_state d = cdc_state (db c)"
      using keep d b1 begun by (simp add: view_def)
    obtain e c3 where e: "commit env c2 = (e, c3)"
      by (cases "commit env c2") auto
    note e1 = commit_idle [OF e d(1)]
    have "db c' = db c2 \<or> db c' = db c3"
      using assms(1) None b begun x e by (auto simp: Apply_def split: sum.splits option.splits)
    then show ?thesis
      using e1 d kd by auto
  qed
qed

section \<open>Quarantine\<close>

definition dead_letter_body :: "dest_env \<Rightarrow> event \<Rightarrow> goerr \<Rightarrow> conn \<Rightarrow> (goerr + unit) \<times> conn" where
  "dead_letter_body env event reason c =
     (case markApplied env (ID event) (CommitLSN (Source event)) c of
        (Inl e, c2) \<Rightarrow> (Inl e, c2)
      | (Inr _, c2) \<Rightarrow>
     (case exec_err env DeadLetterInsertSQL (dead_letter_values event reason) c2 of
        (Some e, c3) \<Rightarrow> (Inl (Wrapf ''insert dead-letter record: %w'' [] e), c3)
      | (None, c3) \<Rightarrow> (Inr (), c3)))"

lemma RecordDeadLetter_frame:
  "RecordDeadLetter env event reason c =
     (case tx_frame env (Wrapf ''begin dead-letter transaction: %w'' []) (Wrapf ''commit dead-letter transaction: %w'' [])
             (dead_letter_body env event reason) c of
        (Inl e, c') \<Rightarrow> (Some e, c') | (Inr _, c') \<Rightarrow> (None, c'))"
  by (simp add: RecordDeadLetter_def tx_frame_def dead_letter_body_def split: prod.split option.split sum.split)

text \<open>The dead letter of an event is on record.\<close>

definition quarantined :: "database \<Rightarrow> event \<Rightarrow> bool" where
  "quarantined d event \<longleftrightarrow> ID event \<in> dl_event_id ` set (dead_letters d)"

lemma upsert_dead_letter_ids:
  "dl_event_id ` set (upsert_dead_letter row ds) = insert (dl_event_id row) (dl_event_id ` set ds)"
proof (cases "\<exists>r \<in> set ds. dl_event_id r = dl_event_id row")
  case True
  have "(\<lambda>r :: dead_row. dl_event_id (if dl_event_id r = dl_event_id row then r\<lparr>dl_reason := dl_reason row\<rparr> else r)) = dl_event_id"
    by auto
  with True have "dl_event_id ` set (upsert_dead_letter row ds) = dl_event_id ` set ds"
    by (simp only: upsert_dead_letter_def if_True list.set_map image_image)
  moreover have "dl_event_id row \<in> dl_event_id ` set ds"
    using True by (metis image_eqI)
  ultimately show ?thesis by (simp add: insert_absorb)
qed (auto simp: upsert_dead_letter_def)

lemma exec_dead_letter:
  assumes "exec_err env DeadLetterInsertSQL (dead_letter_values event reason) c = (None, c')"
  shows "quarantined (view c') event"
proof -
  have "quarantined d event"
    if "run_stmt env now DeadLetterInsertSQL (dead_letter_values event reason) d0 = Inr (res, d)" for now d0 res d
    using that by (auto simp: quarantined_def dead_letter_params_def dead_letter_values_def upsert_dead_letter_ids
        text_param_def split: option.splits)
  moreover obtain r where "exec env DeadLetterInsertSQL (dead_letter_values event reason) c = (Inr r, c')"
    using assms by (auto simp: exec_err_def split: prod.splits sum.splits)
  ultimately show ?thesis
    using exec_cases by fastforce
qed

lemma runs_dead_letter_body: "dead_letter_body env event reason c = (x, c') \<Longrightarrow> runs env keeps_markers c c'"
  by (auto simp: dead_letter_body_def split: prod.splits sum.splits option.splits)
    (meson keeps_markers.simps runs_exec_err runs_refl runs_markApplied)+

lemma RecordDeadLetter_outcome:
  assumes "RecordDeadLetter env event reason c = (r, c')" and "idle c"
  shows "idle c' \<and> marks (db c) (db c') \<and>
    (case r of Some e \<Rightarrow> commits_clean env \<longrightarrow> db c' = db c
             | None \<Rightarrow> marked (db c') event \<and> quarantined (db c') event)"
proof -
  obtain x where x: "tx_frame env (Wrapf ''begin dead-letter transaction: %w'' [])
      (Wrapf ''commit dead-letter transaction: %w'' []) (dead_letter_body env event reason) c = (x, c')"
    and r: "r = (case x of Inl e \<Rightarrow> Some e | Inr _ \<Rightarrow> None)"
    using assms(1) unfolding RecordDeadLetter_frame by (auto split: prod.splits sum.splits)
  have o: "idle c' \<and> marks (db c) (db c') \<and>
    (case x of
       Inl e \<Rightarrow> commits_clean env \<longrightarrow> db c' = db c
     | Inr u \<Rightarrow> \<exists>c1 c2. tx_view c1 = Some (db c) \<and> \<not> tx_aborted c1 \<and> dead_letter_body env event reason c1 = (Inr u, c2) \<and>
                 tx_view c2 = Some (db c') \<and> \<not> tx_aborted c2)"
    using x assms(2) by (rule tx_frame_outcome) (rule runs_dead_letter_body)
  have "marked (db c') event \<and> quarantined (db c') event" if xu: "x = Inr u" for u
  proof -
    obtain c1 c2 where c: "tx_view c1 \<noteq> None" "dead_letter_body env event reason c1 = (Inr u, c2)"
        "tx_view c2 = Some (db c')" "\<not> tx_aborted c2"
      using o unfolding xu sum.case by blast
    then obtain b c3 where m: "markApplied env (ID event) (CommitLSN (Source event)) c1 = (Inr b, c3)"
        and d: "exec_err env DeadLetterInsertSQL (dead_letter_values event reason) c3 = (None, c2)"
      by (auto simp: dead_letter_body_def split: prod.splits sum.splits option.splits)
    have "tx_runs c3 c2" "tx_view c3 \<noteq> None"
      using keeps_tx_runs [OF runs_exec_err [OF d runs_refl]] keeps_tx_runs [OF runs_markApplied [OF m runs_refl]] c(1)
      by (auto simp: tx_runs_def)
    then have "applied_events (view c2) (ID event) \<noteq> None"
      using marks_or_aborted [OF markApplied_marks [OF m c(1)]] c(4) by blast
    then show ?thesis
      using exec_dead_letter [OF d] c(3) by (simp add: marked_def view_def)
  qed
  with o r show ?thesis
    by (auto split: sum.splits)
qed

section \<open>A batch\<close>

lemma exec_batch_marker:
  assumes "exec env MarkerSQL [PText eid, PText lsn] c = (Inr r, c')"
  shows "applied_events (view c') eid \<noteq> None"
proof -
  have "applied_events d eid \<noteq> None"
    if "run_stmt env now MarkerSQL [PText eid, PText lsn] d0 = Inr (res, d)" for now d0 res d
    using that by (auto simp: with_lsn_def insert_marker_def text_param_def nth_param_def split: option.splits if_splits)
  with exec_cases [OF assms] show ?thesis by blast
qed

lemma run_markers_marked:
  "run_markers env i events c = (Inr fresh, c') \<Longrightarrow> length fresh = length events \<and> (\<forall>e \<in> set events. marked (view c') e)"
proof (induction events arbitrary: i c fresh)
  case Nil
  then show ?case by simp
next
  case (Cons e events)
  then obtain res c1 fresh' where m: "exec env MarkerSQL [PText (ID e), PText (CommitLSN (Source e))] c = (Inr res, c1)"
      and r: "run_markers env (Suc i) events c1 = (Inr fresh', c')" and f: "fresh = (res = Affected 1) # fresh'"
    by (auto split: prod.splits sum.splits)
  have "marks (view c1) (view c')"
    using runs_tx_runs [OF runs_run_markers [OF r runs_refl]] by (simp add: tx_runs_def)
  then have "marked (view c') e"
    using exec_batch_marker [OF m] by (simp add: marked_def marks_dom)
  with Cons.IH [OF r] f show ?case by simp
qed

lemma fst_run_markers: "fst (run_markers env i events c) \<noteq> Inl BatchOk"
proof (induction events arbitrary: i c)
  case (Cons e events)
  obtain r c1 where r: "exec env MarkerSQL [PText (ID e), PText (CommitLSN (Source e))] c = (r, c1)"
    by (cases "exec env MarkerSQL [PText (ID e), PText (CommitLSN (Source e))] c") auto
  obtain x c2 where x: "run_markers env (Suc i) events c1 = (x, c2)"
    by (cases "run_markers env (Suc i) events c1") auto
  have "x \<noteq> Inl BatchOk"
    using Cons [of "Suc i" c1] x by simp
  with r x show ?case
    by (cases r; cases x) auto
qed simp

lemma run_markers_not_ok [simp]: "run_markers env i events c \<noteq> (Inl BatchOk, c')"
  using fst_run_markers by (metis fst_conv)

lemma ApplyBatch_marked:
  assumes "ApplyBatch env events c = (BatchOk, c')"
  shows "\<forall>e \<in> set events. marked (view c') e"
proof (cases "events = []")
  case False
  then obtain fresh c1 c2 where m: "run_markers env 0 events c = (Inr fresh, c1)"
      and cb: "close_batch env ''flush marker batch: %w'' c1 = (BatchOk, c2)"
      and b: "batch_mutations env 0 (zip events fresh) [] c2 = (BatchOk, c')"
    using assms by (auto simp: ApplyBatch_def split: batch_result.splits prod.splits sum.splits)
  have "apply_runs env c1 c'"
    using runs_batch_mutations [OF b] runs_close_batch [OF cb] by (auto intro: runs_refl)
  then have "marks (view c1) (view c')"
    by (auto dest: runs_tx_runs simp: tx_runs_def)
  with run_markers_marked [OF m] show ?thesis
    by (auto intro: marks_marked)
qed simp

lemma RepairSchema_outcome:
  assumes "RepairSchema env src event c = (r, c')" and "idle c"
  shows "idle c' \<and> marks (db c) (db c')"
  using runs_tx_runs [OF runs_RepairSchema [OF assms(1) runs_refl]] assms(2)
  by (auto simp: tx_runs_def idle_def view_def)

end
