(* ===== verification/Writer_Correct.thy ===== *)
theory Writer_Correct
  imports Writer Applier_Markers
begin

text \<open>
  The writer's promise: the Kafka offset moves past a record only after the event of that record
  has its marker in the destination, applied or quarantined. The proof follows the calls: replay
  and quarantine of a poisoned group, the close of a group, one event, and then every interleaving
  of events, failures, crashes and restarts on a log.
\<close>

section \<open>Replay and quarantine\<close>

lemma count_simps [simp]:
  "w_conn (count_applied b w) = w_conn w" "w_committed (count_applied b w) = w_committed w"
  "w_group (count_applied b w) = w_group w" "w_tick (count_applied b w) = w_tick w"
  "w_conn (count_dead_letter w) = w_conn w" "w_committed (count_dead_letter w) = w_committed w"
  "w_group (count_dead_letter w) = w_group w" "w_tick (count_dead_letter w) = w_tick w"
  "w_conn (on_metrics f w) = w_conn w" "w_committed (on_metrics f w) = w_committed w"
  "w_group (on_metrics f w) = w_group w" "w_tick (on_metrics f w) = w_tick w"
  "w_conn (event_metrics env event g w) = w_conn w" "w_committed (event_metrics env event g w) = w_committed w"
  "w_group (event_metrics env event g w) = w_group w" "w_tick (event_metrics env event g w) = w_tick w"
  by (simp_all add: count_applied_def count_dead_letter_def on_observer_def on_metrics_def event_metrics_def)

text \<open>What work on the destination does to the writer: the connection is idle, markers are kept.\<close>

definition destination_work :: "writer \<Rightarrow> writer \<Rightarrow> bool" where
  "destination_work w w' \<longleftrightarrow>
     idle (w_conn w') \<and> marks (db (w_conn w)) (db (w_conn w')) \<and>
     w_committed w' = w_committed w \<and> w_group w' = w_group w \<and> w_tick w' = w_tick w"

lemma destination_work_refl: "idle (w_conn w) \<Longrightarrow> destination_work w w"
  by (simp add: destination_work_def)

lemma destination_work_trans: "destination_work w w' \<Longrightarrow> destination_work w' w'' \<Longrightarrow> destination_work w w''"
  by (auto simp: destination_work_def intro: marks_trans)

lemma destination_work_conn:
  assumes "destination_work w w'" and "idle c" and "marks (db (w_conn w')) (db c)"
  shows "destination_work w (w'\<lparr>w_conn := c\<rparr>)" and "destination_work w (count_applied b (w'\<lparr>w_conn := c\<rparr>))"
    and "destination_work w (count_dead_letter (w'\<lparr>w_conn := c\<rparr>))"
  using assms by (auto simp: destination_work_def intro: marks_trans)

lemma replay_event_outcome:
  assumes "replay_events env poisonID ((krec, event) # rest) w = (r, w')" and "ID event \<noteq> poisonID" and "idle (w_conn w)"
  shows "\<exists>w1. destination_work w w1 \<and>
    (r \<noteq> None \<and> w' = w1 \<or> marked (db (w_conn w1)) event \<and> replay_events env poisonID rest w1 = (r, w'))"
proof -
  obtain x c where x: "Apply (we_db env) event (w_conn w) = (x, c)"
    by (cases "Apply (we_db env) event (w_conn w)") auto
  note ax = Apply_outcome [OF x assms(3)]
  have w1: "destination_work w (w\<lparr>w_conn := c\<rparr>)" "destination_work w (count_applied b (w\<lparr>w_conn := c\<rparr>))" for b
    using ax assms(3) by (auto intro!: destination_work_conn destination_work_refl)
  consider (applied) b where "x = Inr b" | (transient) err where "x = Inl err" "\<not> IsPermanent (Some err)"
    | (permanent) err where "x = Inl err" "IsPermanent (Some err)"
    by (cases x) auto
  then show ?thesis
  proof cases
    case (applied b)
    with assms(1,2) x ax w1 show ?thesis
      by (intro exI [of _ "count_applied b (w\<lparr>w_conn := c\<rparr>)"]) simp
  next
    case (transient err)
    with assms(1,2) x w1 show ?thesis
      by (intro exI [of _ "w\<lparr>w_conn := c\<rparr>"]) auto
  next
    case (permanent err)
    obtain y c' where y: "RecordDeadLetter (we_db env) event err c = (y, c')"
      by (cases "RecordDeadLetter (we_db env) event err c") auto
    have "idle c"
      using ax by simp
    note ay = RecordDeadLetter_outcome [OF y this]
    have w2: "destination_work w (w\<lparr>w_conn := c'\<rparr>)" "destination_work w (count_dead_letter (w\<lparr>w_conn := c'\<rparr>))"
      using ax ay assms(3) by (auto intro!: destination_work_conn destination_work_refl intro: marks_trans)
    show ?thesis
    proof (cases y)
      case None
      with assms(1,2) x permanent y ay w2 show ?thesis
        by (intro exI [of _ "count_dead_letter (w\<lparr>w_conn := c'\<rparr>)"]) simp
    next
      case (Some e)
      with assms(1,2) x permanent y w2 show ?thesis
        by (intro exI [of _ "w\<lparr>w_conn := c'\<rparr>"]) auto
    qed
  qed
qed

lemma replay_events_outcome:
  assumes "replay_events env poisonID buffer w = (r, w')" and "idle (w_conn w)"
  shows "destination_work w w' \<and>
    (r = None \<longrightarrow> (\<forall>(record, event) \<in> set buffer. ID event = poisonID \<or> marked (db (w_conn w')) event))"
  using assms
proof (induction buffer arbitrary: w)
  case Nil
  then show ?case by (simp add: destination_work_refl)
next
  case (Cons p rest)
  obtain krec event where p: "p = (krec, event)"
    by (cases p) auto
  show ?case
  proof (cases "ID event = poisonID")
    case True
    with Cons p show ?thesis by auto
  next
    case False
    then obtain w1 where w1: "destination_work w w1"
        "r \<noteq> None \<and> w' = w1 \<or> marked (db (w_conn w1)) event \<and> replay_events env poisonID rest w1 = (r, w')"
      using replay_event_outcome Cons.prems p by blast
    have "idle (w_conn w1)"
      using w1 by (simp add: destination_work_def)
    note ih = Cons.IH [OF _ this]
    from w1(2) show ?thesis
    proof
      assume "r \<noteq> None \<and> w' = w1"
      with w1(1) show ?thesis by auto
    next
      assume rest: "marked (db (w_conn w1)) event \<and> replay_events env poisonID rest w1 = (r, w')"
      then have "marked (db (w_conn w')) event"
        using ih by (auto simp: destination_work_def intro: marks_marked)
      with ih rest show ?thesis
        using destination_work_trans [OF w1(1)] p by simp
    qed
  qed
qed

lemma stash_poison_outcome:
  assumes "stash_poison env poison reason w = (r, w')" and "idle (w_conn w)"
  shows "destination_work w w' \<and> (r = None \<longrightarrow> marked (db (w_conn w')) poison)"
proof -
  obtain y c where y: "RecordDeadLetter (we_db env) poison reason (w_conn w) = (y, c)"
    by (cases "RecordDeadLetter (we_db env) poison reason (w_conn w)") auto
  note ay = RecordDeadLetter_outcome [OF y assms(2)]
  show ?thesis
    using assms y ay by (auto simp: stash_poison_def intro: destination_work_conn destination_work_refl split: option.splits)
qed

lemma quarantinePoison_outcome:
  assumes "quarantinePoison env poison reason w = (r, w')" and "idle (w_conn w)"
  shows "destination_work w w' \<and> (r = None \<longrightarrow> marked (db (w_conn w')) poison)"
proof (cases "IsUndefinedColumn reason")
  case False
  with assms stash_poison_outcome show ?thesis by (simp add: quarantinePoison_def)
next
  case True
  obtain x c where x: "RepairSchema (we_db env) (we_source env) poison (w_conn w) = (x, c)"
    by (cases "RepairSchema (we_db env) (we_source env) poison (w_conn w)") auto
  note ax = RepairSchema_outcome [OF x assms(2)]
  have w1: "destination_work w (w\<lparr>w_conn := c\<rparr>)"
    using ax assms(2) by (auto intro: destination_work_conn destination_work_refl)
  have stash: ?thesis if "stash_poison env poison e w2 = (r, w')" and w2: "destination_work w w2" for e w2
  proof -
    have "idle (w_conn w2)"
      using w2 by (simp add: destination_work_def)
    with stash_poison_outcome [OF that(1)] show ?thesis
      using destination_work_trans [OF w2] by blast
  qed
  show ?thesis
  proof (cases "x = Inr True")
    case False
    then have "stash_poison env poison reason (w\<lparr>w_conn := c\<rparr>) = (r, w')"
      using assms(1) True x by (auto simp: quarantinePoison_def split: sum.splits bool.splits)
    then show ?thesis using stash w1 by blast
  next
    case rep: True
    obtain y c' where y: "Apply (we_db env) poison c = (y, c')"
      by (cases "Apply (we_db env) poison c") auto
    have "idle c" using ax by simp
    note ay = Apply_outcome [OF y this]
    have w2: "destination_work w (w\<lparr>w_conn := c'\<rparr>)" "destination_work w (count_applied b (w\<lparr>w_conn := c'\<rparr>))" for b
      using ax ay assms(2) by (auto intro!: destination_work_conn destination_work_refl intro: marks_trans)
    show ?thesis
    proof (cases y)
      case (Inr b)
      then have "w' = count_applied b (w\<lparr>w_conn := c'\<rparr>)" "r = None"
        using assms(1) True x rep y by (auto simp: quarantinePoison_def)
      then show ?thesis using w2 ay Inr by simp
    next
      case (Inl e)
      then show ?thesis
        using assms(1) True x rep y w2(1) stash [of e "w\<lparr>w_conn := c'\<rparr>"]
        by (auto simp: quarantinePoison_def split: if_splits)
    qed
  qed
qed

section \<open>Closing a group\<close>

text \<open>The group's transaction is open: the destination transaction begun with the group's first event.\<close>

definition group_tx :: "writer \<Rightarrow> bool" where
  "group_tx w \<longleftrightarrow> tx_view (w_conn w) \<noteq> None \<and> marks (db (w_conn w)) (view (w_conn w))"

lemma replay_quarantine_outcome:
  assumes "replayHealthyEvents env g poison w = (None, w1)" and "quarantinePoison env poison err w1 = (q, w2)" and "idle (w_conn w)"
  shows "destination_work w w2 \<and> (q = None \<longrightarrow> (\<forall>(record, event) \<in> set (g_buffer g). marked (db (w_conn w2)) event))"
proof -
  note az = replay_events_outcome [OF assms(1) [unfolded replayHealthyEvents_def] assms(3)]
  have "idle (w_conn w1)"
    using az by (simp add: destination_work_def)
  note aq = quarantinePoison_outcome [OF assms(2) this]
  have "marked (db (w_conn w2)) event" if "q = None" "(krec, event) \<in> set (g_buffer g)" for krec event
  proof (cases "ID event = ID poison")
    case True
    with aq that show ?thesis by (simp add: marked_def)
  next
    case False
    then have "marked (db (w_conn w1)) event"
      using az that(2) by auto
    then show ?thesis
      using aq by (auto simp: destination_work_def intro: marks_marked)
  qed
  then have "q = None \<longrightarrow> (\<forall>(krec, event) \<in> set (g_buffer g). marked (db (w_conn w2)) event)"
    by blast
  moreover have "destination_work w w2"
    using az aq destination_work_trans by blast
  ultimately show ?thesis by simp
qed

text \<open>What the batch leaves of the open transaction.\<close>

lemma ApplyBatch_in_group:
  assumes "ApplyBatch env es (w_conn w) = (x, c)" and "group_tx w"
  obtains d where "tx_view c = Some d" "db c = db (w_conn w)" "marks (db (w_conn w)) d"
proof -
  have run: "tx_runs (w_conn w) c"
    using runs_tx_runs [OF runs_ApplyBatch [OF assms(1) runs_refl]] .
  then have "marks (db (w_conn w)) (view c)"
    using assms(2) marks_trans unfolding group_tx_def tx_runs_def by blast
  moreover obtain d where "tx_view c = Some d" "db c = db (w_conn w)"
    using run assms(2) by (auto simp: group_tx_def tx_runs_def)
  ultimately show ?thesis
    using that by (simp add: view_def)
qed

lemma commitDestinationTransaction_outcome:
  assumes "commitDestinationTransaction env g w = (r, w')" and "group_tx w" and "g_tx g"
  shows "destination_work w w' \<and> (r = None \<longrightarrow> (\<forall>(record, event) \<in> set (g_buffer g). marked (db (w_conn w')) event))"
proof -
  let ?D = "we_db env"
  obtain x c where x: "ApplyBatch ?D (map snd (g_buffer g)) (w_conn w) = (x, c)"
    by (cases "ApplyBatch ?D (map snd (g_buffer g)) (w_conn w)") auto
  from x assms(2) obtain d where c: "tx_view c = Some d" "db c = db (w_conn w)" "marks (db (w_conn w)) d"
    by (rule ApplyBatch_in_group)
  have rb: "idle (snd (rollback ?D c))" "db (snd (rollback ?D c)) = db (w_conn w)"
    using c by simp_all
  show ?thesis
  proof (cases x)
    case BatchOk
    obtain e c1 where e: "commit ?D c = (e, c1)"
      by (cases "commit ?D c") auto
    note ce = commit_idle [OF e c(1)]
    have w': "w' = w\<lparr>w_conn := c1\<rparr>" "r = None \<longleftrightarrow> e = None"
      using assms(1,3) x BatchOk e ce by (auto simp: commitDestinationTransaction_def split: option.splits)
    have "view c = d" using c(1) by (simp add: view_def)
    then have "e = None \<Longrightarrow> \<forall>(record, event) \<in> set (g_buffer g). marked (db c1) event"
      using ApplyBatch_marked x BatchOk ce by fastforce
    then show ?thesis
      using w' ce c by (auto simp: destination_work_def)
  next
    case (BatchFail e)
    then show ?thesis
      using assms(1,3) x rb by (auto simp: commitDestinationTransaction_def destination_work_def)
  next
    case (BatchPoison i poison err)
    obtain y c1 where y: "rollback ?D c = (y, c1)"
      by (cases "rollback ?D c") auto
    let ?w = "w\<lparr>w_conn := c1\<rparr>"
    have c1: "destination_work w ?w" "idle (w_conn ?w)"
      using rb y by (auto simp: destination_work_def)
    obtain z w1 where z: "replayHealthyEvents env g poison ?w = (z, w1)"
      by (cases "replayHealthyEvents env g poison ?w") auto
    obtain q w2 where q: "quarantinePoison env poison err w1 = (q, w2)"
      by (cases "quarantinePoison env poison err w1") auto
    have w1: "destination_work w w1"
      using replay_events_outcome [OF z [unfolded replayHealthyEvents_def] c1(2)] destination_work_trans [OF c1(1)] by blast
    show ?thesis
    proof (cases "y = None \<and> z = None")
      case True
      then have r: "r = q" "w_conn w' = w_conn w2"
        using assms(1,3) x BatchPoison y z q by (auto simp: commitDestinationTransaction_def split: option.splits)
      have "destination_work w w'" if "destination_work w w2"
        using that assms(1,3) x BatchPoison y True z q
        by (auto simp: commitDestinationTransaction_def destination_work_def split: option.splits)
      then show ?thesis
        using replay_quarantine_outcome [OF _ q c1(2)] z True r destination_work_trans [OF c1(1)] by simp
    next
      case False
      then show ?thesis
        using assms(1,3) x BatchPoison y z c1 w1 by (auto simp: commitDestinationTransaction_def split: option.splits)
    qed
  qed
qed

text \<open>Committing the offset touches nothing but the offset, the tick and the rebalance count.\<close>

definition offset_work :: "int \<Rightarrow> writer \<Rightarrow> writer \<Rightarrow> bool" where
  "offset_work k w w' \<longleftrightarrow>
     w_conn w' = w_conn w \<and> w_group w' = w_group w \<and> (w_committed w' = w_committed w \<or> w_committed w' = Some k)"

lemma commitKafkaOffset_outcome:
  assumes "commitKafkaOffsetAndAllowRebalance env ctx_err g w = (r, w')" and "g_lastRecord g = Some krec"
  shows "offset_work (rec_offset krec + 1) w w' \<and> (r = None \<longrightarrow> w_committed w' = Some (rec_offset krec + 1))"
proof -
  let ?fn = "commit_records env krec"
  obtain x w1 where x: "retry_Do (we_wait env) (we_rnd env) Default ''commit Kafka offset'' ?fn w = (x, w1)"
    by (cases "retry_Do (we_wait env) (we_rnd env) Default ''commit Kafka offset'' ?fn w") auto
  have keep: "offset_work (rec_offset krec + 1) w (snd (?fn s))" if "offset_work (rec_offset krec + 1) w s" for s
    using that by (auto simp: commit_records_def offset_work_def Let_def split: option.split)
  have "w_committed s' = Some (rec_offset krec + 1)" if "?fn s = (None, s')" for s s'
    using that by (auto simp: commit_records_def Let_def split: option.splits)
  then have "offset_work (rec_offset krec + 1) w w1 \<and> (x = None \<longrightarrow> w_committed w1 = Some (rec_offset krec + 1))"
    using retry_Do_keeps [of "offset_work (rec_offset krec + 1) w", OF keep _ x] by (auto simp: offset_work_def)
  then show ?thesis
    using assms x by (auto simp: commitKafkaOffsetAndAllowRebalance_def offset_work_def split: option.splits)
qed

lemma closeGroup_outcome:
  assumes "closeGroup env ctx_err g w = (r, w')" and "group_tx w" and "g_tx g" and "g_lastRecord g = Some krec"
  shows "idle (w_conn w') \<and> marks (db (w_conn w)) (db (w_conn w')) \<and> w_group w' = w_group w \<and>
    (w_committed w' = w_committed w \<and> r \<noteq> None \<or>
     w_committed w' = Some (rec_offset krec + 1) \<and> (\<forall>(kr, event) \<in> set (g_buffer g). marked (db (w_conn w')) event))"
proof -
  obtain x w1 where x: "commitDestinationTransaction env g w = (x, w1)"
    by (cases "commitDestinationTransaction env g w") auto
  note ax = commitDestinationTransaction_outcome [OF x assms(2,3)]
  show ?thesis
  proof (cases x)
    case (Some e)
    then show ?thesis
      using assms(1) x ax by (auto simp: closeGroup_def destination_work_def)
  next
    case None
    obtain y w2 where y: "commitKafkaOffsetAndAllowRebalance env ctx_err g w1 = (y, w2)"
      by (cases "commitKafkaOffsetAndAllowRebalance env ctx_err g w1") auto
    note ay = commitKafkaOffset_outcome [OF y assms(4)]
    have "w_conn w' = w_conn w2" "w_group w' = w_group w2" "w_committed w' = w_committed w2" "r = None \<longleftrightarrow> y = None"
      using assms(1) x None y by (auto simp: closeGroup_def split: option.splits)
    then show ?thesis
      using ax ay None by (auto simp: destination_work_def offset_work_def)
  qed
qed

section \<open>The log\<close>

text \<open>
  The topic as a list of records, whose offsets are their positions. \<open>log_prefix\<close>: everything
  before the committed offset has its marker. \<open>group_of_log\<close>: the buffer of the open group is the
  part of the log between the committed offset and the position of the consumer.
\<close>

definition log_offsets :: "kafka_record list \<Rightarrow> bool" where
  "log_offsets log \<longleftrightarrow> (\<forall>i < length log. rec_offset (log ! i) = int i)"

definition committed_pos :: "writer \<Rightarrow> nat" where
  "committed_pos w = (case w_committed w of None \<Rightarrow> 0 | Some k \<Rightarrow> nat k)"

definition log_event :: "writer_env \<Rightarrow> kafka_record list \<Rightarrow> nat \<Rightarrow> event \<Rightarrow> bool" where
  "log_event env log i event \<longleftrightarrow> i < length log \<and> we_unmarshal env (rec_value (log ! i)) = Inr event"

definition log_prefix :: "writer_env \<Rightarrow> kafka_record list \<Rightarrow> nat \<Rightarrow> database \<Rightarrow> bool" where
  "log_prefix env log n d \<longleftrightarrow> (\<forall>i < n. \<exists>event. log_event env log i event \<and> marked d event)"

definition group_of_log :: "writer_env \<Rightarrow> kafka_record list \<Rightarrow> nat \<Rightarrow> nat \<Rightarrow> groupState \<Rightarrow> bool" where
  "group_of_log env log from_pos pos g \<longleftrightarrow>
     g_tx g \<and> length (g_buffer g) = pos - from_pos \<and> from_pos \<le> pos \<and>
     (\<forall>j < pos - from_pos. log_event env log (from_pos + j) (snd (g_buffer g ! j)))"

definition writer_inv :: "writer_env \<Rightarrow> kafka_record list \<Rightarrow> writer \<times> nat \<Rightarrow> bool" where
  "writer_inv env log s \<longleftrightarrow>
     (case s of (w, pos) \<Rightarrow>
        log_prefix env log (committed_pos w) (db (w_conn w)) \<and>
        (case w_group w of
           None \<Rightarrow> idle (w_conn w) \<and> pos = committed_pos w
         | Some g \<Rightarrow> group_tx w \<and> group_of_log env log (committed_pos w) pos g))"

lemma log_prefix_marks: "log_prefix env log n d \<Longrightarrow> marks d d' \<Longrightarrow> log_prefix env log n d'"
  unfolding log_prefix_def by (meson marks_marked)

lemma group_of_log_buffer:
  assumes "group_of_log env log from_pos pos g" and "log_event env log pos event"
  shows "group_of_log env log from_pos (Suc pos) (buffer_event (log ! pos) event g)"
  using assms unfolding group_of_log_def buffer_event_def
  by (auto simp: nth_append less_Suc_eq Suc_diff_le)

lemma group_marked_prefix:
  assumes "log_prefix env log from_pos d" and "group_of_log env log from_pos pos g"
    and "\<forall>(kr, event) \<in> set (g_buffer g). marked d event"
  shows "log_prefix env log pos d"
  unfolding log_prefix_def
proof (intro allI impI)
  fix i
  assume "i < pos"
  show "\<exists>event. log_event env log i event \<and> marked d event"
  proof (cases "i < from_pos")
    case True
    then show ?thesis using assms(1) by (simp add: log_prefix_def)
  next
    case False
    then have i: "i - from_pos < length (g_buffer g)" "from_pos + (i - from_pos) = i"
      using \<open>i < pos\<close> assms(2) by (auto simp: group_of_log_def)
    then have "log_event env log i (snd (g_buffer g ! (i - from_pos)))"
      using assms(2) by (metis group_of_log_def)
    moreover have "g_buffer g ! (i - from_pos) \<in> set (g_buffer g)"
      using i(1) by simp
    ultimately show ?thesis
      using assms(3) by force
  qed
qed

lemma open_group_outcome:
  assumes "open_group env (log ! pos) event w = (x, w1)" and "writer_inv env log (w, pos)"
  shows "db (w_conn w1) = db (w_conn w) \<and> w_committed w1 = w_committed w \<and> w_group w1 = w_group w \<and>
         (\<forall>g. x = Inr g \<longrightarrow> group_tx w1 \<and> group_of_log env log (committed_pos w) pos g)"
proof (cases "w_group w")
  case None
  obtain b c where b: "begin_tx (we_db env) (w_conn w) = (b, c)"
    by (cases "begin_tx (we_db env) (w_conn w)") auto
  have "idle (w_conn w)" "pos = committed_pos w"
    using assms(2) None by (auto simp: writer_inv_def)
  with begin_tx_idle [OF b] show ?thesis
    using assms(1) None b
    by (auto simp: open_group_def group_tx_def view_def group_of_log_def split: if_splits option.splits)
next
  case (Some g)
  then show ?thesis
    using assms by (auto simp: open_group_def writer_inv_def group_tx_def split: if_splits)
qed

text \<open>One event: the invariant is kept on success; on failure, what a restart finds is in order.\<close>

definition offsets_durable :: "writer_env \<Rightarrow> kafka_record list \<Rightarrow> writer \<Rightarrow> bool" where
  "offsets_durable env log w \<longleftrightarrow> log_prefix env log (committed_pos w) (db (w_conn w))"

text \<open>Closing the group that ends at \<open>pos\<close>.\<close>

lemma closeGroup_inv:
  assumes y: "closeGroup env ctx_err g w2 = (y, w3)" and tx: "group_tx w2" and g: "group_of_log env log p (Suc pos) g"
    and last: "g_lastRecord g = Some (log ! pos)" "rec_offset (log ! pos) = int pos" "g_tx g"
    and pre: "log_prefix env log p (db (w_conn w2))" and p: "p = committed_pos w2"
    and w': "w_conn w' = w_conn w3" "w_committed w' = w_committed w3" "y = None \<Longrightarrow> w_group w' = None"
  shows "offsets_durable env log w' \<and> (y = None \<longrightarrow> writer_inv env log (w', Suc pos))"
proof -
  note c = closeGroup_outcome [OF y tx last(3,1)]
  have pre3: "log_prefix env log p (db (w_conn w3))"
    using log_prefix_marks [OF pre] c by simp
  show ?thesis
  proof (cases "w_committed w3 = Some (int pos + 1) \<and> (\<forall>(kr, event) \<in> set (g_buffer g). marked (db (w_conn w3)) event)")
    case True
    then have "log_prefix env log (Suc pos) (db (w_conn w3))" "committed_pos w' = Suc pos"
      using group_marked_prefix [OF pre3 g] w' by (auto simp: committed_pos_def nat_add_distrib)
    then show ?thesis
      using c w' by (auto simp: writer_inv_def offsets_durable_def)
  next
    case False
    then have "w_committed w3 = w_committed w2" "y \<noteq> None"
      using c last(2) by auto
    then show ?thesis
      using pre3 w' p by (auto simp: offsets_durable_def committed_pos_def)
  qed
qed

lemma handleEvent_inv:
  assumes "handleEvent env ctx_err (log ! pos) event w = (r, w')"
    and inv: "writer_inv env log (w, pos)" and ev: "log_event env log pos event" and offs: "log_offsets log"
  shows "offsets_durable env log w' \<and> (r = None \<longrightarrow> writer_inv env log (w', Suc pos))"
proof -
  obtain x w1 where x: "open_group env (log ! pos) event w = (x, w1)"
    by (cases "open_group env (log ! pos) event w") auto
  note o = open_group_outcome [OF x inv]
  have pre: "log_prefix env log (committed_pos w) (db (w_conn w1))"
    using inv o by (auto simp: writer_inv_def)
  have cp: "committed_pos w1 = committed_pos w"
    using o by (simp add: committed_pos_def)
  show ?thesis
  proof (cases x)
    case (Inl e)
    then show ?thesis
      using assms(1) x pre cp by (auto simp: handleEvent_def offsets_durable_def)
  next
    case (Inr g0)
    let ?g = "buffer_event (log ! pos) event g0"
    let ?w2 = "event_metrics env event ?g w1"
    have g: "group_of_log env log (committed_pos w) (Suc pos) ?g" "group_tx ?w2"
      using o Inr ev group_of_log_buffer by (auto simp: group_tx_def)
    have last: "g_lastRecord ?g = Some (log ! pos)" "rec_offset (log ! pos) = int pos" "g_tx ?g"
      using ev offs g(1) by (auto simp: buffer_event_def log_event_def log_offsets_def group_of_log_def)
    show ?thesis
    proof (cases "group_complete ?g")
      case False
      then have "w' = ?w2\<lparr>w_group := Some ?g\<rparr>" "r = None"
        using assms(1) x Inr by (auto simp: handleEvent_def Let_def)
      then show ?thesis
        using g pre cp by (auto simp: writer_inv_def offsets_durable_def committed_pos_def group_tx_def)
    next
      case True
      obtain y w3 where y: "closeGroup env ctx_err ?g ?w2 = (y, w3)"
        by (cases "closeGroup env ctx_err ?g ?w2") auto
      have w': "w_conn w' = w_conn w3" "w_committed w' = w_committed w3" "r = y" "y = None \<Longrightarrow> w_group w' = None"
        using assms(1) x Inr True y by (auto simp: handleEvent_def Let_def split: option.splits)
      have "log_prefix env log (committed_pos w) (db (w_conn ?w2))" "committed_pos w = committed_pos ?w2"
        using pre cp by (simp_all add: committed_pos_def)
      from closeGroup_inv [OF y g(2,1) last this w'(1,2,4)] w'(3) show ?thesis
        by blast
    qed
  qed
qed

section \<open>Crashes and restarts\<close>

text \<open>A new process: a new connection on the same database, no group, the committed position.\<close>

definition restarted :: "writer \<Rightarrow> writer \<times> nat" where
  "restarted w =
     (w\<lparr>w_conn := (w_conn w)\<lparr>tx_view := None, tx_aborted := False, columnsSeenAt := Map.empty, columnsByTable := Map.empty\<rparr>,
        w_group := None\<rparr>, committed_pos w)"

lemma restarted_inv: "offsets_durable env log w \<Longrightarrow> writer_inv env log (restarted w)"
  by (simp add: offsets_durable_def writer_inv_def restarted_def idle_def committed_pos_def)

text \<open>
  How far closing a group may get in the destination before the process dies: to the end of
  \<open>commitDestinationTransaction\<close>; or, after the batch failed on a poison event and was rolled back,
  through some of the healthy events, each of which is its own transaction; or through all of them
  and the schema repair.
\<close>

inductive closing :: "writer_env \<Rightarrow> groupState \<Rightarrow> writer \<Rightarrow> writer \<Rightarrow> bool"
  for env g w where
  closing_done: "commitDestinationTransaction env g w = (r, w2) \<Longrightarrow> closing env g w w2"
| closing_replay: "ApplyBatch (we_db env) (map snd (g_buffer g)) (w_conn w) = (BatchPoison i poison err, c)
    \<Longrightarrow> rollback (we_db env) c = (None, c1)
    \<Longrightarrow> replay_events env (ID poison) (take n (g_buffer g)) (w\<lparr>w_conn := c1\<rparr>) = (r, w2) \<Longrightarrow> closing env g w w2"
| closing_repair: "ApplyBatch (we_db env) (map snd (g_buffer g)) (w_conn w) = (BatchPoison i poison err, c)
    \<Longrightarrow> rollback (we_db env) c = (None, c1)
    \<Longrightarrow> replayHealthyEvents env g poison (w\<lparr>w_conn := c1\<rparr>) = (None, w2)
    \<Longrightarrow> RepairSchema (we_db env) (we_source env) poison (w_conn w2) = (x, c2) \<Longrightarrow> closing env g w (w2\<lparr>w_conn := c2\<rparr>)"

lemma poisoned_rollback:
  assumes "ApplyBatch (we_db env) es (w_conn w) = (x, c)" and "rollback (we_db env) c = (y, c1)" and "group_tx w"
  shows "destination_work w (w\<lparr>w_conn := c1\<rparr>)"
proof -
  from assms(1,3) obtain d where "tx_view c = Some d" "db c = db (w_conn w)" "marks (db (w_conn w)) d"
    by (rule ApplyBatch_in_group)
  moreover have "c1 = snd (rollback (we_db env) c)"
    using assms(2) by simp
  ultimately show ?thesis
    by (simp add: destination_work_def)
qed

lemma closing_outcome:
  assumes "closing env g w w2" and "group_tx w" and "g_tx g"
  shows "destination_work w w2"
  using assms(1)
proof cases
  case (closing_done r)
  then show ?thesis
    using commitDestinationTransaction_outcome assms(2,3) by blast
next
  case (closing_replay i poison err c c1 n r)
  note undone = poisoned_rollback [OF closing_replay(1,2) assms(2)]
  then have "idle (w_conn (w\<lparr>w_conn := c1\<rparr>))"
    by (simp add: destination_work_def)
  with replay_events_outcome [OF closing_replay(3)] show ?thesis
    using destination_work_trans [OF undone] by blast
next
  case (closing_repair i poison err c c1 w2' x c2)
  note undone = poisoned_rollback [OF closing_repair(2,3) assms(2)]
  then have "idle (w_conn (w\<lparr>w_conn := c1\<rparr>))"
    by (simp add: destination_work_def)
  with replay_events_outcome [OF closing_repair(4) [unfolded replayHealthyEvents_def]]
  have work: "destination_work w w2'"
    using destination_work_trans [OF undone] by blast
  then have "idle (w_conn w2')"
    by (simp add: destination_work_def)
  with RepairSchema_outcome [OF closing_repair(5)] show ?thesis
    unfolding closing_repair(1) by (intro destination_work_conn(1) [OF work]) simp_all
qed

text \<open>
  The writer on a log: an event handled; an event that fails, or a record that does not decode,
  after which the process exits and restarts; a crash at any time, also while a group is closed and
  between the commit of the destination and the commit of the offset; and a shutdown.
\<close>

inductive writer_step :: "writer_env \<Rightarrow> (nat \<Rightarrow> goerr option) \<Rightarrow> kafka_record list \<Rightarrow> writer \<times> nat \<Rightarrow> writer \<times> nat \<Rightarrow> bool"
  for env ctx_err log where
  step_event: "log_event env log pos event \<Longrightarrow> handleEvent env ctx_err (log ! pos) event w = (None, w')
    \<Longrightarrow> writer_step env ctx_err log (w, pos) (w', Suc pos)"
| step_error: "log_event env log pos event \<Longrightarrow> handleEvent env ctx_err (log ! pos) event w = (Some err, w')
    \<Longrightarrow> writer_step env ctx_err log (w, pos) (restarted w')"
| step_crash: "writer_step env ctx_err log (w, pos) (restarted w)"
| step_crash_between: "log_event env log pos event \<Longrightarrow> open_group env (log ! pos) event w = (Inr g, w1)
    \<Longrightarrow> group_complete (buffer_event (log ! pos) event g)
    \<Longrightarrow> closing env (buffer_event (log ! pos) event g) w1 w2
    \<Longrightarrow> writer_step env ctx_err log (w, pos) (restarted w2)"
| step_shutdown: "shutdown env ctx_err group_ctx w = (r, w') \<Longrightarrow> writer_step env ctx_err log (w, pos) (restarted w')"

definition new_writer :: "writer \<times> nat \<Rightarrow> bool" where
  "new_writer s \<longleftrightarrow> idle (w_conn (fst s)) \<and> w_group (fst s) = None \<and> w_committed (fst s) = None \<and> snd s = 0"

text \<open>A group that is kept open is never complete, so \<open>shutdown\<close> always discards it.\<close>

lemma handleEvent_group_open:
  assumes "handleEvent env ctx_err krec event w = (None, w')" and "w_group w' = Some g"
  shows "\<not> group_complete g"
  using assms by (auto simp: handleEvent_def Let_def split: prod.splits sum.splits if_splits option.splits)

definition open_groups_incomplete :: "writer \<Rightarrow> bool" where
  "open_groups_incomplete w \<longleftrightarrow> (case w_group w of None \<Rightarrow> True | Some g \<Rightarrow> \<not> group_complete g)"

lemma shutdown_discards:
  assumes "shutdown env ctx_err group_ctx w = (r, w')" and "open_groups_incomplete w"
  shows "db (w_conn w') = db (w_conn w) \<and> w_committed w' = w_committed w"
  using assms by (auto simp: shutdown_def Let_def open_groups_incomplete_def discard_group_def split: option.splits if_splits)

lemma again_inv: "offsets_durable env log w \<Longrightarrow> writer_inv env log (restarted w) \<and> open_groups_incomplete (fst (restarted w))"
  using restarted_inv by (simp add: restarted_def open_groups_incomplete_def)

lemma crash_between_work:
  assumes "writer_inv env log (w, pos)" and "open_group env (log ! pos) event w = (Inr g, w1)"
    and "closing env (buffer_event (log ! pos) event g) w1 w2"
  shows "destination_work w1 w2"
proof -
  note o = open_group_outcome [OF assms(2,1)]
  then have "g_tx (buffer_event (log ! pos) event g)"
    by (simp add: buffer_event_def group_of_log_def)
  with closing_outcome [OF assms(3)] o show ?thesis by simp
qed

lemma crash_between_durable:
  assumes "writer_inv env log (w, pos)" and "open_group env (log ! pos) event w = (Inr g, w1)"
    and "closing env (buffer_event (log ! pos) event g) w1 w2"
  shows "offsets_durable env log w2"
  using assms(1) open_group_outcome [OF assms(2,1)] crash_between_work [OF assms] log_prefix_marks
  by (auto simp: offsets_durable_def writer_inv_def destination_work_def committed_pos_def)

lemma writer_inv_step:
  assumes "log_offsets log" and "writer_step env ctx_err log s t" and "writer_inv env log s" and "open_groups_incomplete (fst s)"
  shows "writer_inv env log t \<and> open_groups_incomplete (fst t)"
  using assms(2)
proof (cases rule: writer_step.cases)
  case (step_event pos event w w')
  then show ?thesis
    using assms handleEvent_inv handleEvent_group_open
    by (fastforce simp: open_groups_incomplete_def split: option.split)
next
  case (step_error pos event w err w')
  then show ?thesis
    using assms handleEvent_inv again_inv by fastforce
next
  case (step_crash w pos)
  then show ?thesis
    using assms again_inv by (auto simp: writer_inv_def offsets_durable_def)
next
  case (step_crash_between pos event w g w1 w2)
  with crash_between_durable assms(3) have "offsets_durable env log w2" by simp
  with again_inv step_crash_between(2) show ?thesis by simp
next
  case (step_shutdown group_ctx w r w' pos)
  then have "offsets_durable env log w'"
    using shutdown_discards [OF step_shutdown(3)] assms(3,4) by (auto simp: offsets_durable_def writer_inv_def committed_pos_def)
  with again_inv step_shutdown(2) show ?thesis by simp
qed

interpretation offsets: step_invariant new_writer "writer_step env ctx_err log"
  "\<lambda>s. log_offsets log \<longrightarrow> writer_inv env log s \<and> open_groups_incomplete (fst s)" for env ctx_err log
proof unfold_locales
  fix s
  assume "new_writer s"
  then show "log_offsets log \<longrightarrow> writer_inv env log s \<and> open_groups_incomplete (fst s)"
    by (cases s) (auto simp: new_writer_def writer_inv_def log_prefix_def committed_pos_def open_groups_incomplete_def)
qed (use writer_inv_step in blast)

end
