(* ===== verification/Event_Effect.thy ===== *)
theory Event_Effect
  imports Applier
begin

text \<open>
  What applying an event means, as a function of the database alone: no connection, no cache, no
  SQL text, no parameters by position. The marker decides whether the event is new; a write is
  keyed by the event's key and guarded by its commit position; a truncate is guarded by the
  table's watermark. \<open>Applier_Refines\<close> shows that \<open>ApplyInTx\<close> and \<open>ApplyBatch\<close> do this.
\<close>

section \<open>One event\<close>

definition event_table :: "event \<Rightarrow> string" where
  "event_table e = qualified_name (Schema e) (Table e)"

definition event_lsn :: "dest_env \<Rightarrow> event \<Rightarrow> lsn option" where
  "event_lsn env e = parse_lsn env (CommitLSN (Source e))"

text \<open>A row that can be spelled in SQL: columns, all simple identifiers, none of them reserved.\<close>

definition row_ok :: "row \<Rightarrow> bool" where
  "row_ok r \<longleftrightarrow> r \<noteq> [] \<and> (\<forall>c \<in> set (row_cols r). identPattern c \<and> c \<notin> set reservedColumns)"

definition event_ok :: "event \<Rightarrow> bool" where
  "event_ok e \<longleftrightarrow> Validate e = None \<and> identPattern (Schema e) \<and> identPattern (Table e)"

definition columns_ok :: "event \<Rightarrow> bool" where
  "columns_ok e \<longleftrightarrow> (\<forall>c \<in> set (row_cols (After e)) \<union> set (row_cols (Key e)). c \<notin> set reservedColumns)"

definition write_ok_event :: "event \<Rightarrow> bool" where
  "write_ok_event e \<longleftrightarrow> columns_ok e \<and> row_ok (After e) \<and> row_ok (Key e) \<and>
     set (row_cols (Key e)) \<subseteq> set (row_cols (After e)) \<and> set (row_cols (Key e)) \<inter> set (UnchangedColumns e) = {}"

definition has_key :: "row \<Rightarrow> dtable \<Rightarrow> bool" where
  "has_key key tbl \<longleftrightarrow> (\<exists>r \<in> set (tbl_rows tbl). key_matches key r)"

text \<open>An insert or update: an upsert, or, when columns are unchanged, an update and else an insert.\<close>

definition event_write :: "event \<Rightarrow> lsn \<Rightarrow> dtable \<Rightarrow> goerr + nat \<times> dtable" where
  "event_write e l tbl =
     (if UnchangedColumns e = [] then run_upsert tbl (row_cols (Key e)) (After e) l (CommitTime (Source e))
      else (case run_update tbl (Key e) (After e) l (CommitTime (Source e)) of
              Inl err \<Rightarrow> Inl err
            | Inr (n, tbl') \<Rightarrow>
                if has_key (Key e) tbl' then Inr (n, tbl') else run_insert tbl' (After e) l (CommitTime (Source e))))"

definition change_table :: "database \<Rightarrow> string \<Rightarrow> string list \<Rightarrow> (dtable \<Rightarrow> goerr + nat \<times> dtable) \<Rightarrow> database option" where
  "change_table d table columns f =
     (case on_table d table columns f of Inl _ \<Rightarrow> None | Inr (_, d') \<Rightarrow> Some d')"

definition event_truncate :: "dest_env \<Rightarrow> event \<Rightarrow> lsn \<Rightarrow> database \<Rightarrow> (bool \<times> database) option" where
  "event_truncate env e l d =
     (if ''cdc_table_watermarks'' \<notin> set (meta_objects d) then None
      else if truncateIsStale l (case watermarks d (event_table e) of None \<Rightarrow> 0 | Some w \<Rightarrow> w) then Some (False, d)
      else (case change_table d (event_table e) [] (\<lambda>tbl. Inr (0, tbl\<lparr>tbl_rows := []\<rparr>)) of
              None \<Rightarrow> None
            | Some d' \<Rightarrow> Some (True, d'\<lparr>watermarks := (watermarks d')(event_table e \<mapsto> l)\<rparr>)))"

definition event_mutation :: "dest_env \<Rightarrow> event \<Rightarrow> database \<Rightarrow> (bool \<times> database) option" where
  "event_mutation env e d =
     (case event_lsn env e of
        None \<Rightarrow> None
      | Some l \<Rightarrow>
          (case Operation e of
             OperationTruncate \<Rightarrow> event_truncate env e l d
           | OperationDelete \<Rightarrow>
               if columns_ok e \<and> row_ok (Key e)
               then map_option (Pair True) (change_table d (event_table e) (row_cols (Key e)) (\<lambda>tbl. Inr (run_delete tbl (Key e) l)))
               else None
           | OtherOp _ \<Rightarrow> Some (True, d)
           | _ \<Rightarrow>
               if write_ok_event e
               then map_option (Pair True) (change_table d (event_table e) (row_cols (After e)) (event_write e l))
               else None))"

definition event_mark :: "dest_env \<Rightarrow> event \<Rightarrow> database \<Rightarrow> (bool \<times> database) option" where
  "event_mark env e d =
     (if ''cdc_applied_events'' \<notin> set (meta_objects d) then None
      else map_option (insert_marker d (ID e)) (event_lsn env e))"

definition event_apply :: "dest_env \<Rightarrow> event \<Rightarrow> database \<Rightarrow> (bool \<times> database) option" where
  "event_apply env e d =
     (if \<not> event_ok e then None
      else (case event_mark env e d of
              None \<Rightarrow> None
            | Some (False, d') \<Rightarrow> Some (False, d')
            | Some (True, d') \<Rightarrow> event_mutation env e d'))"

fun events_apply :: "dest_env \<Rightarrow> event list \<Rightarrow> database \<Rightarrow> database option" where
  "events_apply env [] d = Some d"
| "events_apply env (e # es) d =
     (case event_apply env e d of None \<Rightarrow> None | Some (_, d') \<Rightarrow> events_apply env es d')"

section \<open>Markers and tables are independent\<close>

text \<open>A database with other markers; mutations neither read nor write them.\<close>

definition with_markers :: "(string \<rightharpoonup> lsn) \<Rightarrow> database \<Rightarrow> database" where
  "with_markers m d = d\<lparr>applied_events := m\<rparr>"

lemma with_markers_simps [simp]:
  "applied_events (with_markers m d) = m" "tables (with_markers m d) = tables d"
  "watermarks (with_markers m d) = watermarks d" "meta_objects (with_markers m d) = meta_objects d"
  "with_markers m (with_markers m' d) = with_markers m d" "with_markers (applied_events d) d = d"
  by (simp_all add: with_markers_def)

lemma change_table_markers:
  "change_table (with_markers m d) table columns f = map_option (with_markers m) (change_table d table columns f)"
  by (simp add: change_table_def on_table_def with_markers_def split: option.split sum.split prod.split)

lemma with_markers_watermarks: "(with_markers m d)\<lparr>watermarks := w\<rparr> = with_markers m (d\<lparr>watermarks := w\<rparr>)"
  by (simp add: with_markers_def)

lemma event_truncate_markers:
  "event_truncate env e l (with_markers m d) = map_option (apsnd (with_markers m)) (event_truncate env e l d)"
  by (simp add: event_truncate_def change_table_markers with_markers_watermarks split: option.split)

lemma event_mutation_markers:
  "event_mutation env e (with_markers m d) = map_option (apsnd (with_markers m)) (event_mutation env e d)"
  by (simp add: event_mutation_def event_truncate_markers change_table_markers option.map_comp comp_def
      split: option.split operation.split) blast

lemma change_table_keeps:
  "change_table d table columns f = Some d' \<Longrightarrow> applied_events d' = applied_events d \<and> meta_objects d' = meta_objects d"
  by (auto simp: change_table_def on_table_def split: option.splits sum.splits if_splits)

lemma event_mutation_keeps:
  "event_mutation env e d = Some (b, d') \<Longrightarrow> applied_events d' = applied_events d \<and> meta_objects d' = meta_objects d"
  by (auto simp: event_mutation_def event_truncate_def split: option.splits operation.splits if_splits
      dest!: change_table_keeps)

lemma insert_marker_alt:
  "insert_marker d eid l =
     (applied_events d eid = None,
      with_markers (if applied_events d eid = None then (applied_events d)(eid \<mapsto> l) else applied_events d) d)"
  by (simp add: insert_marker_def with_markers_def)

end
