(* ===== verification/Applier_Refines.thy ===== *)
theory Applier_Refines
  imports Event_Effect Applier_Runs
begin

text \<open>
  The applier implements the effect of events: inside a transaction, with services that answer,
  \<open>ApplyInTx\<close> does what \<open>event_apply\<close> says and \<open>ApplyBatch\<close>, which sends all markers first and
  queues statements, does what applying the events one after the other says.
\<close>

section \<open>Services that answer\<close>

definition no_faults :: "dest_env \<Rightarrow> bool" where
  "no_faults env \<longleftrightarrow> (\<forall>n stmt ps d. fault env n stmt ps d = None) \<and> (\<forall>n. close_fault env n = None)"

text \<open>The text form of a position reads back as the position.\<close>

definition lsn_codec :: "dest_env \<Rightarrow> bool" where
  "lsn_codec env \<longleftrightarrow> (\<forall>l. parse_lsn env (lsn_text env l) = Some l)"

definition in_tx :: "conn \<Rightarrow> database \<Rightarrow> bool" where
  "in_tx c d \<longleftrightarrow> tx_view c = Some d \<and> \<not> tx_aborted c"

text \<open>A statement on the database it sees.\<close>

definition stmt_on :: "dest_env \<Rightarrow> sql_stmt \<Rightarrow> param list \<Rightarrow> database \<Rightarrow> (sql_result \<times> database) option" where
  "stmt_on env stmt ps d =
     (if \<not> has_meta d stmt then None
      else (case run_stmt env 0 stmt ps d of Inl _ \<Rightarrow> None | Inr x \<Rightarrow> Some x))"

lemma run_stmt_now: "stmt \<noteq> DeadLetterInsertSQL \<Longrightarrow> run_stmt env now stmt ps d = run_stmt env 0 stmt ps d"
  by (cases stmt) simp_all

text \<open>\<open>gives r spec\<close>: the call succeeds with the value and the database of \<open>spec\<close>, or fails as it does.\<close>

definition gives :: "('e + 'a) \<times> conn \<Rightarrow> ('a \<times> database) option \<Rightarrow> bool" where
  "gives r spec \<longleftrightarrow> (case spec of None \<Rightarrow> \<exists>e. fst r = Inl e | Some (x, d) \<Rightarrow> fst r = Inr x \<and> in_tx (snd r) d)"

definition gives_ok :: "goerr option \<times> conn \<Rightarrow> database option \<Rightarrow> bool" where
  "gives_ok r spec \<longleftrightarrow> (case spec of None \<Rightarrow> fst r \<noteq> None | Some d \<Rightarrow> fst r = None \<and> in_tx (snd r) d)"

definition on_table_pg :: "(dtable \<Rightarrow> goerr + nat \<times> dtable) \<Rightarrow> bool" where
  "on_table_pg f \<longleftrightarrow> (\<forall>tbl e. f tbl = Inl e \<longrightarrow> (\<exists>code. e = PgError code))"

lemma on_table_error:
  "on_table d table columns f = Inl e \<Longrightarrow> on_table_pg f \<Longrightarrow> \<exists>code. e = PgError code"
  by (auto simp: on_table_def on_table_pg_def split: option.splits if_splits sum.splits)

lemma on_table_pg_intros:
  "on_table_pg (\<lambda>tbl. Inr (g tbl))"
  "(\<And>l. on_table_pg (f l)) \<Longrightarrow>
     on_table_pg (\<lambda>tbl. case x of None \<Rightarrow> Inl (PgError ''22P02'') | Some l \<Rightarrow> f l tbl)"
  "on_table_pg (\<lambda>tbl. run_upsert tbl k cs l t)" "on_table_pg (\<lambda>tbl. run_update tbl key cs l t)"
  "on_table_pg (\<lambda>tbl. run_insert tbl cs l t)"
  "on_table_pg (\<lambda>tbl. case add_column env tbl c ty n dflt of Inl e \<Rightarrow> Inl e | Inr tbl' \<Rightarrow> Inr (0, tbl'))"
  by (auto simp: on_table_pg_def with_lsn_def run_upsert_def run_update_def run_insert_def add_column_def Let_def
      split: option.splits if_splits sum.splits)

lemma run_stmt_error: "run_stmt env now stmt ps d = Inl e \<Longrightarrow> \<exists>code. e = PgError code"
  by (cases stmt)
    (auto simp: with_lsn_def split: option.splits prod.splits if_splits sum.splits
      dest!: on_table_error intro: on_table_pg_intros)

lemma exec_gives:
  assumes "no_faults env" and "in_tx c d" and "stmt \<noteq> DeadLetterInsertSQL"
  shows "gives (exec env stmt ps c) (stmt_on env stmt ps d)"
  using assms run_stmt_now [OF assms(3), of env "clock env (tick c)" ps d]
  by (auto simp: gives_def exec_def stmt_on_def no_faults_def in_tx_def view_def put_view_def fail_stmt_def
      split: sum.split)

lemma exec_error:
  assumes "no_faults env" and "in_tx c d" and "fst (exec env stmt ps c) = Inl e"
  shows "\<exists>code. e = PgError code"
proof -
  have "fault env (tick c) stmt ps (view c) = None" "\<not> tx_aborted c"
    using assms by (auto simp: no_faults_def in_tx_def)
  then show ?thesis
    using assms(3) by (auto simp: exec_def fail_stmt_def split: if_splits sum.splits dest: run_stmt_error)
qed

section \<open>Statements of one event\<close>

lemma exec_err_gives:
  assumes "no_faults env" and "in_tx c d" and "stmt \<noteq> DeadLetterInsertSQL"
  shows "gives_ok (exec_err env stmt ps c) (map_option snd (stmt_on env stmt ps d))"
  using exec_gives [OF assms, of ps]
  by (auto simp: exec_err_def gives_def gives_ok_def split: option.splits prod.split sum.split)

lemma execWithPoison_gives:
  assumes "no_faults env" and "in_tx c d" and "stmt \<noteq> DeadLetterInsertSQL"
  shows "gives_ok (execWithPoison env stmt ps msg c) (map_option snd (stmt_on env stmt ps d))"
  using exec_gives [OF assms, of ps]
  by (auto simp: execWithPoison_def gives_def gives_ok_def split: option.splits prod.split sum.split)

text \<open>A first row, no row, or failure.\<close>

lemma query_row_gives:
  assumes "no_faults env" and "in_tx c d" and "stmt \<noteq> DeadLetterInsertSQL"
  shows "case stmt_on env stmt ps d of
           None \<Rightarrow> \<exists>code. fst (query_row env stmt ps c) = Inl (PgError code)
         | Some (TextRows (r # rs), d') \<Rightarrow> fst (query_row env stmt ps c) = Inr r \<and> in_tx (snd (query_row env stmt ps c)) d'
         | Some (_, d') \<Rightarrow> fst (query_row env stmt ps c) = Inl ErrNoRows \<and> in_tx (snd (query_row env stmt ps c)) d'"
  using exec_gives [OF assms, of ps] exec_error [OF assms(1,2), of stmt ps]
  by (auto simp: query_row_def gives_def split: option.splits prod.splits sum.splits sql_result.splits list.splits)

lemma with_lsn_text: "with_lsn env (Some (PText s)) f = (case parse_lsn env s of None \<Rightarrow> Inl (PgError ''22P02'') | Some l \<Rightarrow> f l)"
  by (simp add: with_lsn_def param_lsn_def)

lemma markApplied_gives:
  assumes "no_faults env" and "in_tx c d"
  shows "gives (markApplied env (ID e) (CommitLSN (Source e)) c) (event_mark env e d)"
proof -
  have "stmt_on env MarkerReturningSQL [PText (ID e), PText (CommitLSN (Source e))] d =
        (case event_mark env e d of None \<Rightarrow> None
         | Some (new, d') \<Rightarrow> Some (TextRows (if new then [[Some (ID e)]] else []), d'))"
    by (auto simp: stmt_on_def has_meta_def event_mark_def event_lsn_def with_lsn_text nth_param_def text_param_def
        split: option.split prod.split)
  with query_row_gives [OF assms, of MarkerReturningSQL "[PText (ID e), PText (CommitLSN (Source e))]"] show ?thesis
    by (auto simp: markApplied_def gives_def errors_is_def split: option.splits prod.splits sum.splits if_splits)
qed

lemma tableWatermark_gives:
  assumes "no_faults env" and "lsn_codec env" and "in_tx c d"
  shows "gives (tableWatermark env table c)
           (if ''cdc_table_watermarks'' \<notin> set (meta_objects d) then None
            else Some (case watermarks d table of None \<Rightarrow> 0 | Some w \<Rightarrow> w, d))"
proof -
  have "stmt_on env WatermarkSelectSQL [PText table] d =
        (if ''cdc_table_watermarks'' \<notin> set (meta_objects d) then None
         else Some (TextRows (case watermarks d table of None \<Rightarrow> [] | Some l \<Rightarrow> [[Some (lsn_text env l)]]), d))"
    by (auto simp: stmt_on_def has_meta_def nth_param_def text_param_def)
  with query_row_gives [OF assms(1,3), of WatermarkSelectSQL "[PText table]"] assms(2) show ?thesis
    by (auto simp: tableWatermark_def gives_def errors_is_def lsn_codec_def split: option.splits prod.splits sum.splits if_splits)
qed

text \<open>The truncate steps after the marker.\<close>

lemma truncate_stmts:
  "stmt_on env (TruncateSQL table) [] d = map_option (Pair (Affected 0)) (change_table d table [] (\<lambda>tbl. Inr (0, tbl\<lparr>tbl_rows := []\<rparr>)))"
  by (auto simp: stmt_on_def has_meta_def change_table_def on_table_def split: option.split)

lemma watermark_stmt:
  assumes "''cdc_table_watermarks'' \<in> set (meta_objects d)" and "parse_lsn env s = Some l"
  shows "stmt_on env WatermarkUpsertSQL [PText table, PText s] d = Some (Affected 1, d\<lparr>watermarks := (watermarks d)(table \<mapsto> l)\<rparr>)"
  using assms by (simp add: stmt_on_def has_meta_def with_lsn_text nth_param_def text_param_def)

text \<open>A truncate that is not stale: TRUNCATE, then the watermark.\<close>

lemma truncate_fresh_gives:
  assumes "no_faults env" and "in_tx c1 d" and l: "event_lsn env e = Some l"
    and "tableWatermark env (event_table e) c = (Inr w, c1)" and "\<not> truncateIsStale l w"
    and meta: "''cdc_table_watermarks'' \<in> set (meta_objects d)"
  shows "gives_ok (applyTruncateBatched env e c)
    (map_option (\<lambda>d'. d'\<lparr>watermarks := (watermarks d')(event_table e \<mapsto> l)\<rparr>)
      (change_table d (event_table e) [] (\<lambda>tbl. Inr (0, tbl\<lparr>tbl_rows := []\<rparr>))))"
proof -
  let ?t = "event_table e"
  have p: "parse_lsn env (CommitLSN (Source e)) = Some l"
    using l by (simp add: event_lsn_def)
  have run: "applyTruncateBatched env e c =
      (case exec_err env (TruncateSQL ?t) [] c1 of
         (Some err, c2) \<Rightarrow> (Some (poisonOrWrap err (''truncate '' @ ?t)), c2)
       | (None, c2) \<Rightarrow>
      (case exec_err env WatermarkUpsertSQL [PText ?t, PText (CommitLSN (Source e))] c2 of
         (Some err, c3) \<Rightarrow> (Some (poisonOrWrap err (''advance truncate watermark for '' @ ?t)), c3)
       | (None, c3) \<Rightarrow> (None, c3)))"
    using assms(4) [unfolded event_table_def] assms(5)
    unfolding applyTruncateBatched_def event_table_def by (simp add: p Let_def)
  have tr: "gives_ok (exec_err env (TruncateSQL ?t) [] c1) (change_table d ?t [] (\<lambda>tbl. Inr (0, tbl\<lparr>tbl_rows := []\<rparr>)))"
    using exec_err_gives [OF assms(1,2), of "TruncateSQL ?t" "[]"]
    by (simp add: truncate_stmts option.map_comp comp_def option.map_ident)
  show ?thesis
  proof (cases "change_table d ?t [] (\<lambda>tbl. Inr (0, tbl\<lparr>tbl_rows := []\<rparr>))")
    case None
    with tr show ?thesis
      unfolding run by (auto simp: gives_ok_def split: prod.splits option.splits)
  next
    case (Some d')
    obtain c2 where c2: "exec_err env (TruncateSQL ?t) [] c1 = (None, c2)" "in_tx c2 d'"
      using tr Some by (auto simp: gives_ok_def prod_eq_iff)
    have "''cdc_table_watermarks'' \<in> set (meta_objects d')"
      using change_table_keeps [OF Some] meta by simp
    then have "gives_ok (exec_err env WatermarkUpsertSQL [PText ?t, PText (CommitLSN (Source e))] c2)
        (Some (d'\<lparr>watermarks := (watermarks d')(?t \<mapsto> l)\<rparr>))"
      using exec_err_gives [OF assms(1) c2(2), of WatermarkUpsertSQL "[PText ?t, PText (CommitLSN (Source e))]"]
      by (simp add: watermark_stmt [OF _ p])
    with c2 Some show ?thesis
      unfolding run by (auto simp: gives_ok_def split: prod.splits option.splits)
  qed
qed

lemma applyTruncateBatched_gives:
  assumes "no_faults env" and "lsn_codec env" and "in_tx c d"
  shows "gives_ok (applyTruncateBatched env e c)
           (case event_lsn env e of None \<Rightarrow> None | Some l \<Rightarrow> map_option snd (event_truncate env e l d))"
proof (cases "event_lsn env e")
  case None
  then show ?thesis
    by (simp add: applyTruncateBatched_def event_lsn_def gives_ok_def)
next
  case (Some l)
  let ?t = "event_table e"
  let ?w = "case watermarks d ?t of None \<Rightarrow> 0 | Some w \<Rightarrow> w"
  have p: "parse_lsn env (CommitLSN (Source e)) = Some l"
    using Some by (simp add: event_lsn_def)
  note wm = tableWatermark_gives [OF assms, of ?t]
  show ?thesis
  proof (cases "''cdc_table_watermarks'' \<in> set (meta_objects d)")
    case False
    with wm Some p show ?thesis
      by (auto simp: applyTruncateBatched_def gives_def gives_ok_def event_truncate_def event_table_def Let_def split: prod.splits)
  next
    case True
    obtain c1 where c1: "tableWatermark env ?t c = (Inr ?w, c1)" "in_tx c1 d"
      using wm True by (auto simp: gives_def prod_eq_iff)
    show ?thesis
    proof (cases "truncateIsStale l ?w")
      case stale: True
      with c1 Some p True show ?thesis
        by (simp add: applyTruncateBatched_def gives_ok_def event_truncate_def event_table_def Let_def)
    next
      case fresh: False
      have "map_option snd (event_truncate env e l d) =
          map_option (\<lambda>d'. d'\<lparr>watermarks := (watermarks d')(?t \<mapsto> l)\<rparr>) (change_table d ?t [] (\<lambda>tbl. Inr (0, tbl\<lparr>tbl_rows := []\<rparr>)))"
        using True fresh by (auto simp: event_truncate_def split: option.split)
      with truncate_fresh_gives [OF assms(1) c1(2) Some c1(1) fresh True] Some show ?thesis
        by simp
    qed
  qed
qed

section \<open>Rows as parameters\<close>

definition row_params :: "row \<Rightarrow> param list" where
  "row_params r = map (\<lambda>c. PVal (row_value r c)) (row_cols r)"

lemma length_row_params [simp]: "length (row_params r) = length (row_cols r)"
  by (simp add: row_params_def)

lemma verify_row_columns_None:
  "verify_row_columns cols = None \<longleftrightarrow> (\<forall>c \<in> set cols. identPattern c \<and> c \<notin> set reservedColumns)"
  by (induction cols) (auto simp: verifyIdent_def)

lemma transcodeRow_row_ok:
  assumes "wf_row r"
  shows "row_ok r \<Longrightarrow> transcodeRow r = Inr (row_cols r, row_params r)"
    and "\<not> row_ok r \<Longrightarrow> \<exists>e. transcodeRow r = Inl e"
  using assms verify_row_columns_None [of "row_cols r"]
  by (auto simp: transcodeRow_def row_ok_def row_params_def Let_def split: option.split)

lemma nth_param_append:
  "nth_param (pre @ p # rest) (Suc (length pre)) = Some p"
  by (simp add: nth_param_def)

lemma cells_map:
  "cells (pre @ map f cols @ rest) (Suc (length pre)) cols = map (\<lambda>c. (c, param_value (Some (f c)))) cols"
proof (rule nth_equalityI)
  fix i
  assume "i < length (cells (pre @ map f cols @ rest) (Suc (length pre)) cols)"
  then have i: "i < length cols"
    by (simp add: cells_def)
  have "nth_param (pre @ map f cols @ rest) (Suc (length pre) + i) = Some (f (cols ! i))"
    using i by (simp add: nth_param_def nth_append)
  with i show "cells (pre @ map f cols @ rest) (Suc (length pre)) cols ! i = map (\<lambda>c. (c, param_value (Some (f c)))) cols ! i"
    by (simp add: cells_def nth_enumerate_eq)
qed (simp add: cells_def)

lemma row_values:
  assumes "wf_row r"
  shows "map (\<lambda>c. (c, row_value r c)) (row_cols r) = r"
proof -
  have "(fst p, row_value r (fst p)) = p" if "p \<in> set r" for p
    using assms that by (cases p) (auto simp: row_value_def row_get_in)
  then show ?thesis
    by (simp add: row_cols_def map_idI)
qed

lemma cells_row:
  assumes "wf_row r" and "n = Suc (length pre)"
  shows "cells (pre @ row_params r @ rest) n (row_cols r) = r"
  unfolding assms(2) row_params_def cells_map using row_values [OF assms(1)] by simp

lemma missing_column_subset: "set b \<subseteq> set a \<Longrightarrow> missing_column tbl (a @ b) = missing_column tbl a"
  by (auto simp: missing_column_def)

lemma on_table_columns: "set b \<subseteq> set a \<Longrightarrow> on_table d table (a @ b) f = on_table d table a f"
  by (simp add: on_table_def missing_column_subset split: option.split)

text \<open>The statements of a write as changes of the table.\<close>

definition write_params :: "event \<Rightarrow> param list" where
  "write_params e = appendNumbered (row_params (After e)) (CommitLSN (Source e)) (CommitTime (Source e))"

lemma write_params_nth:
  "nth_param (write_params e @ rest) (Suc (length (row_cols (After e)))) = Some (PText (CommitLSN (Source e)))"
  "nth_param (write_params e @ rest) (Suc (Suc (length (row_cols (After e))))) = Some (PTime (CommitTime (Source e)))"
  by (simp_all add: write_params_def appendNumbered_def nth_param_def nth_append)

lemma write_params_cells:
  assumes "wf_row (After e)"
  shows "cells (write_params e @ rest) (Suc 0) (row_cols (After e)) = After e"
  using cells_row [OF assms, of "Suc 0" "[]"] by (simp add: write_params_def appendNumbered_def)

lemma write_params_key:
  assumes "wf_row (Key e)"
  shows "cells (write_params e @ row_params (Key e)) (length (row_cols (After e)) + 3) (row_cols (Key e)) = Key e"
  using cells_row [OF assms, of "length (row_cols (After e)) + 3" "write_params e" "[]"]
  by (simp add: write_params_def appendNumbered_def)

lemma stmt_on_table:
  assumes "\<And>now. run_stmt env now stmt ps d = on_table d table columns f" and "meta_needed stmt = []"
  shows "map_option snd (stmt_on env stmt ps d) = change_table d table columns f"
  using assms(2) by (auto simp: stmt_on_def has_meta_def assms(1) change_table_def split: sum.split)

lemma param_lsn_event: "event_lsn env e = Some l \<Longrightarrow> param_lsn env (Some (PText (CommitLSN (Source e)))) = Some l"
  by (simp add: param_lsn_def event_lsn_def)

lemma upsert_stmt:
  assumes "wf_row (After e)" and "event_lsn env e = Some l"
    and "set (row_cols (Key e)) \<subseteq> set (row_cols (After e))"
  shows "map_option snd (stmt_on env (UpsertSQL table (row_cols (After e)) (row_cols (Key e)) types) (write_params e) d) =
         change_table d table (row_cols (After e))
           (\<lambda>tbl. run_upsert tbl (row_cols (Key e)) (After e) l (CommitTime (Source e)))"
  using write_params_nth [of e "[]"] write_params_cells [OF assms(1), of "[]"]
  by (intro stmt_on_table) (simp_all add: with_lsn_def param_lsn_event [OF assms(2)] on_table_columns [OF assms(3)])

lemma update_stmt:
  assumes "wf_row (After e)" and "wf_row (Key e)" and "event_lsn env e = Some l"
    and "set (row_cols (Key e)) \<subseteq> set (row_cols (After e))"
  shows "map_option snd (stmt_on env (UpdateSQL table (row_cols (After e)) (row_cols (Key e)) types)
                          (write_params e @ row_params (Key e)) d) =
         change_table d table (row_cols (After e)) (\<lambda>tbl. run_update tbl (Key e) (After e) l (CommitTime (Source e)))"
  using write_params_nth [of e "row_params (Key e)"] write_params_cells [OF assms(1), of "row_params (Key e)"]
    write_params_key [OF assms(2)]
  by (intro stmt_on_table) (simp_all add: with_lsn_def param_lsn_event [OF assms(3)] on_table_columns [OF assms(4)])

lemma insert_stmt:
  assumes "wf_row (After e)" and "event_lsn env e = Some l"
  shows "map_option snd (stmt_on env (InsertSQL table (row_cols (After e)) types) (write_params e) d) =
         change_table d table (row_cols (After e)) (\<lambda>tbl. run_insert tbl (After e) l (CommitTime (Source e)))"
  using write_params_nth [of e "[]"] write_params_cells [OF assms(1), of "[]"]
  by (intro stmt_on_table) (simp_all add: with_lsn_def param_lsn_event [OF assms(2)])

lemma delete_stmt:
  assumes "wf_row (Key e)" and "event_lsn env e = Some l"
  shows "map_option snd (stmt_on env (DeleteSQL table (row_cols (Key e)) types)
                          (row_params (Key e) @ [PText (CommitLSN (Source e))]) d) =
         change_table d table (row_cols (Key e)) (\<lambda>tbl. Inr (run_delete tbl (Key e) l))"
proof (rule stmt_on_table)
  fix now
  have "cells (row_params (Key e) @ [PText (CommitLSN (Source e))]) (Suc 0) (row_cols (Key e)) = Key e"
    using cells_row [OF assms(1), of "Suc 0" "[]"] by simp
  moreover have "nth_param (row_params (Key e) @ [PText (CommitLSN (Source e))]) (Suc (length (row_cols (Key e)))) =
      Some (PText (CommitLSN (Source e)))"
    by (simp add: nth_param_def nth_append)
  ultimately show "run_stmt env now (DeleteSQL table (row_cols (Key e)) types) (row_params (Key e) @ [PText (CommitLSN (Source e))]) d =
      on_table d table (row_cols (Key e)) (\<lambda>tbl. Inr (run_delete tbl (Key e) l))"
    by (simp add: with_lsn_def param_lsn_event [OF assms(2)])
qed simp

lemma probe_stmt:
  assumes "wf_row (Key e)" and "tables d table = Some tbl" and "\<not> missing_column tbl (row_cols (Key e))"
  shows "\<exists>rows. stmt_on env (KeyProbeSQL table (row_cols (Key e)) types) (row_params (Key e)) d = Some (TextRows rows, d) \<and>
                (rows = [] \<longleftrightarrow> \<not> has_key (Key e) tbl)"
  using cells_row [OF assms(1), of "Suc 0" "[]" "[]"] assms
  by (auto simp: stmt_on_def has_meta_def on_table_def has_key_def filter_empty_conv)

lemma tableColumns_gives:
  assumes "no_faults env" and "in_tx c d"
  shows "(\<exists>e. fst (tableColumns env (Schema ev) (Table ev) c) = Inl e) \<and> tables d (event_table ev) = None \<or>
         (\<exists>types. fst (tableColumns env (Schema ev) (Table ev) c) = Inr types) \<and>
           in_tx (snd (tableColumns env (Schema ev) (Table ev) c)) d"
proof -
  let ?q = "qualified_name (Schema ev) (Table ev)"
  let ?c1 = "c\<lparr>columnsSeenAt := (columnsSeenAt c)(?q \<mapsto> clock env (tick c))\<rparr>"
  have c1: "in_tx ?c1 d"
    using assms(2) by (simp add: in_tx_def)
  have "stmt_on env ColumnsSQL [PText ?q] d =
        (case tables d ?q of None \<Rightarrow> None
         | Some tbl \<Rightarrow> Some (TextRows (map (\<lambda>(c, ty). [Some c, Some ty]) (tbl_columns tbl)), d))"
    by (auto simp: stmt_on_def has_meta_def nth_param_def text_param_def split: option.split)
  with exec_gives [OF assms(1) c1, of ColumnsSQL "[PText ?q]"] assms(2) show ?thesis
    by (auto simp: tableColumns_def Let_def gives_def event_table_def in_tx_def split: option.splits prod.splits sum.splits)
qed

section \<open>Writes\<close>

text \<open>The guarded update, the probe and the insert are one change of the table.\<close>

lemma change_table_Some:
  "change_table d table columns f = Some d' \<longleftrightarrow>
     (\<exists>tbl n tbl'. tables d table = Some tbl \<and> \<not> missing_column tbl columns \<and> f tbl = Inr (n, tbl') \<and>
                  d' = d\<lparr>tables := (tables d)(table \<mapsto> tbl')\<rparr>)"
  by (auto simp: change_table_def on_table_def split: option.splits sum.splits if_splits)

lemma change_table_None:
  "change_table d table columns f = None \<longleftrightarrow>
     (\<forall>tbl. tables d table = Some tbl \<longrightarrow> missing_column tbl columns \<or> (\<exists>e. f tbl = Inl e))"
  by (auto simp: change_table_def on_table_def split: option.splits sum.splits if_splits)

lemma run_update_columns: "run_update tbl key cs l t = Inr (n, tbl') \<Longrightarrow> tbl_columns tbl' = tbl_columns tbl"
  by (auto simp: run_update_def Let_def split: if_splits)

text \<open>Once the UPDATE has run, the probe decides whether an INSERT is needed.\<close>

lemma preserving_after_update:
  assumes nf: "no_faults env" and wf: "wf_row (After e)" "wf_row (Key e)" and lsn: "event_lsn env e = Some l"
    and keys: "set (row_cols (Key e)) \<subseteq> set (row_cols (After e))" and un: "UnchangedColumns e \<noteq> []"
    and t: "tables d table = Some tbl" "\<not> missing_column tbl (row_cols (After e))"
      "run_update tbl (Key e) (After e) l (CommitTime (Source e)) = Inr (n, tbl1)" "d1 = d\<lparr>tables := (tables d)(table \<mapsto> tbl1)\<rparr>"
    and c1: "exec_err env (UpdateSQL table (row_cols (After e)) (row_cols (Key e)) types) (write_params e @ row_params (Key e)) c = (None, c1)"
      "in_tx c1 d1"
  shows "gives_ok (applyUpdatePreserving env table (row_cols (After e)) (row_cols (Key e)) types
                     (write_params e) (row_params (Key e)) msg c)
                  (change_table d table (row_cols (After e)) (event_write e l))"
proof -
  let ?ins = "InsertSQL table (row_cols (After e)) types"
  let ?probe = "KeyProbeSQL table (row_cols (Key e)) types"
  have t1: "tables d1 table = Some tbl1" "\<not> missing_column tbl1 (row_cols (After e))" "\<not> missing_column tbl1 (row_cols (Key e))"
    using t keys run_update_columns [OF t(3)] by (auto simp: missing_column_def)
  obtain rows where r: "stmt_on env ?probe (row_params (Key e)) d1 = Some (TextRows rows, d1)" "rows = [] \<longleftrightarrow> \<not> has_key (Key e) tbl1"
    using probe_stmt [OF wf(2) t1(1,3)] by blast
  note q = query_row_gives [OF nf c1(2), of ?probe "row_params (Key e)"]
  show ?thesis
  proof (cases "has_key (Key e) tbl1")
    case True
    then obtain r1 rs where "rows = r1 # rs"
      using r(2) by (cases rows) auto
    with q r(1) obtain c2 where "query_row env ?probe (row_params (Key e)) c1 = (Inr r1, c2)" "in_tx c2 d1"
      by (auto simp: prod_eq_iff)
    moreover have "change_table d table (row_cols (After e)) (event_write e l) = Some d1"
      using t True un by (auto simp: change_table_Some event_write_def)
    ultimately show ?thesis
      using c1 by (simp add: applyUpdatePreserving_def gives_ok_def)
  next
    case False
    with q r obtain c2 where c2: "query_row env ?probe (row_params (Key e)) c1 = (Inl ErrNoRows, c2)" "in_tx c2 d1"
      by (auto simp: prod_eq_iff)
    have "gives_ok (exec_err env ?ins (write_params e) c2)
            (change_table d1 table (row_cols (After e)) (\<lambda>tbl. run_insert tbl (After e) l (CommitTime (Source e))))"
      using exec_err_gives [OF nf c2(2), of ?ins "write_params e"] by (simp add: insert_stmt [OF wf(1) lsn])
    moreover have "change_table d1 table (row_cols (After e)) (\<lambda>tbl. run_insert tbl (After e) l (CommitTime (Source e))) =
        change_table d table (row_cols (After e)) (event_write e l)"
      using t t1(1,2) False un
      by (auto simp: change_table_def on_table_def event_write_def split: sum.split)
    ultimately show ?thesis
      using c1 c2 by (auto simp: applyUpdatePreserving_def gives_ok_def split: prod.splits option.splits)
  qed
qed

lemma applyUpdatePreserving_gives:
  assumes nf: "no_faults env" and tx: "in_tx c d" and wf: "wf_row (After e)" "wf_row (Key e)"
    and lsn: "event_lsn env e = Some l" and keys: "set (row_cols (Key e)) \<subseteq> set (row_cols (After e))"
    and un: "UnchangedColumns e \<noteq> []"
  shows "gives_ok (applyUpdatePreserving env table (row_cols (After e)) (row_cols (Key e)) types
                     (write_params e) (row_params (Key e)) msg c)
                  (change_table d table (row_cols (After e)) (event_write e l))"
proof -
  let ?upd = "UpdateSQL table (row_cols (After e)) (row_cols (Key e)) types"
  let ?f = "\<lambda>tbl. run_update tbl (Key e) (After e) l (CommitTime (Source e))"
  have u: "gives_ok (exec_err env ?upd (write_params e @ row_params (Key e)) c) (change_table d table (row_cols (After e)) ?f)"
    using exec_err_gives [OF nf tx, of ?upd "write_params e @ row_params (Key e)"]
    by (simp add: update_stmt [OF wf lsn keys])
  show ?thesis
  proof (cases "change_table d table (row_cols (After e)) ?f")
    case None
    then have "change_table d table (row_cols (After e)) (event_write e l) = None"
      using un by (auto simp: change_table_None event_write_def)
    with u None show ?thesis
      by (auto simp: applyUpdatePreserving_def gives_ok_def split: prod.splits)
  next
    case (Some d1)
    then obtain tbl n tbl1 where t: "tables d table = Some tbl" "\<not> missing_column tbl (row_cols (After e))"
        "?f tbl = Inr (n, tbl1)" "d1 = d\<lparr>tables := (tables d)(table \<mapsto> tbl1)\<rparr>"
      by (auto simp: change_table_Some)
    obtain c1 where "exec_err env ?upd (write_params e @ row_params (Key e)) c = (None, c1)" "in_tx c1 d1"
      using u Some by (auto simp: gives_ok_def prod_eq_iff)
    from preserving_after_update [OF nf wf lsn keys un t this] show ?thesis .
  qed
qed

lemma reserved_column_None: "reserved_column cols = None \<longleftrightarrow> (\<forall>c \<in> set cols. c \<notin> set reservedColumns)"
  by (induction cols) auto

lemma verifyColumns_None: "verifyColumns e = None \<longleftrightarrow> columns_ok e"
  using reserved_column_None [of "row_cols (After e)"] reserved_column_None [of "row_cols (Key e)"]
  by (auto simp: verifyColumns_def columns_ok_def split: option.split)

lemma key_absent_None: "key_absent cols keys = None \<longleftrightarrow> set keys \<subseteq> set cols"
  by (induction keys) auto

lemma key_unchanged_None: "key_unchanged un keys = None \<longleftrightarrow> set keys \<inter> set un = {}"
  by (induction keys) auto

definition wf_event :: "event \<Rightarrow> bool" where
  "wf_event e \<longleftrightarrow> wf_row (After e) \<and> wf_row (Key e)"

lemmas transcode_ok = transcodeRow_row_ok(1)
lemmas transcode_bad = transcodeRow_row_ok(2)

lemma apply_upsert_gives:
  assumes nf: "no_faults env" and tx: "in_tx c d" and wf: "wf_event e" and lsn: "event_lsn env e = Some l" and cols: "columns_ok e"
  shows "gives_ok (apply_upsert env table types e c)
           (if write_ok_event e then change_table d table (row_cols (After e)) (event_write e l) else None)"
proof (cases "write_ok_event e")
  case True
  then have ok: "row_ok (After e)" "row_ok (Key e)" "set (row_cols (Key e)) \<subseteq> set (row_cols (After e))"
      "key_absent (row_cols (After e)) (row_cols (Key e)) = None" "key_unchanged (UnchangedColumns e) (row_cols (Key e)) = None"
    by (auto simp: write_ok_event_def key_absent_None key_unchanged_None)
  have w: "wf_row (After e)" "wf_row (Key e)"
    using wf by (simp_all add: wf_event_def)
  show ?thesis
  proof (cases "UnchangedColumns e = []")
    case un: True
    have "event_write e l = (\<lambda>tbl. run_upsert tbl (row_cols (Key e)) (After e) l (CommitTime (Source e)))"
      using un by (simp add: event_write_def fun_eq_iff)
    then have "gives_ok (execWithPoison env (UpsertSQL table (row_cols (After e)) (row_cols (Key e)) types) (write_params e) msg c)
            (change_table d table (row_cols (After e)) (event_write e l))" for msg
      using execWithPoison_gives [OF nf tx, of "UpsertSQL table (row_cols (After e)) (row_cols (Key e)) types" "write_params e" msg]
        upsert_stmt [OF w(1) lsn ok(3), of table types d] by simp
    with True ok un show ?thesis
      by (simp add: apply_upsert_def transcode_ok [OF w(1)] transcode_ok [OF w(2)] write_params_def Let_def)
  next
    case un: False
    from applyUpdatePreserving_gives [OF nf tx w lsn ok(3) un] True ok un show ?thesis
      by (simp add: apply_upsert_def transcode_ok [OF w(1)] transcode_ok [OF w(2)] write_params_def Let_def)
  qed
next
  case False
  with cols consider "\<not> row_ok (After e)" | "row_ok (After e)" "\<not> row_ok (Key e)"
    | "row_ok (After e)" "row_ok (Key e)" "key_absent (row_cols (After e)) (row_cols (Key e)) \<noteq> None"
    | "row_ok (After e)" "row_ok (Key e)" "key_absent (row_cols (After e)) (row_cols (Key e)) = None"
      "key_unchanged (UnchangedColumns e) (row_cols (Key e)) \<noteq> None"
    unfolding write_ok_event_def key_absent_None key_unchanged_None by blast
  then show ?thesis
    using False wf transcode_ok [of "After e"] transcode_ok [of "Key e"] transcode_bad [of "After e"] transcode_bad [of "Key e"]
    by cases (auto simp: apply_upsert_def gives_ok_def wf_event_def)
qed

lemma apply_delete_gives:
  assumes nf: "no_faults env" and tx: "in_tx c d" and wf: "wf_event e" and lsn: "event_lsn env e = Some l"
  shows "gives_ok (apply_delete env table types e c)
           (if row_ok (Key e) then change_table d table (row_cols (Key e)) (\<lambda>tbl. Inr (run_delete tbl (Key e) l)) else None)"
proof -
  have w: "wf_row (Key e)"
    using wf by (simp add: wf_event_def)
  show ?thesis
  proof (cases "row_ok (Key e)")
    case True
    from execWithPoison_gives [OF nf tx, of "DeleteSQL table (row_cols (Key e)) types" "row_params (Key e) @ [PText (CommitLSN (Source e))]"]
      delete_stmt [OF w lsn] True show ?thesis
      by (simp add: apply_delete_def transcode_ok [OF w])
  next
    case False
    with transcode_bad [OF w] show ?thesis
      by (auto simp: apply_delete_def gives_ok_def)
  qed
qed

text \<open>The three operations that write rows.\<close>

definition row_operation :: "event \<Rightarrow> bool" where
  "row_operation e \<longleftrightarrow> Operation e \<in> {OperationInsert, OperationUpdate, OperationDelete}"

lemma missing_table_mutation:
  "row_operation e \<Longrightarrow> tables d (event_table e) = None \<Longrightarrow> event_mutation env e d = None"
  by (auto simp: event_mutation_def row_operation_def change_table_None split: option.split)

lemma applyMutation_gives:
  assumes nf: "no_faults env" and tx: "in_tx c d" and wf: "wf_event e" and lsn: "event_lsn env e = Some l"
    and op: "row_operation e"
  shows "gives_ok (applyMutation env e c) (map_option snd (event_mutation env e d))"
proof (cases "columns_ok e")
  case False
  then have "verifyColumns e \<noteq> None" by (simp add: verifyColumns_None)
  with False op lsn show ?thesis
    by (auto simp: applyMutation_def gives_ok_def event_mutation_def row_operation_def write_ok_event_def)
next
  case True
  then have v: "verifyColumns e = None" by (simp add: verifyColumns_None)
  obtain x c1 where x: "tableColumns env (Schema e) (Table e) c = (x, c1)"
    by (cases "tableColumns env (Schema e) (Table e) c") auto
  from tableColumns_gives [OF nf tx, of e] x consider
    err where "x = Inl err" "tables d (event_table e) = None" | types where "x = Inr types" "in_tx c1 d"
    by auto
  then show ?thesis
  proof cases
    case 1
    then show ?thesis
      using missing_table_mutation [OF op] x v by (simp add: applyMutation_def gives_ok_def)
  next
    case 2
    from apply_upsert_gives [OF nf 2(2) wf lsn True, of "event_table e" types]
      apply_delete_gives [OF nf 2(2) wf lsn, of "event_table e" types] op True lsn show ?thesis
      by (auto simp: applyMutation_def v x 2 event_mutation_def row_operation_def event_table_def option.map_comp comp_def
          option.map_ident)
  qed
qed

lemma event_ok_idents:
  "event_ok e \<longleftrightarrow> Validate e = None \<and> verifyIdent (Schema e) = None \<and> verifyIdent (Table e) = None"
  by (auto simp: event_ok_def verifyIdent_def)

lemma valid_operation: "Validate e = None \<Longrightarrow> Operation e = OperationTruncate \<or> row_operation e"
  by (auto simp: Validate_def row_operation_def split: operation.splits if_splits)

lemma event_mark_lsn: "event_mark env e d = Some x \<Longrightarrow> \<exists>l. event_lsn env e = Some l"
  by (auto simp: event_mark_def split: if_splits)

lemma applyTruncateInTx_alt:
  "applyTruncateInTx env e c =
     (case markApplied env (ID e) (CommitLSN (Source e)) c of
        (Inl err, c1) \<Rightarrow> (Inl err, c1)
      | (Inr False, c1) \<Rightarrow> (Inr False, c1)
      | (Inr True, c1) \<Rightarrow>
          (case applyTruncateBatched env e c1 of
             (Some err, c2) \<Rightarrow> (Inl err, c2)
           | (None, c2) \<Rightarrow>
               (Inr (case parse_lsn env (CommitLSN (Source e)) of None \<Rightarrow> True
                     | Some l \<Rightarrow> (case fst (tableWatermark env (event_table e) c1) of Inl _ \<Rightarrow> True | Inr w \<Rightarrow> \<not> truncateIsStale l w)), c2)))"
  by (simp add: applyTruncateInTx_def applyTruncateBatched_def Let_def event_table_def split: prod.split sum.split option.split bool.split)

lemma event_truncate_fst:
  "event_truncate env e l d = Some (b, d') \<Longrightarrow>
   ''cdc_table_watermarks'' \<in> set (meta_objects d) \<and>
   b = (\<not> truncateIsStale l (case watermarks d (event_table e) of None \<Rightarrow> 0 | Some w \<Rightarrow> w))"
  by (auto simp: event_truncate_def split: if_splits option.splits)

text \<open>The two branches once the marker is in, and new.\<close>

lemma truncate_branch_gives:
  assumes "no_faults env" and "lsn_codec env" and "in_tx c1 d1" and l: "event_lsn env e = Some l"
    and marked: "markApplied env (ID e) (CommitLSN (Source e)) c = (Inr True, c1)"
  shows "gives (applyTruncateInTx env e c) (event_truncate env e l d1)"
proof -
  have bt: "gives_ok (applyTruncateBatched env e c1) (map_option snd (event_truncate env e l d1))"
    using applyTruncateBatched_gives [OF assms(1-3), of e] l by simp
  have w: "fst (tableWatermark env (event_table e) c1) = Inr (case watermarks d1 (event_table e) of None \<Rightarrow> 0 | Some w \<Rightarrow> w)"
    if "''cdc_table_watermarks'' \<in> set (meta_objects d1)"
    using tableWatermark_gives [OF assms(1-3), of "event_table e"] that by (simp add: gives_def)
  show ?thesis
  proof (cases "event_truncate env e l d1")
    case None
    with bt obtain err c2 where "applyTruncateBatched env e c1 = (Some err, c2)"
      by (cases "applyTruncateBatched env e c1") (auto simp: gives_ok_def)
    with None marked show ?thesis
      unfolding applyTruncateInTx_alt by (simp add: gives_def)
  next
    case (Some q)
    obtain b d' where q: "q = (b, d')"
      by (cases q) auto
    note f = event_truncate_fst [OF Some [unfolded q]]
    obtain c2 where "applyTruncateBatched env e c1 = (None, c2)" "in_tx c2 d'"
      using bt Some q by (cases "applyTruncateBatched env e c1") (auto simp: gives_ok_def)
    then show ?thesis
      using Some q f w l marked
      unfolding applyTruncateInTx_alt by (simp add: gives_def event_lsn_def)
  qed
qed

lemma mutation_branch_gives:
  assumes "no_faults env" and "in_tx c1 d1" and "wf_event e" and "event_lsn env e = Some l" and op: "row_operation e"
  shows "gives (case applyMutation env e c1 of (Some err, c2) \<Rightarrow> (Inl err, c2) | (None, c2) \<Rightarrow> (Inr True, c2))
    (event_mutation env e d1)"
proof -
  obtain y c2 where y: "applyMutation env e c1 = (y, c2)"
    by (cases "applyMutation env e c1") auto
  have am: "gives_ok (y, c2) (map_option snd (event_mutation env e d1))"
    using applyMutation_gives [OF assms] y by simp
  have b: "b" if "event_mutation env e d1 = Some (b, d')" for b d'
    using that op by (auto simp: event_mutation_def row_operation_def split: option.splits if_splits)
  show ?thesis
  proof (cases "event_mutation env e d1")
    case None
    with am y show ?thesis
      by (auto simp: gives_def gives_ok_def)
  next
    case (Some q)
    with am y b show ?thesis
      by (cases q) (auto simp: gives_def gives_ok_def)
  qed
qed

lemma ApplyInTx_gives:
  assumes nf: "no_faults env" and lc: "lsn_codec env" and tx: "in_tx c d" and wf: "wf_event e"
  shows "gives (ApplyInTx env e c) (event_apply env e d)"
proof (cases "event_ok e")
  case False
  then show ?thesis
    by (auto simp: ApplyInTx_def event_apply_def gives_def event_ok_idents split: option.split)
next
  case True
  then have v: "Validate e = None" "verifyIdent (Schema e) = None" "verifyIdent (Table e) = None"
    by (auto simp: event_ok_idents)
  note m = markApplied_gives [OF nf tx, of e]
  obtain x c1 where x: "markApplied env (ID e) (CommitLSN (Source e)) c = (x, c1)"
    by (cases "markApplied env (ID e) (CommitLSN (Source e)) c") auto
  consider (refused) "event_mark env e d = None" | (seen) d1 where "event_mark env e d = Some (False, d1)"
    | (new) d1 where "event_mark env e d = Some (True, d1)"
    by (metis (full_types) not_Some_eq prod.collapse)
  then show ?thesis
  proof cases
    case refused
    then obtain err where "x = Inl err"
      using m x by (auto simp: gives_def)
    with True v x refused show ?thesis
      by (simp add: ApplyInTx_def event_apply_def gives_def applyTruncateInTx_def)
  next
    case (seen d1)
    with m x have "x = Inr False" "in_tx c1 d1"
      by (auto simp: gives_def)
    with True v x seen show ?thesis
      by (simp add: ApplyInTx_def event_apply_def gives_def applyTruncateInTx_def)
  next
    case (new d1)
    with m x have c1: "x = Inr True" "in_tx c1 d1"
      by (auto simp: gives_def)
    obtain l where l: "event_lsn env e = Some l"
      using event_mark_lsn [OF new] by blast
    have ea: "event_apply env e d = event_mutation env e d1"
      using True new by (simp add: event_apply_def)
    show ?thesis
    proof (cases "Operation e = OperationTruncate")
      case trunc: True
      then show ?thesis
        using truncate_branch_gives [OF nf lc c1(2) l] x c1(1) v
        unfolding ea by (simp add: ApplyInTx_def event_mutation_def l)
    next
      case False
      then have "row_operation e"
        using valid_operation [OF v(1)] by blast
      from mutation_branch_gives [OF nf c1(2) wf l this] show ?thesis
        unfolding ea using x c1(1) v False by (simp add: ApplyInTx_def)
    qed
  qed
qed

section \<open>The batch\<close>

definition plain_stmt :: "sql_stmt \<Rightarrow> bool" where
  "plain_stmt stmt \<longleftrightarrow> (\<exists>t c k ty. stmt = UpsertSQL t c k ty) \<or> (\<exists>t k ty. stmt = DeleteSQL t k ty)"

definition plain_queue :: "queued_exec list \<Rightarrow> bool" where
  "plain_queue q \<longleftrightarrow> (\<forall>(i, e, stmt, ps) \<in> set q. plain_stmt stmt)"

fun queue_on :: "dest_env \<Rightarrow> queued_exec list \<Rightarrow> database \<Rightarrow> database option" where
  "queue_on env [] d = Some d"
| "queue_on env ((i, e, stmt, ps) # q) d =
     (case stmt_on env stmt ps d of None \<Rightarrow> None | Some (_, d') \<Rightarrow> queue_on env q d')"

lemma queue_on_append: "queue_on env (q @ r) d = Option.bind (queue_on env q d) (queue_on env r)"
  by (induction env q d rule: queue_on.induct) (auto split: option.splits)

lemma stmt_on_tables:
  "plain_stmt stmt \<Longrightarrow> stmt_on env stmt ps d = Some (r, d') \<Longrightarrow> dom (tables d') = dom (tables d)"
  by (auto simp: plain_stmt_def stmt_on_def on_table_def split: if_splits sum.splits option.splits)

lemma queue_on_tables: "plain_queue q \<Longrightarrow> queue_on env q d = Some d' \<Longrightarrow> dom (tables d') = dom (tables d)"
proof (induction q arbitrary: d)
  case Nil
  then show ?case by simp
next
  case (Cons a q)
  obtain i e stmt ps where a: "a = (i, e, stmt, ps)"
    by (cases a) auto
  then obtain r d1 where d1: "stmt_on env stmt ps d = Some (r, d1)" "queue_on env q d1 = Some d'"
    using Cons.prems(2) by (auto split: option.splits)
  have "plain_stmt stmt" "plain_queue q"
    using Cons.prems(1) a by (auto simp: plain_queue_def)
  with Cons.IH [OF _ d1(2)] stmt_on_tables [OF _ d1(1)] show ?case by simp
qed

definition batch_gives :: "batch_result \<times> conn \<Rightarrow> database option \<Rightarrow> bool" where
  "batch_gives r spec \<longleftrightarrow>
     (case spec of None \<Rightarrow> fst r \<noteq> BatchOk | Some d \<Rightarrow> fst r = BatchOk \<and> in_tx (snd r) d)"

lemma run_queued_gives:
  "no_faults env \<Longrightarrow> in_tx c d \<Longrightarrow> plain_queue q \<Longrightarrow> batch_gives (run_queued env q c) (queue_on env q d)"
proof (induction q arbitrary: c d)
  case Nil
  then show ?case by (simp add: batch_gives_def)
next
  case (Cons a q)
  obtain i e stmt ps where a: "a = (i, e, stmt, ps)"
    by (cases a) auto
  have "plain_stmt stmt" "plain_queue q"
    using Cons.prems(3) a by (auto simp: plain_queue_def)
  moreover from this have "stmt \<noteq> DeadLetterInsertSQL"
    by (auto simp: plain_stmt_def)
  ultimately have ex: "gives (exec env stmt ps c) (stmt_on env stmt ps d)"
    using exec_gives [OF Cons.prems(1,2)] by blast
  show ?case
  proof (cases "stmt_on env stmt ps d")
    case None
    with ex a show ?thesis
      by (cases "exec env stmt ps c") (auto simp: gives_def batch_gives_def)
  next
    case (Some p)
    obtain r d1 where p: "p = (r, d1)"
      by (cases p) auto
    with ex Some obtain c1 where c1: "exec env stmt ps c = (Inr r, c1)" "in_tx c1 d1"
      by (cases "exec env stmt ps c") (auto simp: gives_def)
    from Cons.IH [OF Cons.prems(1) c1(2) \<open>plain_queue q\<close>] show ?thesis
      using a c1(1) Some p by simp
  qed
qed

lemma flush_gives:
  assumes "no_faults env" and "in_tx c d" and "plain_queue q"
  shows "batch_gives (flush env q c) (queue_on env q d)"
  using run_queued_gives [OF assms] assms(1,2)
  by (auto simp: flush_def batch_gives_def close_batch_def no_faults_def in_tx_def
      split: option.splits prod.splits batch_result.splits)

text \<open>What the loop decides for a delete or a write, before any statement of the queue has run.\<close>

definition prepared_ok :: "dest_env \<Rightarrow> event \<Rightarrow> database \<Rightarrow> prepared \<times> conn \<Rightarrow> bool" where
  "prepared_ok env e d r \<longleftrightarrow>
     (case fst r of
        Refuse err \<Rightarrow> \<forall>d'. dom (tables d') = dom (tables d) \<longrightarrow> event_mutation env e d' = None
      | Queue stmt ps \<Rightarrow> in_tx (snd r) d \<and> plain_stmt stmt \<and>
          (\<forall>d'. map_option snd (stmt_on env stmt ps d') = map_option snd (event_mutation env e d'))
      | Preserve cols keys types params keyValues \<Rightarrow>
          in_tx (snd r) d \<and> write_ok_event e \<and> Operation e \<noteq> OperationDelete \<and> UnchangedColumns e \<noteq> [] \<and>
          cols = row_cols (After e) \<and> keys = row_cols (Key e) \<and> params = write_params e \<and> keyValues = row_params (Key e))"

text \<open>A table that is not there.\<close>

lemma prepared_missing_table:
  assumes "row_operation e" and "tables d (event_table e) = None"
  shows "prepared_ok env e d (Refuse err, c)"
proof -
  have "tables d' (event_table e) = None" if "dom (tables d') = dom (tables d)" for d'
    using that assms(2) by (metis domIff)
  then show ?thesis
    using missing_table_mutation [OF assms(1)] by (auto simp: prepared_ok_def)
qed

lemma batch_delete_ok:
  assumes nf: "no_faults env" and tx: "in_tx c d" and wf: "wf_event e" and lsn: "event_lsn env e = Some l"
    and op: "Operation e = OperationDelete"
  shows "prepared_ok env e d (batch_delete env e c)"
proof -
  have em: "event_mutation env e d' = (if columns_ok e \<and> row_ok (Key e)
        then map_option (Pair True) (change_table d' (event_table e) (row_cols (Key e)) (\<lambda>tbl. Inr (run_delete tbl (Key e) l)))
        else None)" for d'
    by (simp add: event_mutation_def op lsn)
  have w: "wf_row (Key e)"
    using wf by (simp add: wf_event_def)
  obtain x c1 where x: "tableColumns env (Schema e) (Table e) c = (x, c1)"
    by (cases "tableColumns env (Schema e) (Table e) c") auto
  note tc = tableColumns_gives [OF nf tx, of e, unfolded x]
  consider "\<not> columns_ok e" | err where "columns_ok e" "x = Inl err" | types where "columns_ok e" "x = Inr types"
    by (cases x) auto
  then show ?thesis
  proof cases
    case 1
    then show ?thesis
      using verifyColumns_None [of e] by (auto simp: batch_delete_def prepared_ok_def em)
  next
    case (2 err)
    then have "verifyColumns e = None" "row_operation e"
      using op by (simp_all add: verifyColumns_None row_operation_def)
    with 2 show ?thesis
      using prepared_missing_table [of e d] tc x by (simp add: batch_delete_def)
  next
    case (3 types)
    then have v: "verifyColumns e = None" and c1: "in_tx c1 d"
      using tc by (simp_all add: verifyColumns_None)
    show ?thesis
    proof (cases "row_ok (Key e)")
      case True
      then show ?thesis
        using v x 3 c1 transcode_ok [OF w True] delete_stmt [OF w lsn]
        by (simp add: batch_delete_def prepared_ok_def em plain_stmt_def event_table_def option.map_comp comp_def option.map_ident)
    next
      case False
      with v x 3 transcode_bad [OF w] show ?thesis
        by (auto simp: batch_delete_def prepared_ok_def em)
    qed
  qed
qed

text \<open>An upsert whose column types are known.\<close>

lemma batch_upsert_typed:
  assumes w: "wf_row (After e)" "wf_row (Key e)" and lsn: "event_lsn env e = Some l"
    and op: "Operation e \<in> {OperationInsert, OperationUpdate}" and ok: "columns_ok e"
    and x: "tableColumns env (Schema e) (Table e) c = (Inr types, c1)" and c1: "in_tx c1 d"
  shows "prepared_ok env e d (batch_upsert env e c)"
proof -
  have em: "event_mutation env e d' = (if write_ok_event e
        then map_option (Pair True) (change_table d' (event_table e) (row_cols (After e)) (event_write e l)) else None)" for d'
    using op by (auto simp: event_mutation_def lsn)
  have v: "verifyColumns e = None"
    using ok by (simp add: verifyColumns_None)
  show ?thesis
  proof (cases "write_ok_event e")
    case True
    then have oks: "row_ok (After e)" "row_ok (Key e)" "set (row_cols (Key e)) \<subseteq> set (row_cols (After e))"
        "key_absent (row_cols (After e)) (row_cols (Key e)) = None" "key_unchanged (UnchangedColumns e) (row_cols (Key e)) = None"
      by (auto simp: write_ok_event_def key_absent_None key_unchanged_None)
    have ew: "UnchangedColumns e = [] \<Longrightarrow> event_write e l = (\<lambda>tbl. run_upsert tbl (row_cols (Key e)) (After e) l (CommitTime (Source e)))"
      by (simp add: event_write_def fun_eq_iff)
    show ?thesis
      using v x c1 True oks op ew transcode_ok [OF w(1)] transcode_ok [OF w(2)] upsert_stmt [OF w(1) lsn oks(3)]
      by (cases "UnchangedColumns e = []")
        (auto simp: batch_upsert_def prepared_ok_def em plain_stmt_def event_table_def option.map_comp comp_def
          option.map_ident Let_def write_params_def)
  next
    case False
    with ok consider "\<not> row_ok (After e)" | "row_ok (After e)" "\<not> row_ok (Key e)"
      | "row_ok (After e)" "row_ok (Key e)" "key_absent (row_cols (After e)) (row_cols (Key e)) \<noteq> None"
      | "row_ok (After e)" "row_ok (Key e)" "key_absent (row_cols (After e)) (row_cols (Key e)) = None"
        "key_unchanged (UnchangedColumns e) (row_cols (Key e)) \<noteq> None"
      unfolding write_ok_event_def key_absent_None key_unchanged_None by blast
    then show ?thesis
      using False v x transcode_ok [OF w(1)] transcode_ok [OF w(2)] transcode_bad [OF w(1)] transcode_bad [OF w(2)]
      by cases (auto simp: batch_upsert_def prepared_ok_def em)
  qed
qed

lemma batch_upsert_ok:
  assumes nf: "no_faults env" and tx: "in_tx c d" and wf: "wf_event e" and lsn: "event_lsn env e = Some l"
    and op: "Operation e \<in> {OperationInsert, OperationUpdate}"
  shows "prepared_ok env e d (batch_upsert env e c)"
proof -
  obtain x c1 where x: "tableColumns env (Schema e) (Table e) c = (x, c1)"
    by (cases "tableColumns env (Schema e) (Table e) c") auto
  note tc = tableColumns_gives [OF nf tx, of e, unfolded x]
  consider "\<not> columns_ok e" | err where "columns_ok e" "x = Inl err" | types where "columns_ok e" "x = Inr types"
    by (cases x) auto
  then show ?thesis
  proof cases
    case 1
    then have "event_mutation env e d' = None" for d'
      using op by (auto simp: event_mutation_def lsn write_ok_event_def)
    with 1 show ?thesis
      using verifyColumns_None [of e] by (auto simp: batch_upsert_def prepared_ok_def)
  next
    case (2 err)
    then have "verifyColumns e = None" "row_operation e"
      using op by (auto simp: verifyColumns_None row_operation_def)
    with 2 show ?thesis
      using prepared_missing_table [of e d] tc x by (simp add: batch_upsert_def)
  next
    case (3 types)
    then show ?thesis
      using batch_upsert_typed [OF _ _ lsn op] wf tc x by (simp add: wf_event_def)
  qed
qed

fun mutations_apply :: "dest_env \<Rightarrow> (event \<times> bool) list \<Rightarrow> database \<Rightarrow> database option" where
  "mutations_apply env [] d = Some d"
| "mutations_apply env ((e, fresh) # rest) d =
     (if \<not> fresh then mutations_apply env rest d
      else (case event_mutation env e d of None \<Rightarrow> None | Some (_, d') \<Rightarrow> mutations_apply env rest d'))"

lemma mutations_apply_Nil: "Option.bind x (mutations_apply env []) = x"
  by (cases x) simp_all

lemma mutations_apply_seen: "mutations_apply env ((e, False) # evs) = mutations_apply env evs"
  by (rule ext) simp

lemma batch_prepare_ok:
  assumes "no_faults env" and "in_tx c d" and "wf_event e" and "event_lsn env e = Some l" and "row_operation e"
  shows "prepared_ok env e d (batch_prepare env e c)"
  using assms batch_delete_ok batch_upsert_ok by (auto simp: batch_prepare_def row_operation_def)

lemma batch_gives_None [simp]: "batch_gives r None \<longleftrightarrow> fst r \<noteq> BatchOk"
  by (simp add: batch_gives_def)

lemma flush_cases:
  assumes "no_faults env" and "in_tx c d" and "plain_queue q"
  obtains (failed) "queue_on env q d = None" "fst (flush env q c) \<noteq> BatchOk"
    | (flushed) d1 c1 where "queue_on env q d = Some d1" "flush env q c = (BatchOk, c1)" "in_tx c1 d1"
  using flush_gives [OF assms] by (cases "flush env q c"; cases "queue_on env q d") (auto simp: batch_gives_def)

lemma plain_queue_snoc [simp]: "plain_queue (q @ [(i, e, stmt, ps)]) \<longleftrightarrow> plain_queue q \<and> plain_stmt stmt"
  "plain_queue []"
  by (auto simp: plain_queue_def)

lemma not_ok_case: "fst r \<noteq> BatchOk \<Longrightarrow> fst (case r of (BatchOk, c1) \<Rightarrow> f c1 | r \<Rightarrow> r) \<noteq> BatchOk"
  by (cases r; cases "fst r") auto

declare batch_mutations.simps(2) [simp del]

text \<open>The rest of the batch, from any queue.\<close>

definition batches_on :: "dest_env \<Rightarrow> (event \<times> bool) list \<Rightarrow> bool" where
  "batches_on env evs \<longleftrightarrow>
     (\<forall>i q c d. in_tx c d \<longrightarrow> plain_queue q \<longrightarrow>
        batch_gives (batch_mutations env i evs q c) (Option.bind (queue_on env q d) (mutations_apply env evs)))"

lemma batches_onD:
  "batches_on env evs \<Longrightarrow> in_tx c d \<Longrightarrow> plain_queue q \<Longrightarrow>
     batch_gives (batch_mutations env i evs q c) (Option.bind (queue_on env q d) (mutations_apply env evs))"
  by (simp add: batches_on_def)

text \<open>An event that is not queued: the queue is flushed, the event applied, and the rest starts with an empty queue.\<close>

lemma flush_then_gives:
  assumes "no_faults env" and "batches_on env evs" and "in_tx c d" and "plain_queue q"
    and ran: "\<And>c1 d1. in_tx c1 d1 \<Longrightarrow> gives_ok (run c1) (spec d1)"
    and spec: "\<And>d1. map_option snd (event_mutation env e d1) = spec d1"
  shows "batch_gives
    (case flush env q c of
       (BatchOk, c1) \<Rightarrow>
         (case run c1 of (Some err, c2) \<Rightarrow> (BatchPoison i e err, c2) | (None, c2) \<Rightarrow> batch_mutations env (Suc i) evs [] c2)
     | r \<Rightarrow> r)
    (Option.bind (queue_on env q d) (mutations_apply env ((e, True) # evs)))"
  using assms(1,3,4)
proof (cases rule: flush_cases)
  case failed
  then show ?thesis
    by (simp add: not_ok_case)
next
  case (flushed d1 c1)
  obtain x c2 where x: "run c1 = (x, c2)"
    by (cases "run c1") auto
  have g: "gives_ok (x, c2) (map_option snd (event_mutation env e d1))"
    using ran [OF flushed(3)] spec x by simp
  show ?thesis
  proof (cases "event_mutation env e d1")
    case None
    with g x flushed show ?thesis
      by (auto simp: gives_ok_def)
  next
    case (Some p)
    with g have "x = None" "in_tx c2 (snd p)"
      by (auto simp: gives_ok_def)
    with batches_onD [OF assms(2), of c2 "snd p" "[]" "Suc i"] Some x flushed show ?thesis
      by (simp add: case_prod_beta)
  qed
qed

lemma batch_truncate_gives:
  assumes "no_faults env" and "lsn_codec env" and "batches_on env evs" and "in_tx c d" and "plain_queue q"
    and "Operation e = OperationTruncate" and "event_lsn env e = Some l"
  shows "batch_gives (batch_truncate env i e evs q c) (Option.bind (queue_on env q d) (mutations_apply env ((e, True) # evs)))"
  unfolding batch_truncate_def
proof (rule flush_then_gives [OF assms(1,3-5)])
  fix c1 d1
  assume "in_tx c1 d1"
  from applyTruncateBatched_gives [OF assms(1,2) this, of e]
  show "gives_ok (applyTruncateBatched env e c1) (map_option snd (event_truncate env e l d1))"
    using assms(7) by simp
qed (simp add: event_mutation_def assms(6,7))

lemma batch_refuse_gives:
  assumes "in_tx c d" and "plain_queue q" and "prepared_ok env e d (Refuse err, c1)"
  shows "Option.bind (queue_on env q d) (mutations_apply env ((e, True) # evs)) = None"
  using assms(3) queue_on_tables [OF assms(2)] by (cases "queue_on env q d") (auto simp: prepared_ok_def)

lemma batch_queue_gives:
  assumes "batches_on env evs" and "plain_queue q" and "prepared_ok env e d (Queue stmt ps, c1)"
  shows "batch_gives (batch_mutations env (Suc i) evs (q @ [(i, e, stmt, ps)]) c1)
    (Option.bind (queue_on env q d) (mutations_apply env ((e, True) # evs)))"
proof -
  have ok: "in_tx c1 d" "plain_stmt stmt"
      "\<And>d'. map_option snd (stmt_on env stmt ps d') = map_option snd (event_mutation env e d')"
    using assms(3) by (simp_all add: prepared_ok_def)
  have s: "queue_on env (q @ [(i, e, stmt, ps)]) d =
      Option.bind (queue_on env q d) (\<lambda>d'. map_option snd (event_mutation env e d'))"
  proof (cases "queue_on env q d")
    case (Some d1)
    with ok(3) [of d1] show ?thesis
      unfolding queue_on_append by (cases "stmt_on env stmt ps d1") auto
  qed (simp add: queue_on_append)
  have "Option.bind (queue_on env (q @ [(i, e, stmt, ps)]) d) (mutations_apply env evs) =
      Option.bind (queue_on env q d) (mutations_apply env ((e, True) # evs))"
    unfolding s by (cases "queue_on env q d") (auto split: option.split)
  with batches_onD [OF assms(1) ok(1), of "q @ [(i, e, stmt, ps)]" "Suc i"] ok(2) assms(2) show ?thesis
    by simp
qed

lemma batch_write_gives:
  assumes "no_faults env" and "batches_on env evs" and "in_tx c d" and "plain_queue q"
    and "row_operation e" and "event_lsn env e = Some l" and "wf_event e"
  shows "batch_gives (batch_write env i e evs q c) (Option.bind (queue_on env q d) (mutations_apply env ((e, True) # evs)))"
proof -
  obtain p c1 where p: "batch_prepare env e c = (p, c1)"
    by (cases "batch_prepare env e c") auto
  note ok = batch_prepare_ok [OF assms(1,3,7,6,5), unfolded p]
  show ?thesis
  proof (cases p)
    case (Refuse err)
    then show ?thesis
      using batch_refuse_gives [OF assms(3,4)] ok p by (simp add: batch_write_def)
  next
    case (Queue stmt ps)
    then show ?thesis
      using batch_queue_gives [OF assms(2,4)] ok p by (simp add: batch_write_def)
  next
    case (Preserve cols keys types params keyValues)
    let ?T = "qualified_name (Schema e) (Table e)"
    have w: "wf_row (After e)" "wf_row (Key e)"
      using assms(7) by (simp_all add: wf_event_def)
    have ok': "in_tx c1 d" "write_ok_event e" "UnchangedColumns e \<noteq> []" "Operation e \<noteq> OperationDelete"
      and eqs: "cols = row_cols (After e)" "keys = row_cols (Key e)" "params = write_params e" "keyValues = row_params (Key e)"
      using ok unfolding Preserve by (simp_all add: prepared_ok_def)
    have ks: "set (row_cols (Key e)) \<subseteq> set (row_cols (After e))"
      using ok'(2) by (simp add: write_ok_event_def)
    have "batch_gives
        (case flush env q c1 of
           (BatchOk, c1) \<Rightarrow>
             (case applyUpdatePreserving env ?T cols keys types params keyValues (describe_write ''upsert'' e) c1 of
                (Some err, c2) \<Rightarrow> (BatchPoison i e err, c2) | (None, c2) \<Rightarrow> batch_mutations env (Suc i) evs [] c2)
         | r \<Rightarrow> r)
        (Option.bind (queue_on env q d) (mutations_apply env ((e, True) # evs)))"
    proof (rule flush_then_gives [OF assms(1,2) ok'(1) assms(4)])
      fix c1 d1
      assume "in_tx c1 d1"
      from applyUpdatePreserving_gives [OF assms(1) this w assms(6) ks ok'(3), of ?T types]
      show "gives_ok (applyUpdatePreserving env ?T cols keys types params keyValues (describe_write ''upsert'' e) c1)
          (change_table d1 ?T (row_cols (After e)) (event_write e l))"
        unfolding eqs .
    next
      fix d1
      show "map_option snd (event_mutation env e d1) = change_table d1 ?T (row_cols (After e)) (event_write e l)"
        using assms(5) ok' by (auto simp: event_mutation_def row_operation_def assms(6) event_table_def option.map_comp comp_def option.map_ident)
    qed
    then show ?thesis
      using p Preserve by (simp add: batch_write_def)
  qed
qed

lemma batch_mutations_gives:
  assumes nf: "no_faults env" and lc: "lsn_codec env"
  shows "\<forall>(e, fresh) \<in> set evs. wf_event e \<and> Validate e = None \<and> event_lsn env e \<noteq> None \<Longrightarrow> batches_on env evs"
proof (induction evs)
  case Nil
  then show ?case
    using flush_gives [OF nf] by (simp add: batches_on_def mutations_apply_Nil)
next
  case (Cons a evs)
  obtain e fresh where a: "a = (e, fresh)"
    by (cases a) auto
  obtain l where l: "event_lsn env e = Some l" and wf: "wf_event e" "Validate e = None"
    using Cons.prems a by auto
  have IH: "batches_on env evs"
    using Cons by simp
  show ?case
    unfolding batches_on_def
  proof (intro allI impI)
    fix i q c d
    assume c: "in_tx c d" "plain_queue q"
    consider "\<not> fresh" | "fresh" "Operation e = OperationTruncate" | "fresh" "row_operation e"
      using valid_operation [OF wf(2)] by blast
    then show "batch_gives (batch_mutations env i (a # evs) q c) (Option.bind (queue_on env q d) (mutations_apply env (a # evs)))"
    proof cases
      case 1
      then show ?thesis
        using batches_onD [OF IH c] by (simp add: a batch_mutations_Cons mutations_apply_seen)
    next
      case 2
      then show ?thesis
        using batch_truncate_gives [OF nf lc IH c _ l] by (simp add: a batch_mutations_Cons)
    next
      case 3
      then have "batch_mutations env i (a # evs) q c = batch_write env i e evs q c"
        by (auto simp: a batch_mutations_Cons row_operation_def)
      with 3 batch_write_gives [OF nf IH c _ l wf(1)] show ?thesis
        by (simp add: a)
    qed
  qed
qed

end
