(* ===== verification/Batch_Refines.thy ===== *)
theory Batch_Refines
  imports Applier_Refines
begin

text \<open>
  \<open>ApplyBatch\<close> against \<open>events_apply\<close>: all markers are recorded first, then the mutations of the
  fresh events run, queued and flushed. Markers and tables are independent, so the two phases
  amount to applying the events one after the other.
\<close>

section \<open>The marker phase\<close>

fun marks_apply :: "dest_env \<Rightarrow> event list \<Rightarrow> database \<Rightarrow> (bool list \<times> database) option" where
  "marks_apply env [] d = Some ([], d)"
| "marks_apply env (e # es) d =
     (case event_mark env e d of
        None \<Rightarrow> None
      | Some (fresh, d') \<Rightarrow> map_option (apfst (Cons fresh)) (marks_apply env es d'))"

lemma event_mark_with:
  assumes "applied_events d2 = applied_events d" and "meta_objects d2 = meta_objects d"
  shows "event_mark env e d2 = map_option (\<lambda>(f, d'). (f, with_markers (applied_events d') d2)) (event_mark env e d)"
  using assms by (cases "event_lsn env e") (simp_all add: event_mark_def insert_marker_alt)

lemma marks_apply_with:
  "applied_events d2 = applied_events d \<Longrightarrow> meta_objects d2 = meta_objects d \<Longrightarrow>
   marks_apply env es d2 = map_option (\<lambda>(fs, d'). (fs, with_markers (applied_events d') d2)) (marks_apply env es d)"
proof (induction es arbitrary: d d2)
  case Nil
  then show ?case
    using with_markers_simps(6) [of d2] by simp
next
  case (Cons e es)
  show ?case
  proof (cases "event_mark env e d")
    case (Some p)
    obtain f d' where p: "p = (f, d')" by (cases p) auto
    have keeps: "meta_objects d' = meta_objects d"
      using Some by (auto simp: p event_mark_def insert_marker_alt split: if_splits)
    have "marks_apply env es (with_markers (applied_events d') d2) =
        map_option (\<lambda>(fs, d''). (fs, with_markers (applied_events d'') (with_markers (applied_events d') d2))) (marks_apply env es d')"
      by (rule Cons.IH) (simp_all add: keeps Cons.prems)
    then show ?thesis
      by (simp add: event_mark_with [OF Cons.prems] Some p option.map_comp comp_def split_beta)
  qed (simp add: event_mark_with [OF Cons.prems])
qed

lemma marks_apply_length: "marks_apply env es d = Some (fs, d') \<Longrightarrow> length fs = length es"
  by (induction es arbitrary: d fs d') (auto split: option.splits)

lemma marker_gives:
  assumes "no_faults env" and "in_tx c d"
  shows "gives (exec env MarkerSQL [PText (ID e), PText (CommitLSN (Source e))] c)
           (map_option (\<lambda>(f, d'). (Affected (if f then 1 else 0), d')) (event_mark env e d))"
proof -
  have "stmt_on env MarkerSQL [PText (ID e), PText (CommitLSN (Source e))] d =
      map_option (\<lambda>(f, d'). (Affected (if f then 1 else 0), d')) (event_mark env e d)"
    by (auto simp: stmt_on_def has_meta_def event_mark_def event_lsn_def with_lsn_text nth_param_def text_param_def
        split: option.split prod.split)
  then show ?thesis
    using exec_gives [OF assms, of MarkerSQL "[PText (ID e), PText (CommitLSN (Source e))]"] by simp
qed

lemma run_markers_gives:
  assumes nf: "no_faults env"
  shows "in_tx c d \<Longrightarrow>
    (case marks_apply env es d of
       None \<Rightarrow> \<exists>r. fst (run_markers env i es c) = Inl r \<and> r \<noteq> BatchOk
     | Some (fs, d') \<Rightarrow> fst (run_markers env i es c) = Inr fs \<and> in_tx (snd (run_markers env i es c)) d')"
proof (induction es arbitrary: c d i)
  case (Cons e es)
  obtain x c1 where x: "exec env MarkerSQL [PText (ID e), PText (CommitLSN (Source e))] c = (x, c1)"
    by (cases "exec env MarkerSQL [PText (ID e), PText (CommitLSN (Source e))] c") auto
  note g = marker_gives [OF nf Cons.prems, of e, unfolded x]
  show ?case
  proof (cases "event_mark env e d")
    case None
    with g show ?thesis by (auto simp: gives_def x)
  next
    case (Some p)
    obtain f d1 where p: "p = (f, d1)" by (cases p) auto
    have x': "x = Inr (Affected (if f then 1 else 0))" and c1: "in_tx c1 d1"
      using g by (auto simp: gives_def Some p)
    obtain y c2 where y: "run_markers env (Suc i) es c1 = (y, c2)"
      by (cases "run_markers env (Suc i) es c1") auto
    show ?thesis
      using Cons.IH [OF c1, of "Suc i", unfolded y]
      by (cases "marks_apply env es d1"; cases y) (auto simp: x x' Some p y)
  qed
qed simp

section \<open>Both phases are the events in order\<close>

lemma events_apply_ok: "events_apply env es d = Some d' \<Longrightarrow> \<forall>e \<in> set es. event_ok e"
  by (induction es arbitrary: d) (auto simp: event_apply_def split: option.splits if_splits prod.splits)

lemma event_mark_has_lsn: "event_mark env e d = Some p \<Longrightarrow> event_lsn env e \<noteq> None"
  by (auto simp: event_mark_def split: if_splits)

lemma marks_apply_lsn: "marks_apply env es d = Some p \<Longrightarrow> \<forall>e \<in> set es. event_lsn env e \<noteq> None"
  by (induction es arbitrary: d p) (auto split: option.splits dest: event_mark_has_lsn)

lemma events_apply_phases:
  "\<forall>e \<in> set es. event_ok e \<Longrightarrow>
   events_apply env es d =
     (case marks_apply env es d of None \<Rightarrow> None | Some (fs, d1) \<Rightarrow> mutations_apply env (zip es fs) d1)"
proof (induction es arbitrary: d)
  case (Cons e es)
  have ok: "event_ok e" "\<forall>e \<in> set es. event_ok e"
    using Cons.prems by simp_all
  show ?case
  proof (cases "event_mark env e d")
    case (Some p)
    obtain f d1 where p: "p = (f, d1)" by (cases p) auto
    show ?thesis
    proof (cases f)
      case False
      then show ?thesis
        using Cons.IH [OF ok(2), of d1]
        by (auto simp: event_apply_def ok Some p split: option.split)
    next
      case True
      show ?thesis
      proof (cases "event_mutation env e d1")
        case None
        have "event_mutation env e d2 = None" if "marks_apply env es d1 = Some (fs, d2)" for fs d2
          using marks_apply_with [of d1 d1 env es] that event_mutation_markers [of env e "applied_events d2" d1] None
          by simp
        then show ?thesis
          by (auto simp: event_apply_def ok Some p True None split: option.split)
      next
        case mut: (Some q)
        obtain b d2 where q: "q = (b, d2)" by (cases q) auto
        note keep = event_mutation_keeps [OF mut [unfolded q]]
        show ?thesis
        proof (cases "marks_apply env es d1")
          case None
          then have "marks_apply env es d2 = None"
            using marks_apply_with [of d2 d1 env es] keep by simp
          then show ?thesis
            using Cons.IH [OF ok(2), of d2] None by (simp add: event_apply_def ok Some p True mut q)
        next
          case ms: (Some r)
          obtain fs d3 where r: "r = (fs, d3)" by (cases r) auto
          have m2: "marks_apply env es d2 = Some (fs, with_markers (applied_events d3) d2)"
            using marks_apply_with [of d2 d1 env es] keep ms r by simp
          have d3: "d3 = with_markers (applied_events d3) d1"
            using marks_apply_with [of d1 d1 env es] ms r by simp
          have "event_mutation env e d3 = Some (b, with_markers (applied_events d3) d2)"
            using event_mutation_markers [of env e "applied_events d3" d1] mut q d3 by simp
          then show ?thesis
            using Cons.IH [OF ok(2), of d2] m2 ms r by (simp add: event_apply_def ok Some p True mut q)
        qed
      qed
    qed
  qed (simp add: event_apply_def)
qed simp

lemma validate_batch_ok: "validate_batch i es = BatchOk \<longleftrightarrow> (\<forall>e \<in> set es. event_ok e)"
  by (induction es arbitrary: i) (auto simp: event_ok_idents split: option.split)

lemma ApplyBatch_gives:
  assumes nf: "no_faults env" and lc: "lsn_codec env" and tx: "in_tx c d" and wf: "\<forall>e \<in> set es. wf_event e"
  shows "batch_gives (ApplyBatch env es c) (events_apply env es d)"
proof (cases "es = [] \<or> validate_batch 0 es \<noteq> BatchOk")
  case True
  have "events_apply env es d = None" if "validate_batch 0 es \<noteq> BatchOk"
    using that events_apply_ok unfolding validate_batch_ok by (metis not_None_eq)
  with True tx show ?thesis
    by (auto simp: ApplyBatch_def batch_gives_def split: batch_result.split)
next
  case False
  then have ok: "\<forall>e \<in> set es. event_ok e" and ne: "es \<noteq> []" "validate_batch 0 es = BatchOk"
    by (auto simp: validate_batch_ok)
  obtain x c1 where x: "run_markers env 0 es c = (x, c1)"
    by (cases "run_markers env 0 es c") auto
  have m: "case marks_apply env es d of None \<Rightarrow> \<exists>r. x = Inl r \<and> r \<noteq> BatchOk
      | Some (fs, d1) \<Rightarrow> x = Inr fs \<and> in_tx c1 d1"
    using run_markers_gives [OF nf tx, where es = es and i = 0] unfolding x fst_conv snd_conv .
  show ?thesis
  proof (cases "marks_apply env es d")
    case None
    with m show ?thesis
      by (auto simp: ApplyBatch_def ne x events_apply_phases [OF ok])
  next
    case (Some r)
    obtain fs d1 where r: "r = (fs, d1)" by (cases r) auto
    have x': "x = Inr fs" and c1: "in_tx c1 d1"
      using m by (simp_all add: Some r)
    have c2: "in_tx (c1\<lparr>tick := Suc (tick c1)\<rparr>) d1"
      using c1 by (simp add: in_tx_def)
    have close: "close_batch env ''flush marker batch: %w'' c1 = (BatchOk, c1\<lparr>tick := Suc (tick c1)\<rparr>)"
      using nf by (simp add: close_batch_def no_faults_def)
    have zs: "\<forall>(e, fresh) \<in> set (zip es fs). wf_event e \<and> Validate e = None \<and> event_lsn env e \<noteq> None"
      using wf ok marks_apply_lsn [OF Some] by (auto simp: event_ok_def dest!: set_zip_leftD)
    show ?thesis
      using batches_onD [OF batch_mutations_gives [OF nf lc zs] c2, of "[]" 0]
      by (simp add: ApplyBatch_def ne x x' close events_apply_phases [OF ok] Some r)
  qed
qed

end
