(* ===== verification/Replay.thy ===== *)
theory Replay
  imports Event_Effect
begin

text \<open>
  Applying events again. The contract between the markers and the effects of events is a locale:
  an operation that succeeds leaves its mark, a marked operation changes nothing. Whatever keeps
  it can be replayed from any earlier point; \<open>event_apply\<close> keeps it.
\<close>

section \<open>Operations that leave a mark\<close>

locale marking_operations =
  fixes operate :: "'e \<Rightarrow> 'd \<Rightarrow> 'd option"
    and applicable :: "'e \<Rightarrow> bool"
    and seen :: "'d \<Rightarrow> 'e \<Rightarrow> bool"
  assumes op_applicable: "operate e d = Some d' \<Longrightarrow> applicable e"
    and op_seen: "applicable e \<Longrightarrow> seen d e \<Longrightarrow> operate e d = Some d"
    and op_marks: "operate e d = Some d' \<Longrightarrow> seen d' e"
    and op_keeps: "operate e d = Some d' \<Longrightarrow> seen d f \<Longrightarrow> seen d' f"
begin

fun operate_all :: "'e list \<Rightarrow> 'd \<Rightarrow> 'd option" where
  "operate_all [] d = Some d"
| "operate_all (e # es) d = Option.bind (operate e d) (operate_all es)"

lemma operate_all_append: "operate_all (es @ fs) d = Option.bind (operate_all es d) (operate_all fs)"
  by (induction es arbitrary: d) (auto split: bind_splits)

lemma operate_all_keeps: "operate_all es d = Some d' \<Longrightarrow> seen d f \<Longrightarrow> seen d' f"
  by (induction es arbitrary: d) (auto simp: op_keeps split: bind_splits)

lemma operate_all_marks: "operate_all es d = Some d' \<Longrightarrow> e \<in> set es \<Longrightarrow> applicable e \<and> seen d' e"
  by (induction es arbitrary: d) (auto split: bind_splits dest: op_applicable op_marks operate_all_keeps)

lemma operate_all_seen: "\<forall>e \<in> set es. applicable e \<and> seen d e \<Longrightarrow> operate_all es d = Some d"
  by (induction es) (simp_all add: op_seen)

theorem replay: "operate_all es d = Some d' \<Longrightarrow> set fs \<subseteq> set es \<Longrightarrow> operate_all fs d' = Some d'"
  using operate_all_marks by (blast intro: operate_all_seen)

end

section \<open>Events leave a mark\<close>

definition event_step :: "dest_env \<Rightarrow> event \<Rightarrow> database \<Rightarrow> database option" where
  "event_step env e d = map_option snd (event_apply env e d)"

definition event_applicable :: "dest_env \<Rightarrow> event \<Rightarrow> bool" where
  "event_applicable env e \<longleftrightarrow> event_ok e \<and> event_lsn env e \<noteq> None"

definition event_seen :: "database \<Rightarrow> event \<Rightarrow> bool" where
  "event_seen d e \<longleftrightarrow> ''cdc_applied_events'' \<in> set (meta_objects d) \<and> applied_events d (ID e) \<noteq> None"

lemma event_mark_seen: "event_mark env e d = Some (fresh, d') \<Longrightarrow> event_seen d' e"
  by (auto simp: event_mark_def event_seen_def insert_marker_def split: if_splits)

lemma event_mark_keeps: "event_mark env e d = Some (fresh, d') \<Longrightarrow> event_seen d f \<Longrightarrow> event_seen d' f"
  by (auto simp: event_mark_def event_seen_def insert_marker_def split: if_splits)

lemma event_mutation_seen: "event_mutation env e d = Some (b, d') \<Longrightarrow> event_seen d f \<Longrightarrow> event_seen d' f"
  by (auto simp: event_seen_def dest!: event_mutation_keeps)

interpretation events: marking_operations "event_step env" "event_applicable env" event_seen for env
proof unfold_locales
  fix e d d'
  assume "event_step env e d = Some d'"
  then show "event_applicable env e"
    by (cases "event_lsn env e") (auto simp: event_step_def event_apply_def event_applicable_def event_mark_def split: if_splits)
next
  fix e d
  assume "event_applicable env e" and "event_seen d e"
  then show "event_step env e d = Some d"
    by (auto simp: event_step_def event_apply_def event_applicable_def event_seen_def event_mark_def insert_marker_def)
next
  fix e d d'
  assume "event_step env e d = Some d'"
  then show "event_seen d' e"
    by (auto simp: event_step_def event_apply_def split: if_splits option.splits bool.splits prod.splits
        dest: event_mark_seen event_mutation_seen)
next
  fix e d d' f
  assume "event_step env e d = Some d'" and "event_seen d f"
  then show "event_seen d' f"
    by (auto simp: event_step_def event_apply_def split: if_splits option.splits bool.splits prod.splits
        dest: event_mark_keeps event_mutation_seen)
qed

lemma events_apply_all: "events_apply env es d = events.operate_all env es d"
  by (induction es arbitrary: d) (auto simp: event_step_def split: option.split)

lemma events_apply_append:
  "events_apply env (es @ fs) d = Option.bind (events_apply env es d) (events_apply env fs)"
  unfolding events_apply_all events.operate_all_append by (simp add: events_apply_all [abs_def])

end
