(* ===== verification/Writer_Once.thy ===== *)
theory Writer_Once
  imports Writer_Correct Batch_Refines Replay
begin

text \<open>
  Exactly once: on a topic of whole transactions none of whose events is poisonous, the destination
  of a writer that may crash at any time is always what applying a whole number of transactions
  once, in order, gives; and it never lags behind the committed offset.
\<close>

section \<open>Topics of transactions\<close>

text \<open>A transaction as the reader publishes it: its events are numbered from 1 and know their number.\<close>

definition whole_tx :: "event list \<Rightarrow> bool" where
  "whole_tx es \<longleftrightarrow> es \<noteq> [] \<and>
     (\<forall>i < length es. Sequence (Source (es ! i)) = int (Suc i) \<and>
        TransactionEventCount (Source (es ! i)) = int (length es) \<and>
        TransactionID (Source (es ! i)) = TransactionID (Source (hd es)) \<and> wf_event (es ! i))"

definition log_of :: "writer_env \<Rightarrow> kafka_record list \<Rightarrow> event list list \<Rightarrow> bool" where
  "log_of env log txs \<longleftrightarrow>
     log_offsets log \<and> (\<forall>tx \<in> set txs. whole_tx tx) \<and> map (\<lambda>r. we_unmarshal env (rec_value r)) log = map Inr (concat txs)"

definition tx_start :: "event list list \<Rightarrow> nat \<Rightarrow> nat" where
  "tx_start txs m = length (concat (take m txs))"

definition after_txs :: "dest_env \<Rightarrow> event list list \<Rightarrow> nat \<Rightarrow> database \<Rightarrow> database option" where
  "after_txs env txs n d = events_apply env (concat (take n txs)) d"

lemma tx_start_Suc: "m < length txs \<Longrightarrow> tx_start txs (Suc m) = tx_start txs m + length (txs ! m)"
  by (simp add: tx_start_def take_Suc_conv_app_nth)

lemma tx_start_le: "tx_start txs m \<le> length (concat txs)"
  using append_take_drop_id [of m txs] unfolding tx_start_def
  by (metis concat_append le_add1 length_append)

lemma concat_nth_start:
  assumes "m < length txs" and "j < length (txs ! m)"
  shows "concat txs ! (tx_start txs m + j) = txs ! m ! j" "tx_start txs m + j < length (concat txs)"
proof -
  have "concat txs = concat (take m txs) @ txs ! m @ concat (drop (Suc m) txs)"
    using assms(1) by (metis append_take_drop_id concat.simps(2) concat_append Cons_nth_drop_Suc)
  with assms show "concat txs ! (tx_start txs m + j) = txs ! m ! j" "tx_start txs m + j < length (concat txs)"
    by (simp_all add: tx_start_def nth_append)
qed

lemma tx_start_end: "length txs \<le> m \<Longrightarrow> tx_start txs m = length (concat txs)"
  by (simp add: tx_start_def)

lemma log_of_event:
  assumes "log_of env log txs"
  shows "log_event env log i e \<longleftrightarrow> i < length (concat txs) \<and> e = concat txs ! i"
proof -
  have m: "map (\<lambda>r. we_unmarshal env (rec_value r)) log = map Inr (concat txs)"
    using assms by (simp add: log_of_def)
  then have len: "length log = length (concat txs)"
    by (metis length_map)
  have "we_unmarshal env (rec_value (log ! i)) = Inr (concat txs ! i)" if "i < length log"
    using arg_cong [OF m, of "\<lambda>l. l ! i"] that len by simp
  with len show ?thesis
    by (auto simp: log_event_def)
qed

lemma after_txs_Suc:
  "m < length txs \<Longrightarrow> after_txs env txs (Suc m) d = Option.bind (after_txs env txs m d) (events_apply env (txs ! m))"
  by (simp add: after_txs_def take_Suc_conv_app_nth events_apply_append)

lemma after_txs_Some:
  assumes "events_apply env (concat txs) d = Some d'"
  shows "\<exists>x. after_txs env txs n d = Some x"
proof -
  have "concat txs = concat (take n txs) @ concat (drop n txs)"
    by (metis append_take_drop_id concat_append)
  with assms show ?thesis
    by (auto simp: after_txs_def events_apply_append split: bind_splits)
qed

text \<open>Applying the transaction after the first \<open>m\<close>, when \<open>m\<close> or \<open>m + 1\<close> have been applied already.\<close>

lemma after_txs_again:
  assumes "after_txs env txs n d = Some x" and "n = m \<or> n = Suc m" and "m < length txs"
    and "events_apply env (concat txs) d = Some d'"
  shows "\<exists>y. events_apply env (txs ! m) x = Some y \<and> after_txs env txs (Suc m) d = Some y"
proof (cases "n = m")
  case True
  then show ?thesis
    using assms after_txs_Some [OF assms(4), of "Suc m"] by (auto simp: after_txs_Suc)
next
  case False
  then have x: "after_txs env txs (Suc m) d = Some x"
    using assms by simp
  then have "events_apply env (concat (take m txs) @ txs ! m) d = Some x"
    using assms(3) by (simp add: after_txs_def take_Suc_conv_app_nth)
  then have "events_apply env (txs ! m) x = Some x"
    unfolding events_apply_all using events.replay by (metis set_append Un_upper2)
  with x show ?thesis by simp
qed

section \<open>The invariant\<close>

text \<open>
  The offset is at the start of transaction \<open>m\<close>, the destination has the first \<open>n\<close> transactions,
  and \<open>n\<close> is \<open>m\<close>, or \<open>m + 1\<close> when the offset of transaction \<open>m\<close> is not committed yet.
\<close>

definition settled :: "dest_env \<Rightarrow> event list list \<Rightarrow> database \<Rightarrow> writer \<Rightarrow> nat \<Rightarrow> bool" where
  "settled env txs d0 w m \<longleftrightarrow>
     m \<le> length txs \<and> committed_pos w = tx_start txs m \<and>
     (after_txs env txs m d0 = Some (db (w_conn w)) \<or> m < length txs \<and> after_txs env txs (Suc m) d0 = Some (db (w_conn w)))"

text \<open>The open group holds the first \<open>j\<close> events of transaction \<open>m\<close>.\<close>

definition part_of_tx :: "event list \<Rightarrow> nat \<Rightarrow> groupState \<Rightarrow> bool" where
  "part_of_tx tx j g \<longleftrightarrow>
     g_tx g \<and> j \<le> length tx \<and> map snd (g_buffer g) = take j tx \<and> g_nextSeq g = int (Suc j) \<and>
     g_count g = int (length tx) \<and> g_txid g = TransactionID (Source (hd tx))"

definition once_inv :: "dest_env \<Rightarrow> event list list \<Rightarrow> database \<Rightarrow> writer \<times> nat \<Rightarrow> bool" where
  "once_inv env txs d0 s \<longleftrightarrow>
     (case s of (w, pos) \<Rightarrow> \<exists>m. settled env txs d0 w m \<and>
        (case w_group w of
           None \<Rightarrow> idle (w_conn w) \<and> pos = tx_start txs m
         | Some g \<Rightarrow> in_tx (w_conn w) (db (w_conn w)) \<and> m < length txs \<and>
             (\<exists>j. 0 < j \<and> j < length (txs ! m) \<and> part_of_tx (txs ! m) j g \<and> pos = tx_start txs m + j)))"

definition once_durable :: "dest_env \<Rightarrow> event list list \<Rightarrow> database \<Rightarrow> writer \<Rightarrow> bool" where
  "once_durable env txs d0 w \<longleftrightarrow> (\<exists>m. settled env txs d0 w m)"

lemma once_durableI: "settled env txs d0 w m \<Longrightarrow> once_durable env txs d0 w"
  by (auto simp: once_durable_def)

lemma once_inv_open:
  "settled env txs d0 w m \<Longrightarrow> w_group w = Some g \<Longrightarrow> in_tx (w_conn w) (db (w_conn w)) \<Longrightarrow> m < length txs \<Longrightarrow>
   part_of_tx (txs ! m) j g \<Longrightarrow> 0 < j \<Longrightarrow> j < length (txs ! m) \<Longrightarrow> pos = tx_start txs m + j \<Longrightarrow> once_inv env txs d0 (w, pos)"
  by (auto simp: once_inv_def)

lemma once_inv_durable: "once_inv env txs d0 (w, pos) \<Longrightarrow> once_durable env txs d0 w"
  by (auto simp: once_inv_def once_durable_def)

lemma once_restarted: "once_durable env txs d0 w \<Longrightarrow> once_inv env txs d0 (restarted w)"
  by (auto simp: once_durable_def once_inv_def restarted_def settled_def committed_pos_def idle_def)

section \<open>Steps\<close>

lemma settled_same:
  "settled env txs d0 w m \<Longrightarrow> db (w_conn w') = db (w_conn w) \<Longrightarrow> w_committed w' = w_committed w \<Longrightarrow> settled env txs d0 w' m"
  by (simp add: settled_def committed_pos_def)

lemma open_group_part:
  assumes "open_group env (log ! pos) event w = (x, w1)" and "once_inv (we_db env) txs d0 (w, pos)"
    and log: "log_of env log txs" and "log_event env log pos event"
  shows "\<exists>m. settled (we_db env) txs d0 w1 m \<and> w_group w1 = w_group w \<and>
    (\<forall>g. x = Inr g \<longrightarrow> in_tx (w_conn w1) (db (w_conn w1)) \<and> m < length txs \<and>
      (\<exists>j < length (txs ! m). part_of_tx (txs ! m) j g \<and> pos = tx_start txs m + j \<and> event = txs ! m ! j))"
proof -
  obtain m where m: "settled (we_db env) txs d0 w m"
    and st: "case w_group w of
           None \<Rightarrow> idle (w_conn w) \<and> pos = tx_start txs m
         | Some g \<Rightarrow> in_tx (w_conn w) (db (w_conn w)) \<and> m < length txs \<and>
             (\<exists>j. 0 < j \<and> j < length (txs ! m) \<and> part_of_tx (txs ! m) j g \<and> pos = tx_start txs m + j)"
    using assms(2) unfolding once_inv_def by blast
  have ev: "pos < length (concat txs)" "event = concat txs ! pos"
    using assms(4) log_of_event [OF log] by simp_all
  show ?thesis
  proof (cases "w_group w")
    case None
    then have i: "idle (w_conn w)" "pos = tx_start txs m"
      using st by simp_all
    have lt: "m < length txs"
      using ev(1) tx_start_end [of txs m] i(2) by (metis less_irrefl linorder_not_le)
    then have "whole_tx (txs ! m)"
      using log by (simp add: log_of_def)
    then have t: "0 < length (txs ! m)"
        "\<And>i. i < length (txs ! m) \<Longrightarrow> Sequence (Source (txs ! m ! i)) = int (Suc i) \<and>
           TransactionEventCount (Source (txs ! m ! i)) = int (length (txs ! m))"
      by (simp_all add: whole_tx_def)
    have e: "event = txs ! m ! 0" "event = hd (txs ! m)"
      using ev concat_nth_start [OF lt t(1)] i(2) t(1) by (simp_all add: hd_conv_nth)
    obtain b c where b: "begin_tx (we_db env) (w_conn w) = (b, c)"
      by (cases "begin_tx (we_db env) (w_conn w)") auto
    note bi = begin_tx_idle [OF b i(1)]
    have "settled (we_db env) txs d0 w1 m \<and> w_group w1 = w_group w \<and>
      (\<forall>g. x = Inr g \<longrightarrow> in_tx (w_conn w1) (db (w_conn w1)) \<and> part_of_tx (txs ! m) 0 g)"
      using assms(1) None b bi m t(2) [OF t(1)] e
      by (auto simp: open_group_def in_tx_def part_of_tx_def settled_def committed_pos_def split: if_splits option.splits)
    with lt t(1) i(2) e(1) show ?thesis
      by (metis add.right_neutral)
  next
    case (Some g)
    then obtain j where j: "j < length (txs ! m)" "part_of_tx (txs ! m) j g" "pos = tx_start txs m + j"
        and rest: "in_tx (w_conn w) (db (w_conn w))" "m < length txs"
      using st by auto
    have "event = txs ! m ! j"
      using ev j(3) concat_nth_start [OF rest(2) j(1)] by simp
    then have "(x = Inr g \<or> (\<exists>e. x = Inl e)) \<and> w_conn w1 = w_conn w \<and> w_committed w1 = w_committed w \<and> w_group w1 = w_group w"
      using assms(1) Some by (auto simp: open_group_def split: if_splits)
    with j rest settled_same [OF m] \<open>event = txs ! m ! j\<close> show ?thesis
      by (intro exI [of _ m]) auto
  qed
qed

lemma part_of_tx_buffer:
  assumes "part_of_tx tx j g" and "j < length tx"
  shows "part_of_tx tx (Suc j) (buffer_event record (tx ! j) g)"
  using assms by (auto simp: part_of_tx_def buffer_event_def take_Suc_conv_app_nth)

lemma part_complete: "part_of_tx tx j g \<Longrightarrow> group_complete g \<longleftrightarrow> j = length tx"
  by (auto simp: part_of_tx_def group_complete_def)

text \<open>Committing a whole transaction that applies: the destination has it, or the commit failed.\<close>

lemma commit_whole_tx:
  assumes "commitDestinationTransaction env g w = (r, w')" and "part_of_tx tx (length tx) g"
    and "no_faults (we_db env)" and "lsn_codec (we_db env)" and "in_tx (w_conn w) (db (w_conn w))" and "\<forall>e \<in> set tx. wf_event e"
    and app: "events_apply (we_db env) tx (db (w_conn w)) = Some y"
  shows "idle (w_conn w') \<and> w_group w' = w_group w \<and> w_committed w' = w_committed w \<and>
    (db (w_conn w') = y \<or> r \<noteq> None \<and> db (w_conn w') = db (w_conn w))"
proof -
  let ?D = "we_db env"
  have buf: "map snd (g_buffer g) = tx" "g_tx g"
    using assms(2) by (simp_all add: part_of_tx_def)
  obtain x c where x: "ApplyBatch ?D tx (w_conn w) = (x, c)"
    by (cases "ApplyBatch ?D tx (w_conn w)") auto
  have "tx_runs (w_conn w) c"
    using runs_tx_runs [OF runs_ApplyBatch [OF x runs_refl]] .
  then have c: "db c = db (w_conn w)"
    using assms(5) by (simp add: tx_runs_def in_tx_def)
  have g: "x = BatchOk" "tx_view c = Some y"
    using ApplyBatch_gives [OF assms(3-6)] app x by (simp_all add: batch_gives_def in_tx_def)
  obtain e c1 where e: "commit ?D c = (e, c1)"
    by (cases "commit ?D c") auto
  note ce = commit_idle [OF e g(2)]
  have "w' = w\<lparr>w_conn := c1\<rparr>" "r = None \<longleftrightarrow> e = None"
    using assms(1) buf x g(1) e ce by (auto simp: commitDestinationTransaction_def split: option.splits)
  with ce c show ?thesis by auto
qed

lemma closeGroup_whole_tx:
  assumes "closeGroup env ctx_err g w = (r, w')" and "part_of_tx tx (length tx) g" and "g_lastRecord g = Some krec"
    and "no_faults (we_db env)" and "lsn_codec (we_db env)" and "in_tx (w_conn w) (db (w_conn w))" and "\<forall>e \<in> set tx. wf_event e"
    and app: "events_apply (we_db env) tx (db (w_conn w)) = Some y"
  shows "idle (w_conn w') \<and> w_group w' = w_group w \<and>
    (w_committed w' = w_committed w \<and> r \<noteq> None \<and> db (w_conn w') \<in> {y, db (w_conn w)} \<or>
     w_committed w' = Some (rec_offset krec + 1) \<and> db (w_conn w') = y)"
proof -
  obtain x w1 where x: "commitDestinationTransaction env g w = (x, w1)"
    by (cases "commitDestinationTransaction env g w") auto
  note a = commit_whole_tx [OF x assms(2,4-8)]
  show ?thesis
  proof (cases x)
    case (Some e)
    then show ?thesis
      using assms(1) x a by (auto simp: closeGroup_def)
  next
    case None
    obtain z w2 where z: "commitKafkaOffsetAndAllowRebalance env ctx_err g w1 = (z, w2)"
      by (cases "commitKafkaOffsetAndAllowRebalance env ctx_err g w1") auto
    note o = commitKafkaOffset_outcome [OF z assms(3)]
    have "w_conn w' = w_conn w2" "w_group w' = w_group w2" "w_committed w' = w_committed w2" "r = None \<longleftrightarrow> z = None"
      using assms(1) x None z by (auto simp: closeGroup_def split: option.splits)
    then show ?thesis
      using a o None by (auto simp: offset_work_def)
  qed
qed

text \<open>What the theorem assumes: services that answer, a topic of whole transactions that all apply.\<close>

definition clean_run :: "writer_env \<Rightarrow> kafka_record list \<Rightarrow> event list list \<Rightarrow> database \<Rightarrow> bool" where
  "clean_run env log txs d0 \<longleftrightarrow>
     no_faults (we_db env) \<and> lsn_codec (we_db env) \<and> log_of env log txs \<and>
     events_apply (we_db env) (concat txs) d0 \<noteq> None"

text \<open>The next state of the settled part when transaction \<open>m\<close> is applied, and when its offset is committed.\<close>

lemma settled_apply:
  assumes "clean_run env log txs d0" and "settled (we_db env) txs d0 w m" and "m < length txs"
  obtains y where "events_apply (we_db env) (txs ! m) (db (w_conn w)) = Some y" "\<forall>e \<in> set (txs ! m). wf_event e"
    and "\<And>w'. w_committed w' = w_committed w \<Longrightarrow> db (w_conn w') \<in> {y, db (w_conn w)} \<Longrightarrow> settled (we_db env) txs d0 w' m"
    and "\<And>w'. w_committed w' = Some (int (tx_start txs (Suc m))) \<Longrightarrow> db (w_conn w') = y \<Longrightarrow> settled (we_db env) txs d0 w' (Suc m)"
proof -
  let ?D = "we_db env"
  obtain d' where all: "events_apply ?D (concat txs) d0 = Some d'"
    using assms(1) by (auto simp: clean_run_def)
  obtain n where n: "after_txs ?D txs n d0 = Some (db (w_conn w))" "n = m \<or> n = Suc m"
    using assms(2) unfolding settled_def by blast
  obtain y where y: "events_apply ?D (txs ! m) (db (w_conn w)) = Some y" "after_txs ?D txs (Suc m) d0 = Some y"
    using after_txs_again [OF n assms(3) all] by blast
  have "\<forall>tx \<in> set txs. whole_tx tx"
    using assms(1) by (simp add: clean_run_def log_of_def)
  then have "whole_tx (txs ! m)"
    using assms(3) by simp
  then have wf: "\<forall>e \<in> set (txs ! m). wf_event e"
    by (auto simp: whole_tx_def in_set_conv_nth)
  show ?thesis
    by (rule that [OF y(1) wf]) (use y assms(2,3) in \<open>auto simp: settled_def committed_pos_def\<close>)
qed

text \<open>The event that completes transaction \<open>m\<close>.\<close>

lemma closing_event_once:
  assumes z: "closeGroup env ctx_err g w2 = (z, w3)" and clean: "clean_run env log txs d0" and ev: "log_event env log pos event"
    and m: "settled (we_db env) txs d0 w2 m" "m < length txs" and tx: "in_tx (w_conn w2) (db (w_conn w2))"
    and g: "part_of_tx (txs ! m) (length (txs ! m)) g" "g_lastRecord g = Some (log ! pos)"
    and pos: "Suc pos = tx_start txs (Suc m)"
    and w': "w_conn w' = w_conn w3" "w_committed w' = w_committed w3" "z = None \<Longrightarrow> w_group w' = None"
  shows "once_durable (we_db env) txs d0 w' \<and> (z = None \<longrightarrow> once_inv (we_db env) txs d0 (w', Suc pos))"
proof -
  obtain y where y: "events_apply (we_db env) (txs ! m) (db (w_conn w2)) = Some y" "\<forall>e \<in> set (txs ! m). wf_event e"
    and kept: "\<And>w'. w_committed w' = w_committed w2 \<Longrightarrow> db (w_conn w') \<in> {y, db (w_conn w2)} \<Longrightarrow> settled (we_db env) txs d0 w' m"
    and next_tx: "\<And>w'. w_committed w' = Some (int (tx_start txs (Suc m))) \<Longrightarrow> db (w_conn w') = y \<Longrightarrow> settled (we_db env) txs d0 w' (Suc m)"
    by (rule settled_apply [OF clean m]) blast
  have "rec_offset (log ! pos) = int pos"
    using ev clean by (auto simp: clean_run_def log_event_def log_of_def log_offsets_def)
  moreover have "int pos + 1 = int (tx_start txs (Suc m))"
    using pos by simp
  ultimately have c: "idle (w_conn w3) \<and> (w_committed w3 = w_committed w2 \<and> z \<noteq> None \<and> db (w_conn w3) \<in> {y, db (w_conn w2)} \<or>
      w_committed w3 = Some (int (tx_start txs (Suc m))) \<and> db (w_conn w3) = y)"
    using closeGroup_whole_tx [OF z g _ _ tx y(2,1)] clean by (auto simp: clean_run_def)
  show ?thesis
  proof (cases "w_committed w3 = Some (int (tx_start txs (Suc m))) \<and> db (w_conn w3) = y")
    case True
    then have "settled (we_db env) txs d0 w' (Suc m)"
      using next_tx w' by simp
    with c w' pos show ?thesis
      by (auto simp: once_inv_def once_durable_def)
  next
    case False
    then have "z \<noteq> None" "settled (we_db env) txs d0 w' m"
      using c kept [of w'] w' by auto
    then show ?thesis
      by (auto simp: once_durable_def)
  qed
qed

lemma handleEvent_once:
  assumes "handleEvent env ctx_err (log ! pos) event w = (r, w')" and inv: "once_inv (we_db env) txs d0 (w, pos)"
    and clean: "clean_run env log txs d0" and ev: "log_event env log pos event"
  shows "once_durable (we_db env) txs d0 w' \<and> (r = None \<longrightarrow> once_inv (we_db env) txs d0 (w', Suc pos))"
proof -
  have log: "log_of env log txs"
    using clean by (simp add: clean_run_def)
  obtain x w1 where x: "open_group env (log ! pos) event w = (x, w1)"
    by (cases "open_group env (log ! pos) event w") auto
  obtain m where m: "settled (we_db env) txs d0 w1 m" and o: "\<And>g. x = Inr g \<Longrightarrow>
      in_tx (w_conn w1) (db (w_conn w1)) \<and> m < length txs \<and>
      (\<exists>j < length (txs ! m). part_of_tx (txs ! m) j g \<and> pos = tx_start txs m + j \<and> event = txs ! m ! j)"
    using open_group_part [OF x inv log ev] by blast
  show ?thesis
  proof (cases x)
    case (Inl e)
    then show ?thesis
      using assms(1) x m by (auto simp: handleEvent_def once_durable_def)
  next
    case (Inr g0)
    then obtain j where tx: "in_tx (w_conn w1) (db (w_conn w1))" "m < length txs"
        and j: "j < length (txs ! m)" "part_of_tx (txs ! m) j g0" "pos = tx_start txs m + j" "event = txs ! m ! j"
      using o by blast
    let ?g = "buffer_event (log ! pos) event g0"
    let ?w2 = "event_metrics env event ?g w1"
    have g: "part_of_tx (txs ! m) (Suc j) ?g"
      using part_of_tx_buffer [OF j(2,1)] j(4) by simp
    have m2: "settled (we_db env) txs d0 ?w2 m"
      by (rule settled_same [OF m]) simp_all
    show ?thesis
    proof (cases "Suc j = length (txs ! m)")
      case False
      then have "w' = ?w2\<lparr>w_group := Some ?g\<rparr>" "r = None"
        using assms(1) x Inr part_complete [OF g] by (auto simp: handleEvent_def Let_def)
      moreover from False have "Suc j < length (txs ! m)"
        using j(1) by simp
      moreover have "settled (we_db env) txs d0 (?w2\<lparr>w_group := Some ?g\<rparr>) m"
        by (rule settled_same [OF m2]) simp_all
      ultimately show ?thesis
        using g tx j(3) once_inv_open [of "we_db env" txs d0 w' m ?g "Suc j"] by (auto intro: once_durableI)
    next
      case True
      obtain z w3 where z: "closeGroup env ctx_err ?g ?w2 = (z, w3)"
        by (cases "closeGroup env ctx_err ?g ?w2") auto
      have w': "w_conn w' = w_conn w3" "w_committed w' = w_committed w3" "z = None \<Longrightarrow> w_group w' = None" and r: "r = z"
        using assms(1) x Inr part_complete [OF g] True z by (auto simp: handleEvent_def Let_def split: option.splits)
      have "g_lastRecord ?g = Some (log ! pos)" "Suc pos = tx_start txs (Suc m)"
        using True j(3) tx_start_Suc [OF tx(2)] by (simp_all add: buffer_event_def)
      with closing_event_once [OF z clean ev m2 tx(2) _ g [unfolded True] _ _ w'] tx(1) r show ?thesis
        by simp
    qed
  qed
qed

lemma once_inv_incomplete: "once_inv denv txs d0 (w, pos) \<Longrightarrow> open_groups_incomplete w"
  by (auto simp: once_inv_def open_groups_incomplete_def part_complete split: option.splits)

text \<open>The start: no group, no committed offset, the initial database.\<close>

definition new_writer_on :: "database \<Rightarrow> writer \<times> nat \<Rightarrow> bool" where
  "new_writer_on d0 s \<longleftrightarrow> new_writer s \<and> db (w_conn (fst s)) = d0"

text \<open>A whole transaction that applies is no poison, so closing its group is all or nothing.\<close>

lemma closing_whole_tx:
  assumes "closing env g w w2" and "part_of_tx tx (length tx) g"
    and "no_faults (we_db env)" and "lsn_codec (we_db env)" and "in_tx (w_conn w) (db (w_conn w))" and "\<forall>e \<in> set tx. wf_event e"
    and app: "events_apply (we_db env) tx (db (w_conn w)) = Some y"
  shows "w_committed w2 = w_committed w \<and> db (w_conn w2) \<in> {y, db (w_conn w)}"
proof -
  have "fst (ApplyBatch (we_db env) (map snd (g_buffer g)) (w_conn w)) = BatchOk"
    using ApplyBatch_gives [OF assms(3-6)] app assms(2) by (simp add: part_of_tx_def batch_gives_def)
  with assms(1) show ?thesis
    using commit_whole_tx [OF _ assms(2-7)] by cases auto
qed

lemma crash_between_once:
  assumes clean: "clean_run env log txs d0" and inv: "once_inv (we_db env) txs d0 (w, pos)" and ev: "log_event env log pos event"
    and x: "open_group env (log ! pos) event w = (Inr g, w1)" and complete: "group_complete (buffer_event (log ! pos) event g)"
    and closing: "closing env (buffer_event (log ! pos) event g) w1 w2"
  shows "once_durable (we_db env) txs d0 w2"
proof -
  have log: "log_of env log txs"
    using clean by (simp add: clean_run_def)
  obtain m where m: "settled (we_db env) txs d0 w1 m" "m < length txs" "in_tx (w_conn w1) (db (w_conn w1))"
      and j: "\<exists>j < length (txs ! m). part_of_tx (txs ! m) j g \<and> event = txs ! m ! j"
    using open_group_part [OF x inv log ev] by blast
  obtain y where y: "events_apply (we_db env) (txs ! m) (db (w_conn w1)) = Some y" "\<forall>e \<in> set (txs ! m). wf_event e"
    and kept: "\<And>w'. w_committed w' = w_committed w1 \<Longrightarrow> db (w_conn w') \<in> {y, db (w_conn w1)} \<Longrightarrow> settled (we_db env) txs d0 w' m"
    using settled_apply [OF clean m(1,2)] by metis
  have "part_of_tx (txs ! m) (length (txs ! m)) (buffer_event (log ! pos) event g)"
    using j complete part_of_tx_buffer part_complete by metis
  from closing_whole_tx [OF closing this _ _ m(3) y(2,1)] clean
  have "settled (we_db env) txs d0 w2 m"
    by (intro kept) (auto simp: clean_run_def)
  then show ?thesis
    by (rule once_durableI)
qed

lemma once_inv_step:
  assumes clean: "clean_run env log txs d0" and step: "writer_step env ctx_err log s t" and inv: "once_inv (we_db env) txs d0 s"
  shows "once_inv (we_db env) txs d0 t"
  using step
proof (cases rule: writer_step.cases)
  case (step_event pos event w w')
  then show ?thesis
    using inv handleEvent_once [OF _ _ clean] by blast
next
  case (step_error pos event w err w')
  then show ?thesis
    using inv handleEvent_once [OF _ _ clean] once_restarted by blast
next
  case (step_crash w pos)
  then show ?thesis
    using inv once_restarted once_inv_durable by blast
next
  case (step_crash_between pos event w g w1 w2)
  then show ?thesis
    using crash_between_once [OF clean] inv once_restarted by blast
next
  case (step_shutdown group_ctx w r w' pos)
  then have "db (w_conn w') = db (w_conn w) \<and> w_committed w' = w_committed w"
    using shutdown_discards once_inv_incomplete inv by blast
  then have "once_durable (we_db env) txs d0 w'"
    using inv settled_same step_shutdown(1) unfolding once_inv_def once_durable_def by blast
  with step_shutdown(2) once_restarted show ?thesis by blast
qed

interpretation once: step_invariant "new_writer_on d0" "writer_step env ctx_err log"
  "\<lambda>s. clean_run env log txs d0 \<longrightarrow> once_inv (we_db env) txs d0 s" for d0 env ctx_err log txs
proof unfold_locales
  fix s
  assume "new_writer_on d0 s"
  then show "clean_run env log txs d0 \<longrightarrow> once_inv (we_db env) txs d0 s"
    by (cases s) (auto simp: new_writer_on_def new_writer_def once_inv_def settled_def committed_pos_def tx_start_def
        after_txs_def intro!: exI [of _ 0])
qed (use once_inv_step in blast)

end
