(* ===== verification/Writer_Progress.thy ===== *)
theory Writer_Progress
  imports Writer_Once
begin

text \<open>
  Progress: when no call fails, the writer works through a topic of whole transactions without an
  error, and ends with every transaction applied and every offset committed.
\<close>

definition calls_succeed :: "writer_env \<Rightarrow> bool" where
  "calls_succeed env \<longleftrightarrow>
     (\<forall>n. begin_fault (we_db env) n = None \<and> commit_fault (we_db env) n = None \<and> we_commit env n = None)"

lemma open_group_ok:
  assumes "calls_succeed env" and "once_inv (we_db env) txs d0 (w, pos)"
    and "log_of env log txs" and "log_event env log pos event"
  shows "\<exists>g w1. open_group env krec event w = (Inr g, w1)"
proof -
  obtain m where st: "case w_group w of
           None \<Rightarrow> idle (w_conn w) \<and> pos = tx_start txs m
         | Some g \<Rightarrow> in_tx (w_conn w) (db (w_conn w)) \<and> m < length txs \<and>
             (\<exists>j. 0 < j \<and> j < length (txs ! m) \<and> part_of_tx (txs ! m) j g \<and> pos = tx_start txs m + j)"
      and m: "m \<le> length txs"
    using assms(2) unfolding once_inv_def settled_def by blast
  have ev: "pos < length (concat txs)" "event = concat txs ! pos"
    using assms(4) log_of_event [OF assms(3)] by simp_all
  have whole: "whole_tx (txs ! m)" if "m < length txs"
    using assms(3) that by (simp add: log_of_def)
  show ?thesis
  proof (cases "w_group w")
    case None
    then have pos: "pos = tx_start txs m"
      using st by simp
    then have lt: "m < length txs"
      using ev(1) tx_start_end [of txs m] by (metis less_irrefl linorder_not_le)
    then have "0 < length (txs ! m)" and seq: "\<forall>i < length (txs ! m). Sequence (Source (txs ! m ! i)) = int (Suc i)"
      using whole by (simp_all add: whole_tx_def)
    then have "Sequence (Source event) = 1"
      using ev(2) pos concat_nth_start [OF lt, of 0] by simp
    then show ?thesis
      using None assms(1) by (auto simp: open_group_def begin_tx_def calls_succeed_def)
  next
    case (Some g)
    then obtain j where j: "j < length (txs ! m)" "part_of_tx (txs ! m) j g" "pos = tx_start txs m + j" "m < length txs"
      using st by auto
    then have "event = txs ! m ! j"
      using ev concat_nth_start [OF j(4,1)] by simp
    with whole j have "TransactionID (Source event) = g_txid g" "Sequence (Source event) = g_nextSeq g"
      by (simp_all add: whole_tx_def part_of_tx_def)
    with Some show ?thesis
      by (simp add: open_group_def)
  qed
qed

lemma closeGroup_ok:
  assumes "calls_succeed env" and "part_of_tx tx (length tx) g"
    and "no_faults (we_db env)" and "lsn_codec (we_db env)" and "in_tx (w_conn w) (db (w_conn w))" and "\<forall>e \<in> set tx. wf_event e"
    and app: "events_apply (we_db env) tx (db (w_conn w)) = Some y"
  shows "fst (closeGroup env ctx_err g w) = None"
proof -
  obtain x c where x: "ApplyBatch (we_db env) tx (w_conn w) = (x, c)"
    by (cases "ApplyBatch (we_db env) tx (w_conn w)") auto
  have g: "x = BatchOk" "in_tx c y"
    using ApplyBatch_gives [OF assms(3-6)] app x by (simp_all add: batch_gives_def)
  obtain c1 where c1: "commit (we_db env) c = (None, c1)"
    using g(2) assms(1) by (auto simp: commit_def in_tx_def calls_succeed_def Let_def)
  have cd: "commitDestinationTransaction env g w = (None, w\<lparr>w_conn := c1\<rparr>)"
    using assms(2) x g c1 by (simp add: commitDestinationTransaction_def part_of_tx_def)
  have "fst (commitKafkaOffsetAndAllowRebalance env ctx_err g w') = None" for w'
    using assms(1) retry_first [of "commit_records env r" w' _ "we_wait env" "we_rnd env" Default "''commit Kafka offset''" for r]
    by (auto simp: commitKafkaOffsetAndAllowRebalance_def commit_records_def calls_succeed_def Let_def split: option.split)
  then show ?thesis
    using cd by (auto simp: closeGroup_def split: prod.split option.split) (metis fst_conv option.distinct(1))
qed

lemma handleEvent_ok:
  assumes ok: "calls_succeed env" and inv: "once_inv (we_db env) txs d0 (w, pos)"
    and clean: "clean_run env log txs d0" and ev: "log_event env log pos event"
  shows "fst (handleEvent env ctx_err (log ! pos) event w) = None"
proof -
  have log: "log_of env log txs"
    using clean by (simp add: clean_run_def)
  obtain g0 w1 where x: "open_group env (log ! pos) event w = (Inr g0, w1)"
    using open_group_ok [OF ok inv log ev] by blast
  obtain m j where m: "settled (we_db env) txs d0 w1 m" "in_tx (w_conn w1) (db (w_conn w1))" "m < length txs"
      and j: "j < length (txs ! m)" "part_of_tx (txs ! m) j g0" "event = txs ! m ! j"
    using open_group_part [OF x inv log ev] by blast
  let ?g = "buffer_event (log ! pos) event g0"
  let ?w2 = "event_metrics env event ?g w1"
  have g: "part_of_tx (txs ! m) (Suc j) ?g"
    using part_of_tx_buffer [OF j(2,1)] j(3) by simp
  show ?thesis
  proof (cases "Suc j = length (txs ! m)")
    case False
    then show ?thesis
      using x part_complete [OF g] by (simp add: handleEvent_def Let_def)
  next
    case True
    obtain y where y: "events_apply (we_db env) (txs ! m) (db (w_conn w1)) = Some y" "\<forall>e \<in> set (txs ! m). wf_event e"
      using settled_apply [OF clean m(1,3)] by metis
    have c: "fst (closeGroup env ctx_err ?g ?w2) = None"
      using closeGroup_ok [OF ok g [unfolded True] _ _ _ y(2)] y(1) m(2) clean by (simp add: clean_run_def)
    obtain w3 where "closeGroup env ctx_err ?g ?w2 = (None, w3)"
      using c by (cases "closeGroup env ctx_err ?g ?w2") auto
    then show ?thesis
      using x part_complete [OF g] True by (simp add: handleEvent_def Let_def)
  qed
qed

lemma consume_records_ok:
  assumes ok: "calls_succeed env" and clean: "clean_run env log txs d0"
  shows "once_inv (we_db env) txs d0 (w, pos) \<Longrightarrow> pos \<le> length log \<Longrightarrow>
    \<exists>w'. consume_records env ctx_err (drop pos log) w = (None, w') \<and> once_inv (we_db env) txs d0 (w', length log)"
proof (induction "length log - pos" arbitrary: w pos)
  case 0
  then show ?case by simp
next
  case (Suc n)
  then have lt: "pos < length log" by simp
  have len: "length log = length (concat txs)"
    using clean unfolding clean_run_def log_of_def by (metis length_map)
  have ev: "log_event env log pos (concat txs ! pos)"
    using log_of_event [of env log txs pos] clean lt len by (simp add: clean_run_def)
  obtain w1 where w1: "handleEvent env ctx_err (log ! pos) (concat txs ! pos) w = (None, w1)"
    using handleEvent_ok [OF ok Suc.prems(1) clean ev, of ctx_err] by (metis prod.collapse)
  then have "once_inv (we_db env) txs d0 (w1, Suc pos)"
    using handleEvent_once [OF w1 Suc.prems(1) clean ev] by simp
  then obtain w' where w': "consume_records env ctx_err (drop (Suc pos) log) w1 = (None, w')" "once_inv (we_db env) txs d0 (w', length log)"
    using Suc.hyps(1) [of "Suc pos" w1] Suc.hyps(2) lt by (metis Suc_diff_Suc Suc_inject Suc_leI)
  have "drop pos log = log ! pos # drop (Suc pos) log"
    using lt by (simp add: Cons_nth_drop_Suc)
  with w1 w' ev show ?case
    by (simp add: log_event_def)
qed

text \<open>The consuming loop without an error is a run of the writer to the end of the topic.\<close>

lemma consume_records_steps:
  "consume_records env ctx_err (drop pos log) w = (None, w') \<Longrightarrow> pos \<le> length log \<Longrightarrow>
     (writer_step env ctx_err log)\<^sup>*\<^sup>* (w, pos) (w', length log)"
proof (induction "length log - pos" arbitrary: w pos)
  case 0
  then show ?case by simp
next
  case (Suc n)
  then have lt: "pos < length log" by simp
  then have "drop pos log = log ! pos # drop (Suc pos) log"
    by (simp add: Cons_nth_drop_Suc)
  then obtain event w1 where ev: "we_unmarshal env (rec_value (log ! pos)) = Inr event"
      "handleEvent env ctx_err (log ! pos) event w = (None, w1)" "consume_records env ctx_err (drop (Suc pos) log) w1 = (None, w')"
    using Suc.prems(1) by (auto split: sum.splits prod.splits option.splits)
  then have "writer_step env ctx_err log (w, pos) (w1, Suc pos)"
    using lt by (intro step_event) (simp_all add: log_event_def)
  moreover have "(writer_step env ctx_err log)\<^sup>*\<^sup>* (w1, Suc pos) (w', length log)"
    using Suc.hyps(1) [of "Suc pos" w1] Suc.hyps(2) ev(3) lt by simp
  ultimately show ?case
    by (rule converse_rtranclp_into_rtranclp)
qed

text \<open>At the end of the topic nothing is open and nothing is behind.\<close>

lemma once_inv_end:
  assumes "once_inv (we_db env) txs d0 (w, length log)" and "clean_run env log txs d0"
  shows "w_group w = None \<and> committed_pos w = length log \<and>
         events_apply (we_db env) (concat txs) d0 = Some (db (w_conn w))"
proof -
  have len: "length log = length (concat txs)" and whole: "\<forall>tx \<in> set txs. whole_tx tx"
    using assms(2) unfolding clean_run_def log_of_def by (metis length_map, simp)
  obtain m where m: "settled (we_db env) txs d0 w m"
    and st: "case w_group w of
           None \<Rightarrow> idle (w_conn w) \<and> length log = tx_start txs m
         | Some g \<Rightarrow> in_tx (w_conn w) (db (w_conn w)) \<and> m < length txs \<and>
             (\<exists>j. 0 < j \<and> j < length (txs ! m) \<and> part_of_tx (txs ! m) j g \<and> length log = tx_start txs m + j)"
    using assms(1) unfolding once_inv_def by blast
  have none: "w_group w = None"
    using st concat_nth_start(2) len by (cases "w_group w") (auto, metis less_irrefl)
  then have start: "tx_start txs m = length (concat txs)"
    using st len by simp
  have "m = length txs"
  proof (rule ccontr)
    assume "m \<noteq> length txs"
    then have "m < length txs"
      using m by (simp add: settled_def)
    moreover from this have "0 < length (txs ! m)"
      using whole by (simp add: whole_tx_def)
    ultimately show False
      using concat_nth_start(2) [of m txs 0] start by simp
  qed
  with m start none len show ?thesis
    by (simp add: settled_def after_txs_def)
qed

end
