(* ===== verification/Destination_Samples.thy ===== *)
theory Destination_Samples
  imports Writer_Progress Dead_Letter
begin

text \<open>
  A concrete destination for the witnesses: services that answer, positions in decimal, one table
  \<open>public.users (id, name)\<close>, and events on it.
\<close>

section \<open>Services\<close>

definition sample_parse :: "string \<Rightarrow> lsn option" where
  "sample_parse s = (if s = [] then None else Some (LSN (of_nat (digits_value s))))"

definition sample_env :: dest_env where
  "sample_env = \<lparr>parse_lsn = sample_parse, lsn_text = (\<lambda>l. nat_digits (unat (lsn_val l))), fault = (\<lambda>_ _ _ _. None),
     begin_fault = (\<lambda>_. None), commit_fault = (\<lambda>_. None), rollback_fault = (\<lambda>_. None), close_fault = (\<lambda>_. None),
     clock = int, eval_default = Some\<rparr>"

lemma nat_digits_not_Nil: "nat_digits n \<noteq> []"
  by (subst nat_digits.simps) simp

lemma sample_env_ok [simp]: "no_faults sample_env" "lsn_codec sample_env" "commits_clean sample_env"
  by (simp_all add: no_faults_def lsn_codec_def commits_clean_def sample_env_def sample_parse_def nat_digits_not_Nil)

section \<open>Data\<close>

definition users_table :: dtable where
  "users_table = \<lparr>tbl_columns = [(''id'', ''bigint''), (''name'', ''text'')], tbl_primary = [''id''], tbl_unique = [],
     tbl_notnull = [''id''], tbl_defaults = [(''id'', None), (''name'', None)], tbl_rows = []\<rparr>"

definition users_name :: string where
  "users_name = qualified_name ''public'' ''users''"

definition sample_db :: database where
  "sample_db = \<lparr>applied_events = Map.empty, watermarks = Map.empty, cdc_state = Map.empty, dead_letters = [],
     tables = [users_name \<mapsto> users_table], enum_types = Map.empty,
     meta_objects = meta_creates @ [''cdc_dead_letters.before'', ''cdc_dead_letters.unchanged_columns'']\<rparr>"

text \<open>The same database with other rows in the table.\<close>

definition db_with_rows :: "table_row list \<Rightarrow> database" where
  "db_with_rows rows = sample_db\<lparr>tables := [users_name \<mapsto> users_table\<lparr>tbl_rows := rows\<rparr>]\<rparr>"

definition sample_conn :: "database \<Rightarrow> conn" where
  "sample_conn d = \<lparr>db = d, tx_view = None, tx_aborted = False, tick = 0, columnsSeenAt = Map.empty, columnsByTable = Map.empty\<rparr>"

definition sample_tx :: "database \<Rightarrow> conn" where
  "sample_tx d = (sample_conn d)\<lparr>tx_view := Some d\<rparr>"

lemma in_sample_tx [simp]: "tx_view (sample_tx d) = Some d" "\<not> tx_aborted (sample_tx d)" "in_tx (sample_tx d) d"
  by (simp_all add: sample_tx_def sample_conn_def in_tx_def)

text \<open>Event \<open>seq\<close> of \<open>count\<close> of a transaction that commits at \<open>l\<close>.\<close>

definition sample_event :: "string \<Rightarrow> operation \<Rightarrow> row \<Rightarrow> row \<Rightarrow> string \<Rightarrow> int \<Rightarrow> int \<Rightarrow> event" where
  "sample_event eid op key after l seq count =
     \<lparr>Version = 1, ID = eid, Schema = ''public'', Table = ''users'', Operation = op, Key = key, Before = [], After = after,
      Source = \<lparr>TransactionID = 7, CommitLSN = l, TransactionEndLSN = l, CommitTime = 5, Sequence = seq, TransactionEventCount = count\<rparr>,
      UnchangedColumns = []\<rparr>"

definition add_ann :: event where
  "add_ann = sample_event ''e1'' OperationInsert [(''id'', Some ''1'')] [(''id'', Some ''1''), (''name'', Some ''Ann'')] ''16'' 1 1"

lemma wf_add_ann [simp]: "wf_event add_ann"
  by code_simp

definition rename_ann :: event where
  "rename_ann = (sample_event ''e2'' OperationUpdate [(''id'', Some ''1'')] [(''id'', Some ''1''), (''name'', Some ''Bob'')] ''16'' 2 2)"

lemma wf_rename_ann [simp]: "wf_event rename_ann"
  by code_simp

definition toast_ann :: event where
  "toast_ann = (sample_event ''e4'' OperationUpdate [(''id'', Some ''1'')] [(''id'', Some ''1'')] ''40'' 1 1)
     \<lparr>UnchangedColumns := [''name'']\<rparr>"

definition sample_record :: kafka_record where
  "sample_record = \<lparr>rec_topic = ''t'', rec_partition = 0, rec_offset = 0, rec_key = [], rec_value = ''v''\<rparr>"

definition sample_writer_env :: writer_env where
  "sample_writer_env = \<lparr>we_db = sample_env, we_source = \<lparr>src_connect = None, src_column = (\<lambda>_ _. Inr None), src_type = (\<lambda>_ _. Inr [])\<rparr>,
     we_unmarshal = (\<lambda>_. Inr add_ann), we_poll = (\<lambda>_. \<lparr>fetch_errors = [], fetch_records = []\<rparr>), we_commit = (\<lambda>_. None),
     we_wait = (\<lambda>_ _. None), we_rnd = (\<lambda>_. 0), we_now = int, we_retention = 0\<rparr>"

definition sample_writer :: "database \<Rightarrow> writer" where
  "sample_writer d = \<lparr>w_conn = sample_conn d, w_group = None, w_committed = None, w_rebalances = 0, w_observer = NewObserver,
     w_metrics = initial_metrics, w_tick = 0\<rparr>"

end
