(* ===== verification/Destination_Properties.thy ===== *)
theory Destination_Properties
  imports Destination_Samples
begin

text \<open>
  What the applier and the writer guarantee: the refinement of the event semantics, the batch
  against the loop, exactly-once delivery under crashes, and the order of commits.
\<close>

section \<open>One event\<close>

text \<open>C8. Inside a transaction, with services that answer, \<open>ApplyInTx\<close> does what the event means:
  it fails when the event cannot be applied, and otherwise reports whether it did something and
  leaves the transaction's view of the database exactly as \<open>event_apply\<close> says.\<close>

theorem ApplyInTx_refines_event:
  assumes "no_faults env" and "lsn_codec env" and "tx_view c = Some d" and "\<not> tx_aborted c" and "wf_event e"
  shows "case event_apply env e d of
           None \<Rightarrow> \<exists>err. fst (ApplyInTx env e c) = Inl err
         | Some (b, d') \<Rightarrow> fst (ApplyInTx env e c) = Inr b \<and> tx_view (snd (ApplyInTx env e c)) = Some d'"
  using ApplyInTx_gives [OF assms(1,2) _ assms(5), of c d] assms(3,4)
  by (auto simp: gives_def in_tx_def split: option.splits prod.splits)

theorem ApplyInTx_refines_event_witness:
  "fst (ApplyInTx sample_env add_ann (sample_tx sample_db)) = Inr True"
proof -
  have "map_option fst (event_apply sample_env add_ann sample_db) = Some True"
    by code_simp
  then show ?thesis
    using ApplyInTx_refines_event [OF sample_env_ok(1,2) in_sample_tx(1,2) wf_add_ann, of sample_db]
    by (auto split: option.splits)
qed

section \<open>Batches\<close>

text \<open>The reference: the events applied one after the other in the same transaction.\<close>

fun apply_each :: "dest_env \<Rightarrow> event list \<Rightarrow> conn \<Rightarrow> goerr option \<times> conn" where
  "apply_each env [] c = (None, c)"
| "apply_each env (e # es) c =
     (case ApplyInTx env e c of (Inl err, c') \<Rightarrow> (Some err, c') | (Inr _, c') \<Rightarrow> apply_each env es c')"

lemma apply_each_gives:
  assumes "no_faults env" and "lsn_codec env"
  shows "in_tx c d \<Longrightarrow> \<forall>e \<in> set es. wf_event e \<Longrightarrow> gives_ok (apply_each env es c) (events_apply env es d)"
proof (induction es arbitrary: c d)
  case Nil
  then show ?case by (simp add: gives_ok_def)
next
  case (Cons e es)
  obtain x c1 where x: "ApplyInTx env e c = (x, c1)"
    by (cases "ApplyInTx env e c") auto
  have "gives (x, c1) (event_apply env e d)"
    using ApplyInTx_gives [OF assms Cons.prems(1)] Cons.prems(2) x by fastforce
  with Cons.IH [of c1] Cons.prems(2) x show ?case
    by (cases x; cases "event_apply env e d") (auto simp: gives_def gives_ok_def)
qed

text \<open>C0. The batch, which records all markers first, queues statements and flushes them only when
  it must, succeeds exactly when applying its events one after the other with \<open>ApplyInTx\<close>
  succeeds, and leaves the same database.\<close>

theorem ApplyBatch_is_sequential:
  assumes "no_faults env" and "lsn_codec env" and "tx_view c = Some d" and "\<not> tx_aborted c" and "\<forall>e \<in> set es. wf_event e"
  shows "(fst (ApplyBatch env es c) = BatchOk \<longleftrightarrow> fst (apply_each env es c) = None) \<and>
    (fst (ApplyBatch env es c) = BatchOk \<longrightarrow> tx_view (snd (ApplyBatch env es c)) = tx_view (snd (apply_each env es c)))"
proof -
  have "in_tx c d"
    using assms(3,4) by (simp add: in_tx_def)
  from ApplyBatch_gives [OF assms(1,2) this assms(5)] apply_each_gives [OF assms(1,2) this assms(5)]
  show ?thesis
    by (cases "events_apply env es d") (auto simp: batch_gives_def gives_ok_def in_tx_def)
qed

theorem ApplyBatch_is_sequential_witness:
  "fst (ApplyBatch sample_env [add_ann, rename_ann, add_ann] (sample_tx sample_db)) = BatchOk \<and>
   fst (apply_each sample_env [add_ann, rename_ann, add_ann] (sample_tx sample_db)) = None"
proof -
  have "\<forall>e \<in> set [add_ann, rename_ann, add_ann]. wf_event e"
    by simp
  moreover have "fst (apply_each sample_env [add_ann, rename_ann, add_ann] (sample_tx sample_db)) = None"
    by code_simp
  ultimately show ?thesis
    using ApplyBatch_is_sequential [OF sample_env_ok(1,2) in_sample_tx(1,2), of "[add_ann, rename_ann, add_ann]" sample_db]
    by blast
qed

text \<open>C9. Delivering again is harmless: once a list of events has been applied, a batch of any of
  them, in any order and with repetitions, succeeds and changes nothing.\<close>

theorem redelivery_changes_nothing:
  assumes "no_faults env" and "lsn_codec env" and "tx_view c = Some d" and "\<not> tx_aborted c" and "\<forall>e \<in> set fs. wf_event e"
    and "events_apply env es d0 = Some d" and "set fs \<subseteq> set es"
  shows "fst (ApplyBatch env fs c) = BatchOk \<and> tx_view (snd (ApplyBatch env fs c)) = Some d"
proof -
  have "in_tx c d"
    using assms(3,4) by (simp add: in_tx_def)
  moreover have "events_apply env fs d = Some d"
    using events.replay assms(6,7) unfolding events_apply_all by blast
  ultimately show ?thesis
    using ApplyBatch_gives [OF assms(1,2) _ assms(5)] by (fastforce simp: batch_gives_def in_tx_def)
qed

theorem redelivery_changes_nothing_witness:
  "\<exists>d. events_apply sample_env [add_ann, rename_ann] sample_db = Some d \<and>
       fst (ApplyBatch sample_env [rename_ann, rename_ann, add_ann] (sample_tx d)) = BatchOk"
proof -
  have "events_apply sample_env [add_ann, rename_ann] sample_db \<noteq> None"
    by code_simp
  then obtain d where d: "events_apply sample_env [add_ann, rename_ann] sample_db = Some d"
    by blast
  have "\<forall>e \<in> set [rename_ann, rename_ann, add_ann]. wf_event e"
    by simp
  from redelivery_changes_nothing [OF sample_env_ok(1,2) in_sample_tx(1,2) this d] d show ?thesis
    by simp
qed

section \<open>The writer under crashes\<close>

text \<open>C0. Exactly once: on a topic of whole transactions that all apply, whatever crashes, failed
  commits, restarts and shutdowns happen, the destination is what applying the first \<open>n\<close>
  transactions once, in order, gives; and the committed offset is that of transaction \<open>n\<close>, or of
  the one before it when the offset commit is still missing.\<close>

theorem destination_exactly_once:
  assumes "clean_run env log txs d0" and "new_writer_on d0 (w0, 0)" and "(writer_step env ctx_err log)\<^sup>*\<^sup>* (w0, 0) (w, pos)"
  shows "\<exists>m n. n \<le> length txs \<and> m \<le> n \<and> n \<le> Suc m \<and> committed_pos w = length (concat (take m txs)) \<and>
    events_apply (we_db env) (concat (take n txs)) d0 = Some (db (w_conn w))"
proof -
  have "once_inv (we_db env) txs d0 (w, pos)"
    using once.reachable_inv [OF assms(2,3), of txs] assms(1) by simp
  then obtain m where "settled (we_db env) txs d0 w m"
    by (auto simp: once_inv_def)
  then show ?thesis
    unfolding settled_def after_txs_def tx_start_def by (metis Suc_leI le_SucI order_refl)
qed

lemma sample_clean: "clean_run sample_writer_env [sample_record] [[add_ann]] sample_db"
proof -
  have "events_apply sample_env [add_ann] sample_db \<noteq> None"
    by code_simp
  then show ?thesis
    by (simp add: clean_run_def log_of_def log_offsets_def whole_tx_def sample_writer_env_def sample_record_def)
      (simp add: add_ann_def sample_event_def)
qed

lemma sample_new: "new_writer_on sample_db (sample_writer sample_db, 0)"
  by (simp add: new_writer_on_def new_writer_def sample_writer_def sample_conn_def idle_def)

text \<open>A run of one step that handles the one record.\<close>

lemma sample_run:
  "\<exists>w. (writer_step sample_writer_env (\<lambda>_. None) [sample_record])\<^sup>*\<^sup>* (sample_writer sample_db, 0) (w, 1) \<and> committed_pos w = 1"
proof -
  let ?r = "handleEvent sample_writer_env (\<lambda>_. None) sample_record add_ann (sample_writer sample_db)"
  have "fst ?r = None" "w_committed (snd ?r) = Some 1"
    by code_simp+
  then obtain w where w: "?r = (None, w)" "w_committed w = Some 1"
    by (cases ?r) auto
  have "log_event sample_writer_env [sample_record] 0 add_ann"
    by (simp add: log_event_def sample_writer_env_def)
  with w(1) have "writer_step sample_writer_env (\<lambda>_. None) [sample_record] (sample_writer sample_db, 0) (w, Suc 0)"
    by (intro step_event) simp_all
  with w(2) show ?thesis
    by (auto simp: committed_pos_def)
qed

theorem destination_exactly_once_witness:
  "\<exists>w. (writer_step sample_writer_env (\<lambda>_. None) [sample_record])\<^sup>*\<^sup>* (sample_writer sample_db, 0) (w, 1) \<and>
    committed_pos w = 1 \<and> events_apply sample_env [add_ann] sample_db = Some (db (w_conn w))"
proof -
  obtain w where run: "(writer_step sample_writer_env (\<lambda>_. None) [sample_record])\<^sup>*\<^sup>* (sample_writer sample_db, 0) (w, 1)"
      and pos: "committed_pos w = 1"
    using sample_run by blast
  obtain m n where n: "n \<le> length [[add_ann]]" "m \<le> n" "n \<le> Suc m" "committed_pos w = length (concat (take m [[add_ann]]))"
      "events_apply (we_db sample_writer_env) (concat (take n [[add_ann]])) sample_db = Some (db (w_conn w))"
    using destination_exactly_once [OF sample_clean sample_new run] by blast
  have "m \<noteq> 0"
    using n(4) pos by (cases m) auto
  then have "n = 1"
    using n(1,2) by simp
  then have "events_apply sample_env [add_ann] sample_db = Some (db (w_conn w))"
    using n(5) by (simp add: sample_writer_env_def)
  with run pos show ?thesis by blast
qed

text \<open>Progress: when no call fails, the writer consumes the whole topic without an error, and then
  every transaction has been applied once and the committed offset is the end of the topic.\<close>

theorem topic_drained:
  assumes "calls_succeed env" and "clean_run env log txs d0" and "new_writer_on d0 (w, 0)"
  shows "\<exists>w'. consume_records env ctx_err log w = (None, w') \<and> w_group w' = None \<and> committed_pos w' = length log \<and>
    events_apply (we_db env) (concat txs) d0 = Some (db (w_conn w'))"
proof -
  have "once_inv (we_db env) txs d0 (w, 0)"
    using once.inv_init [OF assms(3)] assms(2) by blast
  from consume_records_ok [OF assms(1,2) this] once_inv_end [OF _ assms(2)] show ?thesis
    by fastforce
qed

theorem topic_drained_witness:
  "\<exists>w'. consume_records sample_writer_env (\<lambda>_. None) [sample_record] (sample_writer sample_db) = (None, w') \<and> committed_pos w' = 1"
proof -
  have "calls_succeed sample_writer_env"
    by (simp add: calls_succeed_def sample_writer_env_def sample_env_def)
  from topic_drained [OF this sample_clean sample_new, of "\<lambda>_. None"] show ?thesis
    by auto
qed



end
