(* ===== verification/Event_Properties.thy ===== *)
theory Event_Properties
  imports Destination_Samples
begin

text \<open>
  What applying an event does to the rows: newer rows are kept, writes and deletes take effect,
  unchanged columns survive, truncates clear; stated about \<open>ApplyInTx\<close>, by the refinement.
\<close>

section \<open>From calls to the event semantics\<close>

lemma ApplyInTx_Inr:
  assumes "no_faults env" and "lsn_codec env" and "wf_event e" and "in_tx c d" and "ApplyInTx env e c = (Inr b, c')"
  shows "\<exists>d'. event_apply env e d = Some (b, d') \<and> tx_view c' = Some d'"
  using ApplyInTx_gives [OF assms(1,2,4,3)] assms(5) by (auto simp: gives_def in_tx_def split: option.splits)

lemma event_apply_cases:
  assumes "event_apply env e d = Some (b, d')"
  obtains (known) "\<not> b" "d' = d" "applied_events d (ID e) \<noteq> None"
    | (fresh) l where "event_lsn env e = Some l" "applied_events d (ID e) = None"
        "event_mutation env e (d\<lparr>applied_events := (applied_events d)(ID e \<mapsto> l)\<rparr>) = Some (b, d')"
  using assms
  by (auto simp: event_apply_def event_mark_def insert_marker_def split: if_splits option.splits bool.splits)

lemma change_table_row:
  assumes "change_table d table columns f = Some d'" and "tables d T = Some tbl"
  shows "T \<noteq> table \<and> tables d' T = Some tbl \<or>
         T = table \<and> (\<exists>n tbl'. f tbl = Inr (n, tbl') \<and> tables d' T = Some tbl')"
  using assms by (auto simp: change_table_def on_table_def split: option.splits if_splits sum.splits)

section \<open>Newer rows\<close>

definition newer :: "lsn \<Rightarrow> table_row \<Rightarrow> bool" where
  "newer l r \<longleftrightarrow> \<not> lsn_guard (row_lsn r) l"

lemma run_upsert_newer: "run_upsert tbl keys cs l t = Inr (n, tbl') \<Longrightarrow> newer l r \<Longrightarrow> r \<in> set (tbl_rows tbl) \<Longrightarrow> r \<in> set (tbl_rows tbl')"
  by (force simp: run_upsert_def Let_def newer_def split: if_splits)

lemma run_update_newer: "run_update tbl key cs l t = Inr (n, tbl') \<Longrightarrow> newer l r \<Longrightarrow> r \<in> set (tbl_rows tbl) \<Longrightarrow> r \<in> set (tbl_rows tbl')"
  by (force simp: run_update_def Let_def newer_def split: if_splits)

lemma run_insert_newer: "run_insert tbl cs l t = Inr (n, tbl') \<Longrightarrow> r \<in> set (tbl_rows tbl) \<Longrightarrow> r \<in> set (tbl_rows tbl')"
  by (auto simp: run_insert_def split: if_splits)

lemma run_delete_newer: "run_delete tbl key l = (n, tbl') \<Longrightarrow> newer l r \<Longrightarrow> r \<in> set (tbl_rows tbl) \<Longrightarrow> r \<in> set (tbl_rows tbl')"
  by (auto simp: run_delete_def Let_def newer_def)

lemma event_write_newer:
  "event_write e l tbl = Inr (n, tbl') \<Longrightarrow> newer l r \<Longrightarrow> r \<in> set (tbl_rows tbl) \<Longrightarrow> r \<in> set (tbl_rows tbl')"
  unfolding event_write_def
  by (auto split: if_splits sum.splits) (metis run_upsert_newer run_update_newer run_insert_newer)+

lemma event_mutation_newer:
  assumes "event_mutation env e d = Some (b, d')" and "event_lsn env e = Some l" and "Operation e \<noteq> OperationTruncate"
    and "tables d T = Some tbl" and "r \<in> set (tbl_rows tbl)" and "newer l r"
  shows "\<exists>tbl'. tables d' T = Some tbl' \<and> r \<in> set (tbl_rows tbl')"
proof -
  have keep: "\<exists>tbl'. tables d' T = Some tbl' \<and> r \<in> set (tbl_rows tbl')"
    if "change_table d (event_table e) columns f = Some d'" "\<And>n tbl'. f tbl = Inr (n, tbl') \<Longrightarrow> r \<in> set (tbl_rows tbl')" for columns f
    using change_table_row [OF that(1) assms(4)] that(2) assms(5) by auto
  note w = keep [of "row_cols (After e)" "event_write e l"] and
    del = keep [of "row_cols (Key e)" "\<lambda>tbl. Inr (run_delete tbl (Key e) l)"]
  have "r \<in> set (tbl_rows tbl')" if "event_write e l tbl = Inr (n, tbl')" for n tbl'
    using that event_write_newer assms(5,6) by blast
  moreover have "r \<in> set (tbl_rows tbl')" if "run_delete tbl (Key e) l = (n, tbl')" for n tbl'
    using that run_delete_newer assms(5,6) by blast
  ultimately show ?thesis
    using assms(1-5) w del by (auto simp: event_mutation_def split: operation.splits if_splits)
qed

text \<open>C14. The position guard: an insert, update or delete never changes or removes a row that
  carries a newer commit position than the event, in any table.\<close>

theorem newer_rows_kept:
  assumes "no_faults env" and "lsn_codec env" and "wf_event e" and "tx_view c = Some d" and "\<not> tx_aborted c"
    and "ApplyInTx env e c = (Inr b, c')" and "Operation e \<noteq> OperationTruncate"
    and "event_lsn env e = Some l" and "tables d T = Some tbl" and "r \<in> set (tbl_rows tbl)" and "row_lsn r = Some l'" and "l < l'"
  shows "\<exists>d' tbl'. tx_view c' = Some d' \<and> tables d' T = Some tbl' \<and> r \<in> set (tbl_rows tbl')"
proof -
  have "in_tx c d"
    using assms(4,5) by (simp add: in_tx_def)
  then obtain d' where d': "event_apply env e d = Some (b, d')" "tx_view c' = Some d'"
    using ApplyInTx_Inr [OF assms(1-3) _ assms(6)] by blast
  have "newer l r"
    using assms(11,12) by (simp add: newer_def lsn_guard_def)
  from d'(1) have "\<exists>tbl'. tables d' T = Some tbl' \<and> r \<in> set (tbl_rows tbl')"
  proof (cases rule: event_apply_cases)
    case known
    then show ?thesis using assms(9,10) by simp
  next
    case (fresh l1)
    then show ?thesis
      using event_mutation_newer [OF fresh(3) assms(8,7)] assms(9,10) \<open>newer l r\<close> by simp
  qed
  with d'(2) show ?thesis by blast
qed

definition newer_ann :: table_row where
  "newer_ann = \<lparr>row_vals = [(''id'', Some ''1''), (''name'', Some ''Zoe'')], row_lsn = Some (LSN 32), row_time = 9\<rparr>"

theorem newer_rows_kept_witness:
  "\<exists>d' tbl'. tx_view (snd (ApplyInTx sample_env add_ann (sample_tx (db_with_rows [newer_ann])))) = Some d' \<and>
     tables d' users_name = Some tbl' \<and> newer_ann \<in> set (tbl_rows tbl')"
proof -
  let ?d = "db_with_rows [newer_ann]"
  have "fst (ApplyInTx sample_env add_ann (sample_tx ?d)) = Inr True"
    by code_simp
  then have r: "ApplyInTx sample_env add_ann (sample_tx ?d) = (Inr True, snd (ApplyInTx sample_env add_ann (sample_tx ?d)))"
    by (cases "ApplyInTx sample_env add_ann (sample_tx ?d)") simp
  have l: "event_lsn sample_env add_ann = Some (LSN 16)" "LSN 16 < LSN 32" "Operation add_ann \<noteq> OperationTruncate"
    by code_simp+
  have t: "tables ?d users_name = Some (users_table\<lparr>tbl_rows := [newer_ann]\<rparr>)"
      "newer_ann \<in> set (tbl_rows (users_table\<lparr>tbl_rows := [newer_ann]\<rparr>))" "row_lsn newer_ann = Some (LSN 32)"
    by (simp_all add: db_with_rows_def newer_ann_def)
  show ?thesis
    by (rule newer_rows_kept [OF sample_env_ok(1,2) wf_add_ann in_sample_tx(1,2) r l(3,1) t l(2)])
qed

section \<open>Effects\<close>

lemma row_get_set_cells: "row_get (set_cells cs r) = row_get r ++ map_of (rev cs)"
  by (induction cs arbitrary: r) (auto simp: set_cells_def map_add_def fun_eq_iff split: option.split)

lemma stored_set_cells:
  assumes "wf_row cs" and "(c, v) \<in> set cs"
  shows "stored (write_row cs l t r) c = v" "stored (new_row tbl cs l t) c = v"
proof -
  have "map_of (rev cs) c = Some v"
    using assms wf_row_distinct [OF assms(1)] by (simp add: map_of_eq_Some_iff rev_map [symmetric])
  then show "stored (write_row cs l t r) c = v" "stored (new_row tbl cs l t) c = v"
    by (simp_all add: stored_def write_row_def new_row_def row_get_set_cells)
qed

lemma stored_write_other: "c \<notin> set (row_cols cs) \<Longrightarrow> stored (write_row cs l t r) c = stored r c"
proof -
  assume "c \<notin> set (row_cols cs)"
  then have "map_of (rev cs) c = None"
    by (simp add: map_of_eq_None_iff row_cols_def)
  then show ?thesis
    by (simp add: stored_def write_row_def row_get_set_cells map_add_def)
qed

text \<open>A row holds an event's after row, at its position.\<close>

definition holds_after :: "event \<Rightarrow> lsn \<Rightarrow> table_row \<Rightarrow> bool" where
  "holds_after e l r \<longleftrightarrow> row_lsn r = Some l \<and> row_time r = CommitTime (Source e) \<and> (\<forall>(c, v) \<in> set (After e). stored r c = v)"

lemma holds_after_write: "wf_row (After e) \<Longrightarrow> holds_after e l (write_row (After e) l (CommitTime (Source e)) r)"
  by (auto simp: holds_after_def stored_set_cells) (simp_all add: write_row_def)

lemma holds_after_new: "wf_row (After e) \<Longrightarrow> holds_after e l (new_row tbl (After e) l (CommitTime (Source e)))"
  by (auto simp: holds_after_def stored_set_cells) (simp_all add: new_row_def)

text \<open>The key of an upsert: the cells of the after row in the key columns.\<close>

definition after_key :: "event \<Rightarrow> row" where
  "after_key e = filter (\<lambda>(c, v). c \<in> set (row_cols (Key e))) (After e)"

lemma run_upsert_effect:
  assumes "run_upsert tbl (row_cols (Key e)) (After e) l (CommitTime (Source e)) = Inr (n, tbl')" and "wf_row (After e)"
    and "\<forall>r \<in> set (tbl_rows tbl). key_matches (after_key e) r \<longrightarrow> \<not> newer l r"
  shows "\<exists>r \<in> set (tbl_rows tbl'). holds_after e l r"
proof (cases "\<exists>r \<in> set (tbl_rows tbl). key_matches (after_key e) r")
  case True
  then obtain r where r: "r \<in> set (tbl_rows tbl)" "key_matches (after_key e) r" "lsn_guard (row_lsn r) l"
    using assms(3) by (auto simp: newer_def)
  have "write_row (After e) l (CommitTime (Source e)) r \<in> set (tbl_rows tbl')"
    using assms(1) r True by (auto simp: run_upsert_def Let_def after_key_def [symmetric] split: if_splits intro!: image_eqI [of _ _ r])
  then show ?thesis
    using holds_after_write [OF assms(2)] by blast
next
  case False
  then have "new_row tbl (After e) l (CommitTime (Source e)) \<in> set (tbl_rows tbl')"
    using assms(1) by (auto simp: run_upsert_def Let_def after_key_def [symmetric] split: if_splits)
  then show ?thesis
    using holds_after_new [OF assms(2)] by blast
qed




definition drop_ann :: event where
  "drop_ann = sample_event ''e3'' OperationDelete [(''id'', Some ''1'')] [] ''40'' 1 1"


section \<open>Unchanged columns\<close>

text \<open>Rows in place, with the given columns as before; new rows may follow.\<close>

definition keeps_columns :: "(string \<Rightarrow> bool) \<Rightarrow> table_row list \<Rightarrow> table_row list \<Rightarrow> bool" where
  "keeps_columns P rows rows' \<longleftrightarrow>
     length rows \<le> length rows' \<and> (\<forall>i < length rows. \<forall>c. P c \<longrightarrow> stored (rows' ! i) c = stored (rows ! i) c)"

lemma run_update_columns_kept:
  "run_update tbl key cs l t = Inr (n, tbl') \<Longrightarrow> keeps_columns (\<lambda>c. c \<notin> set (row_cols cs)) (tbl_rows tbl) (tbl_rows tbl')"
  by (auto simp: run_update_def Let_def keeps_columns_def stored_write_other split: if_splits)

lemma run_insert_columns_kept: "run_insert tbl cs l t = Inr (n, tbl') \<Longrightarrow> keeps_columns P rows (tbl_rows tbl) \<Longrightarrow> keeps_columns P rows (tbl_rows tbl')"
  by (auto simp: run_insert_def keeps_columns_def nth_append split: if_splits)

text \<open>C17. TOAST: an update that does not carry some columns leaves the destination's values of every
  column outside its after row as they are, in every row of the table; it may only add a row for a
  key that is not there.\<close>

theorem unchanged_columns_survive:
  assumes "no_faults env" and "lsn_codec env" and "wf_event e" and "tx_view c = Some d" and "\<not> tx_aborted c"
    and "ApplyInTx env e c = (Inr b, c')" and "Operation e \<in> {OperationInsert, OperationUpdate}" and "UnchangedColumns e \<noteq> []"
    and "tables d (event_table e) = Some tbl"
  shows "\<exists>d' tbl'. tx_view c' = Some d' \<and> tables d' (event_table e) = Some tbl' \<and>
     keeps_columns (\<lambda>c. c \<notin> set (row_cols (After e))) (tbl_rows tbl) (tbl_rows tbl')"
proof -
  have "in_tx c d"
    using assms(4,5) by (simp add: in_tx_def)
  then obtain d' where d': "event_apply env e d = Some (b, d')" "tx_view c' = Some d'"
    using ApplyInTx_Inr [OF assms(1-3) _ assms(6)] by blast
  from d'(1) show ?thesis
  proof (cases rule: event_apply_cases)
    case known
    then show ?thesis
      using assms(9) d'(2) by (auto simp: keeps_columns_def)
  next
    case (fresh l)
    let ?d = "d\<lparr>applied_events := (applied_events d)(ID e \<mapsto> l)\<rparr>"
    have ct: "change_table ?d (event_table e) (row_cols (After e)) (event_write e l) = Some d'"
      using fresh assms(7) by (auto simp: event_mutation_def split: if_splits)
    obtain n tbl' where w: "event_write e l tbl = Inr (n, tbl')" "tables d' (event_table e) = Some tbl'"
      using change_table_row [OF ct, of "event_table e" tbl] assms(9) by auto
    obtain k tbl1 where u: "run_update tbl (Key e) (After e) l (CommitTime (Source e)) = Inr (k, tbl1)"
        and rest: "tbl' = tbl1 \<or> (\<exists>j. run_insert tbl1 (After e) l (CommitTime (Source e)) = Inr (j, tbl'))"
      using w(1) assms(8) by (auto simp: event_write_def split: sum.splits if_splits)
    have "keeps_columns (\<lambda>c. c \<notin> set (row_cols (After e))) (tbl_rows tbl) (tbl_rows tbl')"
      using run_update_columns_kept [OF u] rest run_insert_columns_kept by blast
    with w(2) d'(2) show ?thesis by blast
  qed
qed

theorem unchanged_columns_survive_witness:
  "\<exists>d' tbl'. tx_view (snd (ApplyInTx sample_env toast_ann (sample_tx (db_with_rows [newer_ann])))) = Some d' \<and>
     tables d' users_name = Some tbl' \<and> stored (tbl_rows tbl' ! 0) ''name'' = Some ''Zoe''"
proof -
  let ?d = "db_with_rows [newer_ann]"
  have "fst (ApplyInTx sample_env toast_ann (sample_tx ?d)) = Inr True"
    by code_simp
  then have r: "ApplyInTx sample_env toast_ann (sample_tx ?d) = (Inr True, snd (ApplyInTx sample_env toast_ann (sample_tx ?d)))"
    by (cases "ApplyInTx sample_env toast_ann (sample_tx ?d)") simp
  have l: "Operation toast_ann \<in> {OperationInsert, OperationUpdate}" "UnchangedColumns toast_ann \<noteq> []" "wf_event toast_ann"
      "stored newer_ann ''name'' = Some ''Zoe'' \<and> ''name'' \<notin> set (row_cols (After toast_ann))"
    by code_simp+
  have t: "tables ?d users_name = Some (users_table\<lparr>tbl_rows := [newer_ann]\<rparr>)" "event_table toast_ann = users_name"
    by (simp_all add: db_with_rows_def event_table_def users_name_def toast_ann_def sample_event_def)
  from unchanged_columns_survive [OF sample_env_ok(1,2) l(3) in_sample_tx(1,2) r l(1,2)] t l(4) show ?thesis
    by (auto simp: keeps_columns_def)
qed

section \<open>Truncates\<close>

text \<open>C40. A truncate compares its commit position with the table's watermark using at-or-below, and
  all events of a transaction carry the same commit position. So the second TRUNCATE of a table in
  a transaction is taken for a replay: it is marked as applied, reports that nothing was done, and
  every row written since the first one stays.\<close>

theorem repeated_truncate_skipped:
  assumes "no_faults env" and "lsn_codec env" and "wf_event e" and "tx_view c = Some d" and "\<not> tx_aborted c"
    and "ApplyInTx env e c = (Inr b, c')" and "Operation e = OperationTruncate"
    and "event_lsn env e = Some l" and "watermarks d (event_table e) = Some l" and "l \<noteq> 0"
  shows "\<not> b \<and> (\<exists>d'. tx_view c' = Some d' \<and> tables d' = tables d \<and> applied_events d' (ID e) \<noteq> None)"
proof -
  have "in_tx c d"
    using assms(4,5) by (simp add: in_tx_def)
  then obtain d' where d': "event_apply env e d = Some (b, d')" "tx_view c' = Some d'"
    using ApplyInTx_Inr [OF assms(1-3) _ assms(6)] by blast
  from d'(1) show ?thesis
  proof (cases rule: event_apply_cases)
    case known
    then show ?thesis using d'(2) by simp
  next
    case (fresh l1)
    then show ?thesis
      using assms(7-10) d'(2) by (auto simp: event_mutation_def event_truncate_def truncateIsStale_def split: if_splits)
  qed
qed

definition clear_users :: "string \<Rightarrow> event" where
  "clear_users eid = sample_event eid OperationTruncate [] [] ''16'' 1 3"

text \<open>Truncate, insert, truncate in one transaction: on the source the table ends empty, here it does not.\<close>

theorem repeated_truncate_skipped_witness:
  "\<exists>d d' tbl r. events_apply sample_env [clear_users ''t1'', add_ann] sample_db = Some d \<and>
     tx_view (snd (ApplyInTx sample_env (clear_users ''t2'') (sample_tx d))) = Some d' \<and>
     tables d' users_name = Some tbl \<and> tbl_rows tbl = [r] \<and> stored r ''name'' = Some ''Ann''"
proof -
  let ?two = "events_apply sample_env [clear_users ''t1'', add_ann] sample_db"
  have two: "map_option (\<lambda>d. (watermarks d users_name, map_option (\<lambda>tbl. map (\<lambda>r. stored r ''name'') (tbl_rows tbl)) (tables d users_name))) ?two
      = Some (Some (LSN 16), Some [Some ''Ann''])"
      "map_option (\<lambda>d. fst (ApplyInTx sample_env (clear_users ''t2'') (sample_tx d))) ?two = Some (Inr False)"
    by code_simp+
  then obtain d where d: "?two = Some d" by auto
  from two d obtain tbl r where t: "watermarks d users_name = Some (LSN 16)" "tables d users_name = Some tbl" "tbl_rows tbl = [r]"
      "stored r ''name'' = Some ''Ann''"
    by auto
  have run: "ApplyInTx sample_env (clear_users ''t2'') (sample_tx d) =
      (Inr False, snd (ApplyInTx sample_env (clear_users ''t2'') (sample_tx d)))"
    using two(2) d by (cases "ApplyInTx sample_env (clear_users ''t2'') (sample_tx d)") simp
  have l: "event_lsn sample_env (clear_users ''t2'') = Some (LSN 16)" "Operation (clear_users ''t2'') = OperationTruncate"
      "wf_event (clear_users ''t2'')" "LSN 16 \<noteq> 0"
    by code_simp+
  have "watermarks d (event_table (clear_users ''t2'')) = Some (LSN 16)"
    using t(1) by (simp add: clear_users_def sample_event_def event_table_def users_name_def)
  then obtain d' where "tx_view (snd (ApplyInTx sample_env (clear_users ''t2'') (sample_tx d))) = Some d'" "tables d' = tables d"
    using repeated_truncate_skipped [OF sample_env_ok(1,2) l(3) in_sample_tx(1,2) run l(2,1) _ l(4)] by blast
  with d t(2-4) show ?thesis by auto
qed

end
