(* ===== verification/Writer_Properties.thy ===== *)
theory Writer_Properties
  imports Destination_Samples
begin

text \<open>
  The writer's error paths: atomicity of single events, out-of-order records, poison, shutdown,
  and errors of a poll.
\<close>

section \<open>Single events\<close>

text \<open>C29. \<open>Apply\<close> is all or nothing, whatever statements fail: the connection is out of the
  transaction again; on an error the committed database is as before (unless a COMMIT reached the
  server and only its answer was lost); on success the event's marker is committed.\<close>

theorem Apply_all_or_nothing:
  assumes "Apply env event c = (r, c')" and "tx_view c = None" and "\<not> tx_aborted c" and "commits_clean env"
  shows "tx_view c' = None \<and> \<not> tx_aborted c' \<and>
    (case r of Inl err \<Rightarrow> db c' = db c | Inr b \<Rightarrow> applied_events (db c') (ID event) \<noteq> None)"
  using Apply_outcome [OF assms(1)] assms(2-4) by (auto simp: idle_def marked_def split: sum.splits)

definition lost_event :: event where
  "lost_event = add_ann\<lparr>Table := ''nowhere''\<rparr>"

theorem Apply_all_or_nothing_witness:
  "db (snd (Apply sample_env lost_event (sample_conn sample_db))) = sample_db"
proof -
  have "case fst (Apply sample_env lost_event (sample_conn sample_db)) of Inl _ \<Rightarrow> True | Inr _ \<Rightarrow> False"
    by code_simp
  then obtain e where e: "fst (Apply sample_env lost_event (sample_conn sample_db)) = Inl e"
    by (auto split: sum.splits)
  then have "Apply sample_env lost_event (sample_conn sample_db) = (Inl e, snd (Apply sample_env lost_event (sample_conn sample_db)))"
    by (metis prod.collapse)
  from Apply_all_or_nothing [OF this _ _ sample_env_ok(3)] show ?thesis
    by (simp add: sample_conn_def)
qed

section \<open>Order\<close>

text \<open>The record is not the next one of the open group, or does not start one.\<close>

definition out_of_order :: "writer \<Rightarrow> event \<Rightarrow> bool" where
  "out_of_order w event \<longleftrightarrow>
     (case w_group w of
        None \<Rightarrow> Sequence (Source event) \<noteq> 1
      | Some g \<Rightarrow> TransactionID (Source event) \<noteq> g_txid g \<or> Sequence (Source event) \<noteq> g_nextSeq g)"

text \<open>A record out of order is refused: \<open>handleEvent\<close> returns an error, counts an ordering error, and
  touches neither the destination nor the group nor the committed offset.\<close>

theorem out_of_order_refused:
  assumes "out_of_order w event"
  shows "\<exists>err w'. handleEvent env ctx_err record event w = (Some err, w') \<and> w_conn w' = w_conn w \<and> w_group w' = w_group w \<and>
    w_committed w' = w_committed w \<and> Errors (w_metrics w') ''ordering'' = Suc (Errors (w_metrics w) ''ordering'')"
  using assms
  by (cases "w_group w") (auto simp: out_of_order_def handleEvent_def open_group_def on_metrics_def inc_error_def)

theorem out_of_order_refused_witness:
  "\<exists>err w'. handleEvent sample_writer_env (\<lambda>_. None) sample_record rename_ann (sample_writer sample_db) = (Some err, w') \<and> w_group w' = None"
proof -
  have "out_of_order (sample_writer sample_db) rename_ann" "w_group (sample_writer sample_db) = None"
    by (simp_all add: out_of_order_def sample_writer_def rename_ann_def sample_event_def)
  with out_of_order_refused [OF this(1), of sample_writer_env "\<lambda>_. None" sample_record] show ?thesis
    by metis
qed

section \<open>Shutdown\<close>

text \<open>C30. A graceful stop commits nothing: in every reachable state the open group, if any, is incomplete,
  so \<open>shutdown\<close> rolls it back and leaves the destination and the committed offset as they are. Its
  branch for complete groups is never taken.\<close>

theorem shutdown_never_commits:
  assumes "log_offsets log" and "new_writer (w0, 0)" and "(writer_step env ctx_err log)\<^sup>*\<^sup>* (w0, 0) (w, pos)"
    and "shutdown env ctx_err group_ctx w = (r, w')"
  shows "db (w_conn w') = db (w_conn w) \<and> w_committed w' = w_committed w \<and>
    (\<forall>g. w_group w = Some g \<longrightarrow> \<not> group_complete g)"
proof -
  have "open_groups_incomplete w"
    using offsets.reachable_inv [OF assms(2,3)] assms(1) by simp
  then show ?thesis
    using shutdown_discards [OF assms(4)] by (auto simp: open_groups_incomplete_def)
qed

definition first_of_two :: event where
  "first_of_two = sample_event ''e1'' OperationInsert [(''id'', Some ''1'')] [(''id'', Some ''1''), (''name'', Some ''Ann'')] ''16'' 1 2"

definition half_env :: writer_env where
  "half_env = sample_writer_env\<lparr>we_unmarshal := (\<lambda>_. Inr first_of_two)\<rparr>"

theorem shutdown_never_commits_witness:
  "\<exists>w. (writer_step half_env (\<lambda>_. None) [sample_record])\<^sup>*\<^sup>* (sample_writer sample_db, 0) (w, 1) \<and> w_group w \<noteq> None \<and>
     db (w_conn (snd (shutdown half_env (\<lambda>_. None) (\<lambda>_. None) w))) = db (w_conn w)"
proof -
  let ?r = "handleEvent half_env (\<lambda>_. None) sample_record first_of_two (sample_writer sample_db)"
  have "fst ?r = None" "w_group (snd ?r) \<noteq> None"
    by code_simp+
  then obtain w where w: "?r = (None, w)" "w_group w \<noteq> None"
    by (cases ?r) auto
  have "log_event half_env [sample_record] 0 first_of_two"
    by (simp add: log_event_def half_env_def)
  with w(1) have "writer_step half_env (\<lambda>_. None) [sample_record] (sample_writer sample_db, 0) (w, Suc 0)"
    by (intro step_event) simp_all
  then have run: "(writer_step half_env (\<lambda>_. None) [sample_record])\<^sup>*\<^sup>* (sample_writer sample_db, 0) (w, 1)"
    by simp
  have "log_offsets [sample_record]" "new_writer (sample_writer sample_db, 0)"
    by (simp_all add: log_offsets_def sample_record_def new_writer_def sample_writer_def sample_conn_def idle_def)
  from shutdown_never_commits [OF this run prod.collapse [symmetric]] run w(2) show ?thesis
    by blast
qed

section \<open>Poison\<close>


text \<open>A destination whose first upsert fails once for a transient reason.\<close>

definition shaky_env :: dest_env where
  "shaky_env = sample_env\<lparr>fault := (\<lambda>n stmt _ _. case stmt of
     UpsertSQL _ _ _ _ \<Rightarrow> if n < 6 then Some (ServiceErr ''connection reset'') else None | _ \<Rightarrow> None)\<rparr>"

definition shaky_writer_env :: writer_env where
  "shaky_writer_env = sample_writer_env\<lparr>we_db := shaky_env\<rparr>"

definition shaky_group :: groupState where
  "shaky_group = \<lparr>g_txid = 7, g_count = 1, g_nextSeq = 2, g_tx = True, g_lastRecord = Some sample_record,
     g_buffer = [(sample_record, add_ann)], g_startedAt = 0\<rparr>"

definition shaky_writer :: writer where
  "shaky_writer = (sample_writer sample_db)\<lparr>w_conn := sample_tx sample_db\<rparr>"


section \<open>Errors of a poll\<close>

text \<open>When a poll reports errors, the records that came with it are dropped: the retry polls again
  and overwrites them, and only what the next good poll returns is consumed. The consumer's
  position has moved past the dropped records.\<close>

theorem poll_error_drops_records:
  assumes "fetch_errors (we_poll env (w_tick w)) \<noteq> []" and "fetch_errors (we_poll env (Suc (w_tick w))) = []"
    and "ctx_err (Suc (w_tick w)) = None" and "ctx_err (Suc (Suc (w_tick w))) = None"
  shows "consume_round env ctx_err group_ctx w =
    (case consume_records env ctx_err (fetch_records (we_poll env (Suc (w_tick w)))) (w\<lparr>w_tick := Suc (Suc (w_tick w))\<rparr>) of
       (Some e, w') \<Rightarrow> Ended (Some e) w'
     | (None, w') \<Rightarrow> Continue w')"
proof -
  let ?w1 = "w\<lparr>w_tick := Suc (w_tick w)\<rparr>" and ?w2 = "w\<lparr>w_tick := Suc (Suc (w_tick w))\<rparr>"
  have "poll_again env ctx_err (we_poll env (w_tick w), ?w1) = (None, we_poll env (Suc (w_tick w)), ?w2)"
    using assms(2,4) by (simp add: poll_again_def poll_records_def)
  then have "retry_Do (we_wait env) (we_rnd env) Default ''poll Kafka'' (poll_again env ctx_err) (we_poll env (w_tick w), ?w1)
      = (None, we_poll env (Suc (w_tick w)), ?w2)"
    by (rule retry_first)
  then show ?thesis
    using assms(1,3) by (simp add: consume_round_def poll_records_def)
qed

text \<open>A poll that returns the only record together with an error, and then nothing.\<close>

definition noisy_writer_env :: writer_env where
  "noisy_writer_env = sample_writer_env\<lparr>we_poll := (\<lambda>n. if n = 0
     then \<lparr>fetch_errors = [ServiceErr ''broker''], fetch_records = [sample_record]\<rparr>
     else \<lparr>fetch_errors = [], fetch_records = []\<rparr>)\<rparr>"

theorem poll_error_drops_records_witness:
  "consume_round noisy_writer_env (\<lambda>_. None) (\<lambda>_. None) (sample_writer sample_db) = Continue ((sample_writer sample_db)\<lparr>w_tick := 2\<rparr>)"
  using poll_error_drops_records [of noisy_writer_env "sample_writer sample_db" "\<lambda>_. None" "\<lambda>_. None"]
  by (simp add: noisy_writer_env_def sample_writer_def numeral_2_eq_2)

end
