(* ===== verification/Recovery_Properties.thy ===== *)
theory Recovery_Properties
  imports Destination_Samples
begin

text \<open>
  Operator actions and boot: dead letters read back, replayed and dropped; the snapshot; schema
  repair.
\<close>

section \<open>Recording\<close>

lemma exec_no_change:
  assumes "exec env stmt ps c = (r, c')" and "\<And>now d res d'. run_stmt env now stmt ps d = Inr (res, d') \<Longrightarrow> f d' = f d"
  shows "f (view c') = f (view c)"
  using exec_cases [OF assms(1)] assms(2) by (auto simp: view_def split: option.splits)

lemma markApplied_keeps_letters:
  assumes "markApplied env eid l c = (x, c1)"
  shows "dead_letters (view c1) = dead_letters (view c)"
proof -
  obtain r c2 where r: "exec env MarkerReturningSQL [PText eid, PText l] c = (r, c2)"
    by (cases "exec env MarkerReturningSQL [PText eid, PText l] c") auto
  have "dead_letters (view c2) = dead_letters (view c)"
    by (rule exec_no_change [OF r]) (auto simp: with_lsn_def insert_marker_def split: option.splits prod.splits if_splits)
  moreover have "c1 = c2"
    using assms r by (auto simp: markApplied_def query_row_def split: sum.splits if_splits sql_result.splits list.splits)
  ultimately show ?thesis by simp
qed

definition letter_row :: "event \<Rightarrow> goerr \<Rightarrow> int \<Rightarrow> dead_row" where
  "letter_row e reason now = \<lparr>dl_event_id = ID e, dl_schema = Schema e, dl_table = Table e, dl_operation = op_string (Operation e),
     dl_lsn = CommitLSN (Source e), dl_time = CommitTime (Source e), dl_key = json_of_row (Key e), dl_before = json_of_row (Before e),
     dl_after = json_of_row (After e), dl_unchanged = json_of_strings (UnchangedColumns e), dl_reason = reason, dl_occurred = now\<rparr>"

lemma dead_letter_params_values: "dead_letter_params (dead_letter_values e reason) now = Some (letter_row e reason now)"
  by (simp add: dead_letter_params_def dead_letter_values_def letter_row_def text_param_def)

lemma RecordDeadLetter_letters:
  assumes "RecordDeadLetter env e reason c = (None, c')" and "idle c"
  shows "\<exists>now. dead_letters (db c') = upsert_dead_letter (letter_row e reason now) (dead_letters (db c)) \<and>
     set (meta_needed DeadLetterGetSQL) \<subseteq> set (meta_objects (db c'))"
proof -
  obtain x where x: "tx_frame env (Wrapf ''begin dead-letter transaction: %w'' [])
      (Wrapf ''commit dead-letter transaction: %w'' []) (dead_letter_body env e reason) c = (Inr x, c')"
    using assms(1) unfolding RecordDeadLetter_frame by (auto split: prod.splits sum.splits)
  obtain c1 c2 where body: "tx_view c1 = Some (db c)" "dead_letter_body env e reason c1 = (Inr x, c2)" "tx_view c2 = Some (db c')"
    using tx_frame_outcome [OF x assms(2)] runs_dead_letter_body [of env e reason] by (simp add: sum.case) metis
  obtain b c3 where m: "markApplied env (ID e) (CommitLSN (Source e)) c1 = (Inr b, c3)"
      and i: "exec_err env DeadLetterInsertSQL (dead_letter_values e reason) c3 = (None, c2)"
    using body(2) by (auto simp: dead_letter_body_def split: prod.splits sum.splits option.splits)
  obtain res where "exec env DeadLetterInsertSQL (dead_letter_values e reason) c3 = (Inr res, c2)"
    using i by (auto simp: exec_err_def split: prod.splits sum.splits)
  from exec_cases [OF this] obtain now where
      "run_stmt env now DeadLetterInsertSQL (dead_letter_values e reason) (view c3) = Inr (res, view c2)"
      "has_meta (view c3) DeadLetterInsertSQL"
    by auto
  then have v: "view c2 = (view c3)\<lparr>dead_letters := upsert_dead_letter (letter_row e reason now) (dead_letters (view c3))\<rparr>"
    by (simp add: dead_letter_params_values)
  moreover have "set (meta_needed DeadLetterGetSQL) \<subseteq> set (meta_objects (view c2))"
    using \<open>has_meta (view c3) DeadLetterInsertSQL\<close> by (simp add: v has_meta_def)
  ultimately have "dead_letters (view c2) = upsert_dead_letter (letter_row e reason now) (dead_letters (view c3))"
      "set (meta_needed DeadLetterGetSQL) \<subseteq> set (meta_objects (view c2))"
    by simp_all
  with markApplied_keeps_letters [OF m] body show ?thesis
    by (auto simp: view_def)
qed

text \<open>What a dead letter keeps of an event.\<close>

definition stored_event :: "event \<Rightarrow> event" where
  "stored_event e = e\<lparr>Version := EventVersion, Source := \<lparr>TransactionID = 0, CommitLSN = CommitLSN (Source e), TransactionEndLSN = [],
     CommitTime = CommitTime (Source e), Sequence = 0, TransactionEventCount = 0\<rparr>\<rparr>"

lemma jsonRow_json_of_row: "jsonRow (json_of_row r) = Inr r"
  by (simp add: json_of_row_def)

lemma json_columns_json_of_strings: "json_columns (json_of_strings l) = Inr l"
  by (simp add: json_of_strings_def)

lemma scan_letter_row:
  assumes "op_of (op_string (Operation e)) = Operation e"
  shows "\<exists>record. scanDeadLetter (letter_row e reason now) = Inr record \<and> dead_letter_Event record = stored_event e \<and> rec_Reason record = reason"
  using assms by (auto simp: scanDeadLetter_def letter_row_def jsonRow_json_of_row json_columns_json_of_strings dead_letter_Event_def stored_event_def)



definition after_letter :: database where
  "after_letter = db (snd (RecordDeadLetter sample_env toast_ann ErrNoRows (sample_conn sample_db)))"

lemma toast_recorded:
  "RecordDeadLetter sample_env toast_ann ErrNoRows (sample_conn sample_db) =
     (None, snd (RecordDeadLetter sample_env toast_ann ErrNoRows (sample_conn sample_db)))"
proof -
  have "fst (RecordDeadLetter sample_env toast_ann ErrNoRows (sample_conn sample_db)) = None"
    by code_simp
  then show ?thesis by (metis prod.collapse)
qed

lemma sample_conn_idle [simp]: "tx_view (sample_conn d) = None" "\<not> tx_aborted (sample_conn d)" "db (sample_conn d) = d" "idle (sample_conn d)"
  by (simp_all add: sample_conn_def idle_def)


section \<open>Replaying and dropping\<close>

lemma exec_err_idle:
  assumes "exec_err env stmt ps c = (r, c')" and "idle c"
  shows "idle c' \<and> (r \<noteq> None \<longrightarrow> db c' = db c) \<and> (r = None \<longrightarrow> (\<exists>res now. run_stmt env now stmt ps (db c) = Inr (res, db c')))"
proof -
  obtain x where "exec env stmt ps c = (x, c')" and x: "r = None \<longleftrightarrow> (\<exists>y. x = Inr y)"
    using assms(1) by (auto simp: exec_err_def split: prod.splits sum.splits)
  from exec_cases [OF this(1)] x assms(2) show ?thesis
    by (auto simp: idle_def view_def split: option.splits)
qed

lemma GetDeadLetter_idle:
  assumes "GetDeadLetter env eid c = (r, c')" and "idle c"
  shows "idle c' \<and> db c' = db c \<and> (\<forall>record. r = Inr record \<longrightarrow>
    (\<exists>x \<in> set (dead_letters (db c)). dl_event_id x = eid) \<and> ID (dead_letter_Event record) = eid)"
proof -
  obtain x where x: "exec env DeadLetterGetSQL [PText eid] c = (x, c')"
    using assms(1) by (auto simp: GetDeadLetter_def split: prod.splits sum.splits sql_result.splits list.splits)
  have rows: "(\<exists>x \<in> set (dead_letters (db c)). dl_event_id x = eid) \<and> dl_event_id d = eid"
    if "x = Inr (DeadRows (d # ds))" for d ds
  proof -
    have "d # ds = filter (\<lambda>r. dl_event_id r = eid) (dead_letters (db c))"
      using exec_cases [OF x] that assms(2) by (auto simp: idle_def view_def nth_param_def text_param_def split: option.splits)
    then have "d \<in> set (filter (\<lambda>r. dl_event_id r = eid) (dead_letters (db c)))"
      by (metis list.set_intros(1))
    then show ?thesis by auto
  qed
  have "idle c' \<and> db c' = db c"
    using exec_cases [OF x] assms(2) by (auto simp: idle_def view_def split: option.splits)
  moreover have "ID (dead_letter_Event letter) = dl_event_id d" if "scanDeadLetter d = Inr letter" for d letter
    using that by (auto simp: scanDeadLetter_def dead_letter_Event_def split: sum.splits)
  ultimately show ?thesis
    using assms(1) x rows by (auto simp: GetDeadLetter_def split: sum.splits sql_result.splits list.splits)
qed

lemma delete_marker: "run_stmt env now DeleteMarkerSQL [PText eid] d = Inr (res, d') \<Longrightarrow>
    d' = d\<lparr>applied_events := (applied_events d)(eid := None)\<rparr>"
  by (auto simp: nth_param_def text_param_def)

lemma delete_letter: "run_stmt env now DeleteDeadLetterSQL [PText eid] d = Inr (res, d') \<Longrightarrow>
    d' = d\<lparr>dead_letters := filter (\<lambda>r. dl_event_id r \<noteq> eid) (dead_letters d)\<rparr>"
  by (auto simp: nth_param_def text_param_def)

lemma delete_marker_idle:
  assumes "exec_err env DeleteMarkerSQL [PText eid] c = (r, c')" and "idle c"
  shows "idle c' \<and> dead_letters (db c') = dead_letters (db c) \<and>
    (\<forall>i. i \<noteq> eid \<longrightarrow> applied_events (db c') i = applied_events (db c) i)"
proof (cases r)
  case None
  then obtain res now where "run_stmt env now DeleteMarkerSQL [PText eid] (db c) = Inr (res, db c')"
    using exec_err_idle [OF assms] by blast
  from delete_marker [OF this] show ?thesis
    using exec_err_idle [OF assms] by simp
qed (use exec_err_idle [OF assms] in simp)

lemma delete_letter_idle:
  assumes "exec_err env DeleteDeadLetterSQL [PText eid] c = (None, c')" and "idle c"
  shows "idle c' \<and> applied_events (db c') = applied_events (db c) \<and>
    dead_letters (db c') = filter (\<lambda>r. dl_event_id r \<noteq> eid) (dead_letters (db c))"
proof -
  obtain res now where "run_stmt env now DeleteDeadLetterSQL [PText eid] (db c) = Inr (res, db c')"
    using exec_err_idle [OF assms] by blast
  from delete_letter [OF this] show ?thesis
    using exec_err_idle [OF assms] by simp
qed

text \<open>A replay that succeeds settles its event and touches no other marker and no other dead letter.\<close>

lemma ReplayDeadLetter_success:
  assumes r: "ReplayDeadLetter env eid c = (Inr b, c')" and i: "idle c"
  shows "b \<and> idle c' \<and> applied_events (db c') eid \<noteq> None \<and>
    (\<forall>i. applied_events (db c) i \<noteq> None \<longrightarrow> applied_events (db c') i \<noteq> None) \<and>
    dead_letters (db c') = filter (\<lambda>r. dl_event_id r \<noteq> eid) (dead_letters (db c))"
proof -
  obtain letter c1 c2 b' c3 where g: "GetDeadLetter env eid c = (Inr letter, c1)"
    and m: "exec_err env DeleteMarkerSQL [PText eid] c1 = (None, c2)"
    and a: "Apply env (dead_letter_Event letter) c2 = (Inr b', c3)"
    and x: "exec_err env DeleteDeadLetterSQL [PText eid] c3 = (None, c')" and b
    using r by (auto simp: ReplayDeadLetter_def split: prod.splits sum.splits option.splits)
  have c1: "idle c1" "db c1 = db c" "ID (dead_letter_Event letter) = eid"
    using GetDeadLetter_idle [OF g i] by auto
  note c2 = delete_marker_idle [OF m c1(1)]
  have i2: "idle c2" using c2 by simp
  have c3: "idle c3" "marks (db c2) (db c3)" "applied_events (db c3) eid \<noteq> None" "dead_letters (db c3) = dead_letters (db c2)"
    using Apply_outcome [OF a i2] Apply_keeps_letters [OF a i2] c1(3) by (simp_all add: marked_def)
  note c4 = delete_letter_idle [OF x c3(1)]
  have "applied_events (db c') j \<noteq> None" if "applied_events (db c) j \<noteq> None" for j
  proof (cases "j = eid")
    case False
    then have "applied_events (db c2) j \<noteq> None"
      using that c2 c1(2) by simp
    from marks_dom [OF c3(2) this] show ?thesis using c4 by simp
  qed (use c4 c3(3) in simp)
  then show ?thesis
    using \<open>b\<close> c4 c3 c2 c1(2) by simp
qed

text \<open>The dead letter of a failed replay is stashed again, or its loss is not committed.\<close>

lemma restash_keeps_ids:
  assumes "RecordDeadLetter env e reason c = (q, c')" and "idle c" and "commits_clean env"
    and "ID e \<in> dl_event_id ` set (dead_letters (db c))"
  shows "dl_event_id ` set (dead_letters (db c')) = dl_event_id ` set (dead_letters (db c))"
proof (cases q)
  case None
  then obtain now where "dead_letters (db c') = upsert_dead_letter (letter_row e reason now) (dead_letters (db c))"
    using RecordDeadLetter_letters assms(1,2) by blast
  then show ?thesis
    using assms(4) by (auto simp: upsert_dead_letter_ids letter_row_def)
next
  case (Some e)
  then show ?thesis
    using RecordDeadLetter_outcome [OF assms(1,2)] assms(3) by simp
qed

lemma ReplayDeadLetter_failure:
  assumes r: "ReplayDeadLetter env eid c = (Inl err, c')" and i: "idle c" and clean: "commits_clean env"
  shows "dl_event_id ` set (dead_letters (db c')) = dl_event_id ` set (dead_letters (db c))"
proof -
  let ?ids = "\<lambda>c. dl_event_id ` set (dead_letters (db c))"
  obtain g c1 where g: "GetDeadLetter env eid c = (g, c1)" by (cases "GetDeadLetter env eid c") auto
  note c1 = GetDeadLetter_idle [OF g i]
  then have i1: "idle c1" by simp
  obtain m c2 where m: "exec_err env DeleteMarkerSQL [PText eid] c1 = (m, c2)"
    by (cases "exec_err env DeleteMarkerSQL [PText eid] c1") auto
  note c2 = delete_marker_idle [OF m i1]
  then have i2: "idle c2" and ids2: "?ids c2 = ?ids c" using c1 by simp_all
  show ?thesis
  proof (cases "\<exists>letter. g = Inr letter \<and> m = None")
    case False
    then show ?thesis
      using r g m c1 ids2 by (auto simp: ReplayDeadLetter_def split: sum.splits option.splits)
  next
    case True
    then obtain letter where l: "g = Inr letter" "m = None" by blast
    let ?e = "dead_letter_Event letter"
    obtain a c3 where a: "Apply env ?e c2 = (a, c3)" by (cases "Apply env ?e c2") auto
    have c3: "idle c3" "?ids c3 = ?ids c2"
      using Apply_outcome [OF a i2] Apply_keeps_letters [OF a i2] by simp_all
    show ?thesis
    proof (cases a)
      case (Inl err')
      then obtain q where q: "RecordDeadLetter env ?e (Flatf ''replay failed: %v'' [] err') c3 = (q, c')"
        using r g m l a by (auto simp: ReplayDeadLetter_def split: option.splits prod.splits)
      have "ID ?e \<in> ?ids c3"
        using c1 l c3(2) ids2 by (simp, metis image_eqI)
      from restash_keeps_ids [OF q c3(1) clean this] show ?thesis
        using c3(2) ids2 by simp
    next
      case (Inr b)
      then obtain e where x: "exec_err env DeleteDeadLetterSQL [PText eid] c3 = (Some e, c')"
        using r g m l a by (auto simp: ReplayDeadLetter_def split: option.splits prod.splits)
      then show ?thesis
        using exec_err_idle [OF x c3(1)] c3(2) ids2 by simp
    qed
  qed
qed



text \<open>Dropping a dead letter removes its marker as well: afterwards the database knows nothing of
  the event, so a redelivery of it (a consumer group that is reset, a replayed topic) is a fresh
  event again and not a duplicate.\<close>

theorem dropped_event_is_fresh:
  assumes "DropDeadLetter env eid c = (None, c')" and "tx_view c = None" and "\<not> tx_aborted c"
  shows "applied_events (db c') eid = None \<and> dead_letters (db c') = filter (\<lambda>r. dl_event_id r \<noteq> eid) (dead_letters (db c)) \<and>
    tables (db c') = tables (db c)"
proof -
  obtain c1 where c1: "begin_tx env c = (None, c1)"
    using assms(1) by (auto simp: DropDeadLetter_def split: option.splits prod.splits)
  then have v1: "tx_view c1 = Some (db c)" "\<not> tx_aborted c1"
    using begin_tx_idle [OF c1] assms(2,3) by (simp_all add: idle_def)
  obtain c2 c3 c4 where c2: "exec_err env DeleteDeadLetterSQL [PText eid] c1 = (None, c2)"
      and c3: "exec_err env DeleteMarkerSQL [PText eid] c2 = (None, c3)" and c4: "commit env c3 = (None, c4)" "db c' = db c4"
    using assms(1) c1 by (auto simp: DropDeadLetter_def split: option.splits prod.splits)
  obtain r2 where "exec env DeleteDeadLetterSQL [PText eid] c1 = (Inr r2, c2)"
    using c2 by (auto simp: exec_err_def split: prod.splits sum.splits)
  from exec_cases [OF this] v1 obtain now2 d2 where
      d2: "run_stmt env now2 DeleteDeadLetterSQL [PText eid] (db c) = Inr (r2, d2)" "tx_view c2 = Some d2"
    by (auto simp: view_def)
  obtain r3 where "exec env DeleteMarkerSQL [PText eid] c2 = (Inr r3, c3)"
    using c3 by (auto simp: exec_err_def split: prod.splits sum.splits)
  from exec_cases [OF this] d2(2) obtain now3 d3 where
      d3: "run_stmt env now3 DeleteMarkerSQL [PText eid] d2 = Inr (r3, d3)" "tx_view c3 = Some d3"
    by (auto simp: view_def)
  have "db c' = d3"
    using commit_idle [OF c4(1) d3(2)] c4(2) by simp
  with delete_letter [OF d2(1)] delete_marker [OF d3(1)] show ?thesis by simp
qed

theorem dropped_event_is_fresh_witness:
  "applied_events (db (snd (DropDeadLetter sample_env ''e4'' (sample_conn after_letter)))) ''e4'' = None"
proof -
  let ?r = "DropDeadLetter sample_env ''e4'' (sample_conn after_letter)"
  have "fst ?r = None"
    by code_simp
  then have "?r = (None, snd ?r)"
    by (metis prod.collapse)
  from dropped_event_is_fresh [OF this sample_conn_idle(1,2)] show ?thesis
    by simp
qed

end
