(* ===== verification/Snapshot_Properties.thy ===== *)
theory Snapshot_Properties
  imports Destination_Samples
begin

text \<open>
  The initial snapshot: it is all or nothing, the done flag is set last, its rows are inserts at
  the consistent point, and table names in mixed case defeat it.
\<close>

section \<open>One row\<close>

text \<open>The insert event a snapshot row stands for.\<close>

definition snapshot_event :: "string \<Rightarrow> string \<Rightarrow> row \<Rightarrow> row \<Rightarrow> string \<Rightarrow> int \<Rightarrow> event" where
  "snapshot_event schema table after key l t =
     \<lparr>Version = EventVersion, ID = ''snapshot'', Schema = schema, Table = table, Operation = OperationInsert, Key = key,
      Before = [], After = after,
      Source = \<lparr>TransactionID = 0, CommitLSN = l, TransactionEndLSN = [], CommitTime = t, Sequence = 0, TransactionEventCount = 0\<rparr>,
      UnchangedColumns = []\<rparr>"

lemma snapshot_event_simps [simp]:
  "Schema (snapshot_event s tbl a k l t) = s" "Table (snapshot_event s tbl a k l t) = tbl"
  "Operation (snapshot_event s tbl a k l t) = OperationInsert" "Key (snapshot_event s tbl a k l t) = k"
  "After (snapshot_event s tbl a k l t) = a" "UnchangedColumns (snapshot_event s tbl a k l t) = []"
  "CommitLSN (Source (snapshot_event s tbl a k l t)) = l" "CommitTime (Source (snapshot_event s tbl a k l t)) = t"
  by (simp_all add: snapshot_event_def)

lemma event_write_plain:
  "UnchangedColumns e = [] \<Longrightarrow> event_write e l = (\<lambda>tbl. run_upsert tbl (row_cols (Key e)) (After e) l (CommitTime (Source e)))"
  by (simp add: fun_eq_iff event_write_def)

lemma UpsertSnapshotRow_gives:
  assumes nf: "no_faults env" and tx: "in_tx c d" and wf: "wf_row after" "wf_row key"
    and lsn: "parse_lsn env l = Some p" and ids: "identPattern schema" "identPattern table"
  shows "gives_ok (UpsertSnapshotRow env schema table after key l t c)
           (map_option snd (event_mutation env (snapshot_event schema table after key l t) d))"
proof -
  let ?e = "snapshot_event schema table after key l t"
  have lsn': "event_lsn env ?e = Some p"
    using lsn by (simp add: event_lsn_def)
  have v: "verifyIdent schema = None" "verifyIdent table = None"
    using ids by (simp_all add: verifyIdent_def)
  have em: "event_mutation env ?e d = (if write_ok_event ?e
      then map_option (Pair True) (change_table d (event_table ?e) (row_cols after)
             (\<lambda>tbl. run_upsert tbl (row_cols key) after p t)) else None)"
    using lsn' event_write_plain [of ?e p] by (simp add: event_mutation_def)
  have wok: "write_ok_event ?e \<longleftrightarrow> row_ok after \<and> row_ok key \<and> key_absent (row_cols after) (row_cols key) = None"
    by (auto simp: write_ok_event_def columns_ok_def key_absent_None row_ok_def)
  obtain x c1 where x: "tableColumns env schema table c = (x, c1)"
    by (cases "tableColumns env schema table c") auto
  note tc = tableColumns_gives [OF nf tx, of ?e, unfolded snapshot_event_simps x fst_conv snd_conv]
  consider "\<not> row_ok after" | "row_ok after" "\<not> row_ok key"
    | "row_ok after" "row_ok key" "key_absent (row_cols after) (row_cols key) \<noteq> None" | "write_ok_event ?e"
    by (metis wok)
  then show ?thesis
  proof cases
    case 4
    then have ok: "row_ok after" "row_ok key" "key_absent (row_cols after) (row_cols key) = None"
        "set (row_cols key) \<subseteq> set (row_cols after)"
      unfolding wok by (auto simp: key_absent_None)
    show ?thesis
    proof (cases x)
      case (Inl err)
      then have "tables d (event_table ?e) = None"
        using tc by simp
      then show ?thesis
        using v ok x Inl transcode_ok [OF wf(1)] transcode_ok [OF wf(2)]
        by (simp add: UpsertSnapshotRow_def em gives_ok_def change_table_def on_table_def)
    next
      case (Inr types)
      then have c1: "in_tx c1 d"
        using tc by simp
      let ?s = "UpsertSQL (qualified_name schema table) (row_cols after) (row_cols key) types"
      have s: "map_option snd (stmt_on env ?s (write_params ?e) d) =
          change_table d (event_table ?e) (row_cols after) (\<lambda>tbl. run_upsert tbl (row_cols key) after p t)"
        using upsert_stmt [of ?e env p "qualified_name schema table" types d] wf lsn' ok(4) by (simp add: event_table_def)
      have "gives_ok (execWithPoison env ?s (write_params ?e) (''snapshot upsert on '' @ schema @ ''.'' @ table) c1)
          (change_table d (event_table ?e) (row_cols after) (\<lambda>tbl. run_upsert tbl (row_cols key) after p t))"
        unfolding s [symmetric] by (rule execWithPoison_gives [OF nf c1]) simp
      then show ?thesis
        using v ok x Inr 4 transcode_ok [OF wf(1)] transcode_ok [OF wf(2)]
        by (simp add: UpsertSnapshotRow_def em write_params_def option.map_comp comp_def option.map_ident)
    qed
  qed (use v wok transcode_ok [OF wf(1)] transcode_ok [OF wf(2)] transcode_bad [OF wf(1)] transcode_bad [OF wf(2)] in
      \<open>auto simp: UpsertSnapshotRow_def em gives_ok_def\<close>)
qed

text \<open>C20. A snapshot row is an insert event at the consistent point: \<open>UpsertSnapshotRow\<close> succeeds
  exactly when the mutation of that event does, and leaves the same rows; so the position guard
  lets every later live event overwrite it and never the other way round.\<close>

theorem snapshot_row_is_insert:
  assumes "no_faults env" and "tx_view c = Some d" and "\<not> tx_aborted c" and "wf_row after" and "wf_row key"
    and "parse_lsn env l = Some p" and "identPattern schema" and "identPattern table"
  shows "case event_mutation env (snapshot_event schema table after key l t) d of
           None \<Rightarrow> fst (UpsertSnapshotRow env schema table after key l t c) \<noteq> None
         | Some (b, d') \<Rightarrow> fst (UpsertSnapshotRow env schema table after key l t c) = None \<and>
             tx_view (snd (UpsertSnapshotRow env schema table after key l t c)) = Some d'"
proof -
  have "in_tx c d"
    using assms(2,3) by (simp add: in_tx_def)
  from UpsertSnapshotRow_gives [OF assms(1) this assms(4-8), of t] show ?thesis
    by (auto simp: gives_ok_def in_tx_def split: option.splits)
qed

theorem snapshot_row_is_insert_witness:
  "fst (UpsertSnapshotRow sample_env ''public'' ''users'' [(''id'', Some ''1'')] [(''id'', Some ''1'')] ''16'' 0 (sample_tx sample_db)) = None"
proof -
  have "event_mutation sample_env (snapshot_event ''public'' ''users'' [(''id'', Some ''1'')] [(''id'', Some ''1'')] ''16'' 0) sample_db \<noteq> None"
    by code_simp
  moreover have "parse_lsn sample_env ''16'' = Some (LSN 16)" "wf_row [(''id'', Some ''1'')]" "identPattern ''public''" "identPattern ''users''"
    by code_simp+
  ultimately show ?thesis
    using snapshot_row_is_insert [OF sample_env_ok(1) in_sample_tx(1,2), of "[(''id'', Some ''1'')]" "[(''id'', Some ''1'')]" "''16''" "LSN 16"
        "''public''" "''users''" 0 sample_db]
    by (auto split: option.splits)
qed

section \<open>The whole copy\<close>

lemma runs_copy_rows:
  "copy_rows env schema table cols pk l t rows n c' = (r, n', c'') \<Longrightarrow> apply_runs env c c' \<Longrightarrow> apply_runs env c c''"
proof (induction rows arbitrary: n c')
  case (Cons row rows)
  then show ?case
    by (cases row) (auto simp: Let_def split: option.splits prod.splits dest: runs_UpsertSnapshotRow)
qed simp

lemma runs_listTableColumns: "listTableColumns env q c' = (r, c'') \<Longrightarrow> apply_runs env c c' \<Longrightarrow> apply_runs env c c''"
  by (auto simp: listTableColumns_def dest: runs_exec_eq split: prod.splits sum.splits)

lemma runs_destinationPrimaryKey: "destinationPrimaryKey env q c' = (r, c'') \<Longrightarrow> apply_runs env c c' \<Longrightarrow> apply_runs env c c''"
  by (auto simp: destinationPrimaryKey_def Let_def dest: runs_exec_eq split: prod.splits sum.splits if_splits)

lemma runs_copyTable:
  assumes "copyTable env src schema table pk l t c' = (r, n, c'')" and "apply_runs env c c'"
  shows "apply_runs env c c''"
proof -
  obtain x c1 where x: "listTableColumns env (schema @ ''.'' @ table) c' = (x, c1)"
    by (cases "listTableColumns env (schema @ ''.'' @ table) c'") auto
  note c1 = runs_listTableColumns [OF x assms(2)]
  show ?thesis
    using assms(1) x c1
    by (auto simp: copyTable_def Let_def split: sum.splits option.splits prod.splits dest: runs_copy_rows [OF _ c1])
qed

lemma runs_copy_tables:
  "copy_tables env src l t tabs n c' = (r, n', c'') \<Longrightarrow> apply_runs env c c' \<Longrightarrow> apply_runs env c c''"
proof (induction tabs arbitrary: n c')
  case (Cons a tabs)
  obtain schema table where a: "a = (schema, table)"
    by (cases a) auto
  obtain x c1 where x: "destinationPrimaryKey env (schema @ ''.'' @ table) c' = (x, c1)"
    by (cases "destinationPrimaryKey env (schema @ ''.'' @ table) c'") auto
  note c1 = runs_destinationPrimaryKey [OF x Cons.prems(2)]
  show ?case
    using Cons.prems(1) x c1 by (auto simp: a split: sum.splits option.splits prod.splits dest: runs_copyTable Cons.IH)
qed simp

text \<open>The part of \<open>RunSnapshot\<close> that touches the destination.\<close>

definition snapshot_tx ::
  "dest_env \<Rightarrow> snapshot_source \<Rightarrow> string \<Rightarrow> int \<Rightarrow> (string \<times> string) list \<Rightarrow> conn \<Rightarrow> goerr option \<times> conn" where
  "snapshot_tx env src l t published c =
     (case begin_tx env c of
        (Some e, c1) \<Rightarrow> (Some (Wrapf ''begin destination snapshot transaction: %w'' [] e), c1)
      | (None, c1) \<Rightarrow>
     (case copy_tables env src l t published 0 c1 of
        (Some e, _, c2) \<Rightarrow> (Some e, snd (rollback env c2))
      | (None, loaded, c2) \<Rightarrow>
     (case commit env c2 of
        (Some e, c3) \<Rightarrow> (Some (Wrapf ''commit destination snapshot transaction: %w'' [] e), snd (rollback env c3))
      | (None, c3) \<Rightarrow>
          (case ss_commit src of
             Some e \<Rightarrow> (Some (Wrapf ''commit source snapshot transaction: %w'' [] e), snd (rollback env c3))
           | None \<Rightarrow> (None, snd (rollback env c3))))))"

lemma RunSnapshot_cases:
  assumes "RunSnapshot env src s c = (r, c')"
  shows "(\<exists>e. r = Some e) \<and> c' = c \<or> (\<exists>l t published. snapshot_tx env src l t published c = (r, c'))"
proof (cases "\<exists>l published t. ss_connect src = None \<and> ss_restart_lsn src = Inr l \<and> publishedTables src s = Inr published \<and>
    published \<noteq> [] \<and> ss_begin src = None \<and> ss_now src = Inr t")
  case True
  then obtain l published t where "ss_connect src = None" "ss_restart_lsn src = Inr l" "publishedTables src s = Inr published"
      "published \<noteq> []" "ss_begin src = None" "ss_now src = Inr t"
    by blast
  then have "RunSnapshot env src s c = snapshot_tx env src l t published c"
    by (simp add: RunSnapshot_def snapshot_tx_def)
  with assms show ?thesis
    by metis
next
  case False
  then show ?thesis
    using assms
    by (cases "ss_connect src"; cases "ss_restart_lsn src"; cases "publishedTables src s"; cases "ss_begin src"; cases "ss_now src")
       (auto simp: RunSnapshot_def split: if_splits)
qed

lemma snapshot_tx_outcome:
  assumes "snapshot_tx env src l t published c = (r, c')" and "idle c"
  shows "idle c' \<and> cdc_state (db c') = cdc_state (db c) \<and>
    (r \<noteq> None \<longrightarrow> commits_clean env \<longrightarrow> ss_commit src = None \<longrightarrow> db c' = db c)"
proof -
  obtain b c1 where b: "begin_tx env c = (b, c1)"
    by (cases "begin_tx env c") auto
  note b1 = begin_tx_idle [OF b assms(2)]
  show ?thesis
  proof (cases b)
    case (Some e)
    then show ?thesis using b1 assms(1) b by (auto simp: snapshot_tx_def)
  next
    case None
    have c1: "tx_view c1 = Some (db c)" "db c1 = db c"
      using b1 None by simp_all
    obtain x n c2 where x: "copy_tables env src l t published 0 c1 = (x, n, c2)"
      by (cases "copy_tables env src l t published 0 c1") auto
    note run = runs_copy_tables [OF x runs_refl]
    obtain d where d: "tx_view c2 = Some d" "db c2 = db c"
      using runs_tx_runs [OF run] c1 by (auto simp: tx_runs_def)
    have st: "cdc_state d = cdc_state (db c)"
      using runs_applies_keeps [OF run] d c1 by (simp add: view_def)
    obtain e c3 where e: "commit env c2 = (e, c3)"
      by (cases "commit env c2") auto
    note ce = commit_idle [OF e d(1)]
    have eq: "snapshot_tx env src l t published c =
        (case x of Some err \<Rightarrow> (Some err, snd (rollback env c2))
         | None \<Rightarrow> (case e of Some err \<Rightarrow> (Some (Wrapf ''commit destination snapshot transaction: %w'' [] err), snd (rollback env c3))
            | None \<Rightarrow> (case ss_commit src of
                 Some err \<Rightarrow> (Some (Wrapf ''commit source snapshot transaction: %w'' [] err), snd (rollback env c3))
               | None \<Rightarrow> (None, snd (rollback env c3)))))"
      by (cases x) (simp_all add: snapshot_tx_def b None x e)
    have rb: "idle (snd (rollback env c2))" "snd (rollback env c3) = c3"
      using d ce by simp_all
    show ?thesis
    proof (cases x)
      case (Some err)
      then show ?thesis using eq assms(1) rb d by simp
    next
      case xNone: None
      then show ?thesis
        using eq assms(1) rb ce st d by (cases e; cases "ss_commit src") auto
    qed
  qed
qed

lemma RunSnapshot_outcome:
  assumes "RunSnapshot env src s c = (r, c')" and "idle c"
  shows "idle c' \<and> cdc_state (db c') = cdc_state (db c) \<and>
    (r \<noteq> None \<longrightarrow> commits_clean env \<longrightarrow> ss_commit src = None \<longrightarrow> db c' = db c)"
  using RunSnapshot_cases [OF assms(1)] snapshot_tx_outcome [OF _ assms(2)] assms(2) by blast


definition sample_snapshot :: "string \<Rightarrow> snapshot_source" where
  "sample_snapshot table = \<lparr>ss_connect = None, ss_slot_exists = Inr True, ss_slot_ready = (\<lambda>_. Inr (Some ''8'')), ss_wait = (\<lambda>_. None),
     ss_restart_lsn = Inr ''8'', ss_tables = Inr [(''public'', table)], ss_begin = None, ss_now = Inr 0,
     ss_present = (\<lambda>_ cols. Inr cols),
     ss_rows = (\<lambda>_ _. Inr ([Inr [TextValue ''1'', TextValue ''Ann''], Inr [NilValue, TextValue ''Bob'']], None)), ss_commit = None\<rparr>"

definition sample_snapshotter :: snapshotter where
  "sample_snapshotter = \<lparr>snap_slot = ''slot'', snap_publication = ''pub''\<rparr>"


text \<open>The statements that read and set the flag.\<close>

lemma Completed_outcome:
  assumes "Completed env c = (x, c')" and "idle c"
  shows "idle c' \<and> db c' = db c \<and> (\<forall>b. x = Inr b \<longrightarrow> b \<longrightarrow> cdc_state (db c) snapshotStateKey \<noteq> None)"
proof -
  obtain y c3 where y: "exec env StateSelectSQL [PText snapshotStateKey] c = (y, c3)"
    by (cases "exec env StateSelectSQL [PText snapshotStateKey] c") auto
  have c': "c' = c3"
    using assms(1) y by (auto simp: Completed_def query_row_def split: prod.splits sum.splits sql_result.splits list.splits if_splits)
  consider err where "y = Inl err" "idle c3" "db c3 = db c"
    | v where "y = Inr (TextRows (case cdc_state (db c) snapshotStateKey of None \<Rightarrow> [] | Some v \<Rightarrow> [[Some v]]))" "idle c3" "db c3 = db c"
    using exec_cases [OF y] assms(2) by (auto simp: idle_def view_def nth_param_def text_param_def split: option.splits)
  then show ?thesis
    using assms(1) y c'
    by cases (auto simp: Completed_def query_row_def split: option.splits if_splits)
qed

lemma VerifyNotCorrupt_keeps: "VerifyNotCorrupt env src s c = (x, c') \<Longrightarrow> idle c \<Longrightarrow> db c' = db c"
  using Completed_outcome by (auto simp: VerifyNotCorrupt_def split: prod.splits sum.splits bool.splits option.splits)

lemma MarkCompleted_outcome:
  assumes "MarkCompleted env c = (r, c')" and "idle c"
  shows "idle c' \<and> (r = None \<longrightarrow> cdc_state (db c') snapshotStateKey = Some ''done'')"
proof -
  obtain z c3 where z: "exec_err env StateUpsertSQL [PText snapshotStateKey] c = (z, c3)"
    by (cases "exec_err env StateUpsertSQL [PText snapshotStateKey] c") auto
  obtain q where q: "exec env StateUpsertSQL [PText snapshotStateKey] c = (q, c3)" "z = None \<longleftrightarrow> (\<exists>res. q = Inr res)"
    using z by (auto simp: exec_err_def split: prod.splits sum.splits)
  have "idle c3" "z = None \<Longrightarrow> cdc_state (db c3) snapshotStateKey = Some ''done''"
    using exec_cases [OF q(1)] q(2) assms(2) by (auto simp: idle_def view_def nth_param_def text_param_def split: option.splits)
  with assms(1) z show ?thesis
    by (auto simp: MarkCompleted_def split: option.splits)
qed

text \<open>C19. The done flag is set last: a boot on a destination without the flag succeeds only with the flag
  set, and the flag appears only after a snapshot that succeeded as a whole.\<close>

theorem boot_flags_after_copy:
  assumes "bootSnapshot env src s polls c = (r, c')" and "tx_view c = None" and "\<not> tx_aborted c"
    and "cdc_state (db c) snapshotStateKey = None"
  shows "(r = None \<longrightarrow> cdc_state (db c') snapshotStateKey \<noteq> None) \<and>
    (cdc_state (db c') snapshotStateKey \<noteq> None \<longrightarrow>
       (\<exists>c1 c2. db c1 = db c \<and> tx_view c1 = None \<and> RunSnapshot env src s c1 = (None, c2)))"
proof -
  obtain x c1 where x: "Completed env c = (x, c1)"
    by (cases "Completed env c") auto
  have s1: "idle c1" "db c1 = db c" "x \<noteq> Inr True"
    using Completed_outcome [OF x] assms(2-4) by (auto simp: idle_def)
  show ?thesis
  proof (cases "x = Inr False \<and> WaitForSlot src s polls = None")
    case False
    then show ?thesis
      using assms(1,4) x s1 by (auto simp: bootSnapshot_def split: sum.splits bool.splits option.splits dest: sym)
  next
    case True
    obtain y c2 where y: "RunSnapshot env src s c1 = (y, c2)"
      by (cases "RunSnapshot env src s c1") auto
    have s2: "idle c2" "cdc_state (db c2) snapshotStateKey = None"
      using RunSnapshot_outcome [OF y] s1 assms(4) by simp_all
    obtain z c3 where z: "MarkCompleted env c2 = (z, c3)"
      by (cases "MarkCompleted env c2") auto
    note c3 = MarkCompleted_outcome [OF z s2(1)]
    show ?thesis
    proof (cases y)
      case (Some e)
      then show ?thesis
        using assms(1) x True y s2 by (auto simp: bootSnapshot_def)
    next
      case None
      then have "db c' = db c3 \<and> (z \<noteq> None \<longrightarrow> r \<noteq> None)"
        using assms(1) x True y z VerifyNotCorrupt_keeps c3 by (auto simp: bootSnapshot_def split: option.splits)
      moreover have "\<exists>c1 c2. db c1 = db c \<and> tx_view c1 = None \<and> RunSnapshot env src s c1 = (None, c2)"
        using y None s1 by (auto simp: idle_def)
      ultimately show ?thesis
        using c3 by auto
    qed
  qed
qed

definition one_row :: snapshot_source where
  "one_row = (sample_snapshot ''users'')\<lparr>ss_rows := (\<lambda>_ _. Inr ([Inr [TextValue ''1'', TextValue ''Ann'']], None))\<rparr>"

theorem boot_flags_after_copy_witness:
  "cdc_state (db (snd (bootSnapshot sample_env one_row sample_snapshotter 30 (sample_conn sample_db)))) snapshotStateKey \<noteq> None"
proof -
  let ?r = "bootSnapshot sample_env one_row sample_snapshotter 30 (sample_conn sample_db)"
  have "fst ?r = None"
    by code_simp
  then have "?r = (None, snd ?r)"
    by (metis prod.collapse)
  from boot_flags_after_copy [OF this] show ?thesis
    by (simp add: sample_conn_def sample_db_def)
qed

section \<open>Names in mixed case\<close>

lemma regclass_unquoted:
  assumes "identPattern s" and "identPattern t"
  shows "regclass (s @ CHR ''.'' # t) = qualified_name (map to_lower s) (map to_lower t)"
proof -
  have plain: "c \<noteq> CHR ''.'' \<and> c \<noteq> dquote" if "identPattern x" "c \<in> set x" for x c
    using identPattern_chars [OF that] by (auto simp: ident_char_def ident_start_def dquote_def Let_def)
  obtain a s' where s: "s = a # s'"
    using assms(1) by (cases s) auto
  obtain b t' where t: "t = b # t'"
    using assms(2) by (cases t) auto
  have "takeWhile ((\<noteq>) CHR ''.'') (s @ CHR ''.'' # t) = s" "dropWhile ((\<noteq>) CHR ''.'') (s @ CHR ''.'' # t) = CHR ''.'' # t"
    using plain [OF assms(1)] by (auto simp: takeWhile_append dropWhile_append)
  then have r1: "read_ident (s @ CHR ''.'' # t) = (map to_lower s, CHR ''.'' # t)"
    using plain [OF assms(1), of a] by (auto simp: read_ident_def s)
  have "takeWhile ((\<noteq>) CHR ''.'') t = t"
    using plain [OF assms(2)] by (simp add: takeWhile_eq_all_conv) metis
  then have "fst (read_ident t) = map to_lower t"
    using plain [OF assms(2), of b] by (auto simp: read_ident_def t)
  with r1 show ?thesis
    by (simp add: regclass_def)
qed

text \<open>The snapshot spells table names without quotes when it asks for the primary key, so PostgreSQL
  folds them to lower case: unless a table with the folded name exists, the snapshot of a table
  fails, although the live path, which quotes, would accept its events.\<close>

theorem snapshot_folds_names:
  assumes "no_faults env" and "tx_view c = Some d" and "\<not> tx_aborted c" and "identPattern schema" and "identPattern table"
    and "tables d (qualified_name (map to_lower schema) (map to_lower table)) = None"
  shows "\<exists>err. fst (destinationPrimaryKey env (schema @ ''.'' @ table) c) = Inl err"
proof -
  have "fst (exec env PrimaryKeySQL [PText (schema @ CHR ''.'' # table)] c) = Inl (PgError ''42P01'')"
    using assms(1-3,6) regclass_unquoted [OF assms(4,5)]
    by (simp add: exec_def no_faults_def view_def has_meta_def nth_param_def text_param_def fail_stmt_def)
  then show ?thesis
    by (cases "exec env PrimaryKeySQL [PText (schema @ CHR ''.'' # table)] c") (simp add: destinationPrimaryKey_def)
qed

definition mixed_db :: database where
  "mixed_db = sample_db\<lparr>tables := [qualified_name ''public'' ''Users'' \<mapsto> users_table]\<rparr>"

theorem snapshot_folds_names_witness:
  "(\<exists>err. fst (destinationPrimaryKey sample_env ''public.Users'' (sample_tx mixed_db)) = Inl err) \<and>
   fst (ApplyInTx sample_env (add_ann\<lparr>Table := ''Users''\<rparr>) (sample_tx mixed_db)) = Inr True"
proof -
  have "tables mixed_db (qualified_name (map to_lower ''public'') (map to_lower ''Users'')) = None" "identPattern ''public''" "identPattern ''Users''"
      "fst (ApplyInTx sample_env (add_ann\<lparr>Table := ''Users''\<rparr>) (sample_tx mixed_db)) = Inr True"
    by code_simp+
  with snapshot_folds_names [OF sample_env_ok(1) in_sample_tx(1,2), of "''public''" "''Users''" mixed_db] show ?thesis
    by simp
qed

end
