(* ===== verification/Writer_Wedge.thy ===== *)
theory Writer_Wedge
  imports Writer_Correct
begin

text \<open>
  A transaction that breaks off in the Kafka log: the record after its first event does not
  continue it. The writer refuses that record each time it comes to it, so the committed offset
  never passes the first event.
\<close>

text \<open>A group that has taken events expects a later one.\<close>

definition wedge_inv :: "event \<Rightarrow> nat \<Rightarrow> writer \<times> nat \<Rightarrow> bool" where
  "wedge_inv e1 p s \<longleftrightarrow>
     (case s of (w, pos) \<Rightarrow> pos \<le> Suc p \<and> committed_pos w \<le> p \<and>
        (\<forall>g. w_group w = Some g \<longrightarrow> 2 \<le> g_nextSeq g) \<and>
        (pos = Suc p \<longrightarrow> (\<exists>g. w_group w = Some g \<and> g_txid g = TransactionID (Source e1) \<and> g_nextSeq g = 2)))"

lemma handleEvent_offset:
  assumes "handleEvent env ctx_err (log ! pos) event w = (r, w')" and "writer_inv env log (w, pos)"
    and "log_event env log pos event" and "log_offsets log"
  shows "(\<exists>e w1. open_group env (log ! pos) event w = (Inl e, w1) \<and> r = Some e \<and> committed_pos w' = committed_pos w) \<or>
    (\<exists>g w1. open_group env (log ! pos) event w = (Inr g, w1) \<and>
       (if group_complete (buffer_event (log ! pos) event g)
        then committed_pos w' \<in> {committed_pos w, Suc pos} \<and> (r = None \<longrightarrow> w_group w' = None)
        else r = None \<and> committed_pos w' = committed_pos w \<and> w_group w' = Some (buffer_event (log ! pos) event g)))"
proof -
  obtain x w1 where x: "open_group env (log ! pos) event w = (x, w1)"
    by (cases "open_group env (log ! pos) event w") auto
  note o = open_group_outcome [OF x assms(2)]
  have cp: "committed_pos w1 = committed_pos w"
    using o by (simp add: committed_pos_def)
  show ?thesis
  proof (cases x)
    case (Inl e)
    then show ?thesis
      using assms(1) x cp by (auto simp: handleEvent_def)
  next
    case (Inr g)
    let ?g = "buffer_event (log ! pos) event g"
    let ?w2 = "event_metrics env event ?g w1"
    have last: "g_lastRecord ?g = Some (log ! pos)" "rec_offset (log ! pos) = int pos" "g_tx ?g" "group_tx ?w2"
      using o Inr assms(3,4) by (auto simp: buffer_event_def log_event_def log_offsets_def group_of_log_def group_tx_def)
    show ?thesis
    proof (cases "group_complete ?g")
      case False
      then show ?thesis
        using assms(1) x Inr cp by (auto simp: handleEvent_def Let_def committed_pos_def)
    next
      case True
      obtain y w3 where y: "closeGroup env ctx_err ?g ?w2 = (y, w3)"
        by (cases "closeGroup env ctx_err ?g ?w2") auto
      have "w_committed w' = w_committed w3" "r = None \<longrightarrow> w_group w' = None"
        using assms(1) x Inr True y by (auto simp: handleEvent_def Let_def split: option.splits)
      with closeGroup_outcome [OF y last(4,3,1)] last(2) cp have "committed_pos w' \<in> {committed_pos w, Suc pos}"
        by (auto simp: committed_pos_def nat_add_distrib)
      with x Inr True \<open>r = None \<longrightarrow> w_group w' = None\<close> show ?thesis
        by simp
    qed
  qed
qed

text \<open>What \<open>open_group\<close> answers in the states of \<open>wedge_inv\<close>.\<close>

lemma open_group_first:
  assumes "open_group env krec event w = (Inr g, w1)" and "\<forall>g. w_group w = Some g \<longrightarrow> 2 \<le> g_nextSeq g"
  shows "2 \<le> g_nextSeq (buffer_event krec event g)"
    and "Sequence (Source event) = 1 \<Longrightarrow> w_group w = None \<and> g_nextSeq (buffer_event krec event g) = 2 \<and>
           g_txid (buffer_event krec event g) = TransactionID (Source event) \<and>
           g_count (buffer_event krec event g) = TransactionEventCount (Source event)"
  using assms by (auto simp: open_group_def buffer_event_def split: option.splits prod.splits if_splits)

text \<open>The log breaks off at \<open>p\<close>: there an event opens a transaction of several, and the next record does not go on with it.\<close>

definition breaks_off :: "writer_env \<Rightarrow> kafka_record list \<Rightarrow> nat \<Rightarrow> event \<Rightarrow> event \<Rightarrow> bool" where
  "breaks_off env log p e1 e2 \<longleftrightarrow> log_offsets log \<and>
     log_event env log p e1 \<and> Sequence (Source e1) = 1 \<and> TransactionEventCount (Source e1) \<noteq> 1 \<and>
     log_event env log (Suc p) e2 \<and>
     (TransactionID (Source e2) \<noteq> TransactionID (Source e1) \<or> Sequence (Source e2) \<noteq> 2)"

lemma wedge_restart: "committed_pos w \<le> p \<Longrightarrow> wedge_inv e1 p (restarted w)"
  by (simp add: wedge_inv_def restarted_def committed_pos_def)

lemma decode_unique: "log_event env log i a \<Longrightarrow> log_event env log i b \<Longrightarrow> a = b"
  by (simp add: log_event_def)

lemma wedge_event:
  assumes broken: "breaks_off env log p e1 e2" and "wedge_inv e1 p (w, pos)" and "writer_inv env log (w, pos)" and "log_event env log pos event"
    and "handleEvent env ctx_err (log ! pos) event w = (r, w')"
  shows "committed_pos w' \<le> p \<and> (r = None \<longrightarrow> wedge_inv e1 p (w', Suc pos))"
proof -
  have offsets_ok: "log_offsets log"
    and first: "log_event env log p e1" "Sequence (Source e1) = 1" "TransactionEventCount (Source e1) \<noteq> 1"
    and no_second: "log_event env log (Suc p) e2"
      "TransactionID (Source e2) \<noteq> TransactionID (Source e1) \<or> Sequence (Source e2) \<noteq> 2"
    using broken by (auto simp: breaks_off_def)
  have older: "\<forall>g. w_group w = Some g \<longrightarrow> 2 \<le> g_nextSeq g"
    using assms(2) by (simp add: wedge_inv_def)
  from handleEvent_offset [OF assms(5,3,4) offsets_ok] show ?thesis
  proof (elim disjE exE conjE)
    fix e w1
    assume "r = Some e" "committed_pos w' = committed_pos w"
    with assms(2) show ?thesis
      by (simp add: wedge_inv_def)
  next
    fix g w1
    assume g: "open_group env (log ! pos) event w = (Inr g, w1)"
      and out: "if group_complete (buffer_event (log ! pos) event g)
        then committed_pos w' \<in> {committed_pos w, Suc pos} \<and> (r = None \<longrightarrow> w_group w' = None)
        else r = None \<and> committed_pos w' = committed_pos w \<and> w_group w' = Some (buffer_event (log ! pos) event g)"
    consider "pos < p" | "pos = p" | "pos = Suc p"
      using assms(2) unfolding wedge_inv_def by fastforce
    then show ?thesis
    proof cases
      case 1
      then show ?thesis
        using assms(2) out open_group_first(1) [OF g older] by (auto simp: wedge_inv_def split: if_splits)
    next
      case 2
      then have "event = e1"
        using decode_unique assms(4) first(1) by blast
      with open_group_first(2) [OF g older] first(2) have b: "g_nextSeq (buffer_event (log ! pos) event g) = 2"
          "g_txid (buffer_event (log ! pos) event g) = TransactionID (Source e1)"
          "g_count (buffer_event (log ! pos) event g) = TransactionEventCount (Source e1)"
        by auto
      then have "\<not> group_complete (buffer_event (log ! pos) event g)"
        using first(3) by (simp add: group_complete_def)
      with out b 2 assms(2) show ?thesis
        by (auto simp: wedge_inv_def)
    next
      case 3
      then have "event = e2"
        using decode_unique assms(4) no_second(1) by blast
      moreover obtain g0 where "w_group w = Some g0" "g_txid g0 = TransactionID (Source e1)" "g_nextSeq g0 = 2"
        using assms(2) 3 by (auto simp: wedge_inv_def)
      ultimately have False
        using g no_second(2) by (auto simp: open_group_def split: if_splits)
      then show ?thesis ..
    qed
  qed
qed

lemma wedge_step:
  assumes broken: "breaks_off env log p e1 e2" and "writer_step env ctx_err log s t" and "wedge_inv e1 p s" and "writer_inv env log s" and "open_groups_incomplete (fst s)"
  shows "wedge_inv e1 p t"
  using assms(2)
proof cases
  case (step_event pos event w w')
  then show ?thesis
    using wedge_event [OF broken] assms(3,4) by blast
next
  case (step_error pos event w err w')
  then show ?thesis
    using wedge_event [OF broken] assms(3,4) wedge_restart by blast
next
  case (step_crash w pos)
  then show ?thesis
    using assms(3) wedge_restart by (simp add: wedge_inv_def)
next
  case (step_crash_between pos event w g w1 w2)
  note x = step_crash_between(4) and inv = assms(4) [unfolded step_crash_between(1)]
  have "w_committed w2 = w_committed w"
    using crash_between_work [OF inv x step_crash_between(6)] open_group_outcome [OF x inv] by (simp add: destination_work_def)
  then show ?thesis
    using step_crash_between(1,2) assms(3) wedge_restart by (simp add: wedge_inv_def committed_pos_def)
next
  case (step_shutdown group_ctx w r w' pos)
  then have "committed_pos w' = committed_pos w"
    using shutdown_discards [OF step_shutdown(3)] assms(5) by (simp add: committed_pos_def)
  then show ?thesis
    using step_shutdown(1,2) assms(3) wedge_restart by (simp add: wedge_inv_def)
qed

lemma wedge_reachable:
  assumes broken: "breaks_off env log p e1 e2" and "new_writer s" and "(writer_step env ctx_err log)\<^sup>*\<^sup>* s t"
  shows "wedge_inv e1 p t"
  using assms(3)
proof (induction rule: rtranclp_induct)
  case base
  then show ?case
    using assms(2) by (cases s) (auto simp: wedge_inv_def new_writer_def committed_pos_def)
next
  case (step t u)
  have "writer_inv env log t \<and> open_groups_incomplete (fst t)"
    using offsets.reachable_inv [OF assms(2) step.hyps(1)] broken unfolding breaks_off_def by blast
  with wedge_step [OF broken step.hyps(2) step.IH] show ?case by blast
qed

end
