(* ===== verification/Reader.thy ===== *)
theory Reader
  imports Decoder Retry Metrics
begin

text \<open>
  \<open>cmd/source-reader/main.go\<close>, the running reader: the state of the struct \<open>reader\<close>, the
  publication results, feedback to PostgreSQL, reconnects, one iteration of the stream loop, one
  turn of the loops that hand events to the publisher, and the publisher's work on one item. The
  two goroutines meet in \<open>Pipeline\<close>.
\<close>

section \<open>Constants\<close>

definition second :: int where
  "second = 1000 * millisecond"

definition standbyStatusInterval :: int where
  "standbyStatusInterval = 10 * second"

definition walStallWarnInterval :: int where
  "walStallWarnInterval = 60 * second"

section \<open>State\<close>

record publicationResult =
  pr_transaction :: committed_transaction
  pr_err :: "goerr option"

text \<open>Of the two pointers of \<open>publishWork\<close> the reader always sets exactly one.\<close>

datatype publishWork = EventWork event | TxWork committed_transaction

record readerMetrics =
  eventsPublished :: "64 word"
  transactionsAcked :: "64 word"
  publishFailures :: "64 word"
  replicationRejoins :: "64 word"

text \<open>
  \<open>rd_connection\<close> is the replication connection: the messages its server will send, or
  \<^term>\<open>None\<close> once it is closed. \<open>rd_slot\<close> is not a field of the struct: it is the position
  PostgreSQL holds for the slot, which only \<open>sendStandby\<close> moves. \<open>rd_tick\<close> counts the calls to
  services.
\<close>

record reader =
  rd_connection :: "message list option"
  rd_decoder :: decoder
  rd_durableLSN :: lsn
  rd_nextStatus :: int
  rd_lastLSNAdvanced :: int
  rd_counts :: readerMetrics
  rd_metrics :: metrics
  rd_slot :: lsn
  rd_tick :: nat

text \<open>
  Services: those of the decoder; the two calls of \<open>dialReplication\<close>, with the messages of a
  stream that starts at a position; a status update and a produce call, which may fail before or
  after they reached the server; \<open>json.Marshal\<close> of an event and \<open>ParseLSN\<close>; the waits and
  random numbers of the retry loops; the clock and the retention budget.
\<close>

record reader_env =
  re_source :: source_env
  re_connect :: "nat \<Rightarrow> goerr option"
  re_start :: "nat \<Rightarrow> goerr option"
  re_stream :: "lsn \<Rightarrow> message list"
  re_standby :: "nat \<Rightarrow> (goerr \<times> bool) option"
  re_produce :: "nat \<Rightarrow> (goerr \<times> bool) option"
  re_marshal :: "event \<Rightarrow> goerr + string"
  re_parse_lsn :: "string \<Rightarrow> lsn option"
  re_wait :: "int \<Rightarrow> int \<Rightarrow> goerr option"
  re_rnd :: "int \<Rightarrow> int"
  re_now :: "nat \<Rightarrow> int"
  re_retention :: int

definition durable :: "reader \<Rightarrow> lsn" where
  "durable r = rd_durableLSN r"

definition advance :: "lsn \<Rightarrow> reader \<Rightarrow> reader" where
  "advance l r = r\<lparr>rd_durableLSN := l\<rparr>"

definition count_reader :: "(readerMetrics \<Rightarrow> readerMetrics) \<Rightarrow> (metrics \<Rightarrow> metrics) \<Rightarrow> reader \<Rightarrow> reader" where
  "count_reader f g r = r\<lparr>rd_counts := f (rd_counts r), rd_metrics := g (rd_metrics r)\<rparr>"

definition now_of :: "reader_env \<Rightarrow> reader \<Rightarrow> int" where
  "now_of env r = re_now env (rd_tick r)"

definition lsn_arg :: "reader_env \<Rightarrow> lsn \<Rightarrow> string" where
  "lsn_arg env l = lsn_string (re_source env) l"

section \<open>Feedback to PostgreSQL\<close>

definition sendStandby :: "reader_env \<Rightarrow> reader \<Rightarrow> goerr option \<times> reader" where
  "sendStandby env r =
     (let r' = r\<lparr>rd_tick := Suc (rd_tick r)\<rparr>;
          failed = (\<lambda>e. Some (Wrapf ''send PostgreSQL standby status at Kafka-durable LSN %s: %w'' [lsn_arg env (durable r)] e))
      in case rd_connection r of
           None \<Rightarrow> (failed (ServiceErr ''conn closed''), r')
         | Some _ \<Rightarrow>
             (case re_standby env (rd_tick r) of
                None \<Rightarrow> (None, r'\<lparr>rd_slot := durable r\<rparr>)
              | Some (e, reached) \<Rightarrow> (failed e, if reached then r'\<lparr>rd_slot := durable r\<rparr> else r')))"

text \<open>\<open>sendStandby\<close>, and when it succeeded the next status update is due an interval later.\<close>

definition send_and_rearm :: "reader_env \<Rightarrow> reader \<Rightarrow> goerr option \<times> reader" where
  "send_and_rearm env r =
     (case sendStandby env r of
        (Some e, r1) \<Rightarrow> (Some e, r1)
      | (None, r1) \<Rightarrow> (None, r1\<lparr>rd_nextStatus := now_of env r1 + standbyStatusInterval\<rparr>))"

definition finalStandby :: "reader_env \<Rightarrow> reader \<Rightarrow> goerr option \<times> reader" where
  "finalStandby env r = (Some Canceled, snd (sendStandby env r))"

section \<open>Publication results\<close>

definition applyPublicationResult :: "reader_env \<Rightarrow> publicationResult \<Rightarrow> reader \<Rightarrow> goerr option \<times> reader" where
  "applyPublicationResult env result r =
     (case pr_err result of
        Some err \<Rightarrow> (Some err, r)
      | None \<Rightarrow>
          if ct_EndLSN (pr_transaction result) < durable r
          then (Some (Errorf (''Kafka publication completed out of source order: transaction end LSN %s ''
                       @ ''is behind durable LSN %s'')
                       [lsn_arg env (ct_EndLSN (pr_transaction result)), lsn_arg env (durable r)]), r)
          else (None, count_reader (\<lambda>c. c\<lparr>transactionsAcked := transactionsAcked c + 1\<rparr>)
                        (\<lambda>m. SetLag (now_of env r - ct_CommitTime (pr_transaction result)) (re_retention env)
                                (m\<lparr>TransactionsAcked := Suc (TransactionsAcked m)\<rparr>))
                        ((advance (ct_EndLSN (pr_transaction result)) r)\<lparr>rd_lastLSNAdvanced := now_of env r\<rparr>)))"

text \<open>The results that are in the channel, oldest first; the answer comes with those that stay in it.\<close>

fun drain_results ::
  "reader_env \<Rightarrow> bool \<Rightarrow> publicationResult list \<Rightarrow> reader \<Rightarrow> (goerr + bool) \<times> publicationResult list \<times> reader" where
  "drain_results env advanced [] r = (Inr advanced, [], r)"
| "drain_results env advanced (result # results) r =
     (case applyPublicationResult env result r of
        (Some err, r1) \<Rightarrow> (Inl err, results, r1)
      | (None, r1) \<Rightarrow> drain_results env True results r1)"

definition drainPublicationResults ::
  "reader_env \<Rightarrow> publicationResult list \<Rightarrow> reader \<Rightarrow> (goerr + bool) \<times> publicationResult list \<times> reader" where
  "drainPublicationResults env results r = drain_results env False results r"

section \<open>Reconnecting\<close>

definition dialReplication :: "reader_env \<Rightarrow> lsn \<Rightarrow> reader \<Rightarrow> (goerr + message list) \<times> reader" where
  "dialReplication env resumeLSN r =
     (let r' = r\<lparr>rd_tick := Suc (rd_tick r)\<rparr> in
      case re_connect env (rd_tick r) of
        Some e \<Rightarrow> (Inl (Wrapf ''connect to PostgreSQL replication protocol: %w'' [] e), r')
      | None \<Rightarrow>
          (case re_start env (rd_tick r) of
             Some e \<Rightarrow> (Inl (Wrapf ''start logical replication: %w'' [] e), r')
           | None \<Rightarrow> (Inr (re_stream env resumeLSN), r')))"

text \<open>The function \<open>reconnect\<close> retries: the old connection is closed first.\<close>

definition redial :: "reader_env \<Rightarrow> reader \<Rightarrow> goerr option \<times> reader" where
  "redial env r =
     (case dialReplication env (durable r) (r\<lparr>rd_connection := None\<rparr>) of
        (Inl e, r1) \<Rightarrow> (Some e, r1)
      | (Inr connection, r1) \<Rightarrow>
          (None, r1\<lparr>rd_connection := Some connection, rd_decoder := Reset (rd_decoder r1),
                   rd_nextStatus := now_of env r1 + standbyStatusInterval\<rparr>))"

definition reconnect :: "reader_env \<Rightarrow> reader \<Rightarrow> goerr option \<times> reader" where
  "reconnect env r =
     retry_Do (re_wait env) (re_rnd env) Default ''reconnect source replication'' (redial env)
       (count_reader (\<lambda>c. c\<lparr>replicationRejoins := replicationRejoins c + 1\<rparr>) (inc_error ''replication'') r)"

text \<open>\<open>ctx_err\<close> is \<open>ctx.Err()\<close> at the time of the call, here and below.\<close>

definition recoverPublication :: "reader_env \<Rightarrow> goerr option \<Rightarrow> reader \<Rightarrow> goerr option \<times> reader" where
  "recoverPublication env ctx_err r =
     (case ctx_err of
        Some e \<Rightarrow> (Some e, r)
      | None \<Rightarrow>
          reconnect env (count_reader (\<lambda>c. c\<lparr>publishFailures := publishFailures c + 1\<rparr>) (inc_error ''kafka'') r))"

text \<open>
  Whether \<open>warnIfWALStalled\<close> logs its warning; \<open>ahead\<close> is the answer to its query. Nothing else
  happens there.
\<close>

definition warnIfWALStalled :: "int \<Rightarrow> reader \<Rightarrow> goerr + int \<Rightarrow> bool" where
  "warnIfWALStalled now r ahead \<longleftrightarrow>
     \<not> (now - rd_lastLSNAdvanced r < walStallWarnInterval) \<and>
     (case ahead of Inl _ \<Rightarrow> False | Inr bytes \<Rightarrow> \<not> (bytes \<le> 64 * 1024 * 1024))"

section \<open>The stream loop\<close>

text \<open>
  What \<open>ReceiveMessage\<close> and the parsers of \<open>pglogrepl\<close> make of the next message: an error,
  with \<open>pgconn.Timeout\<close> of it; something other than copy data, or of another kind; a keepalive
  with its reply flag; WAL data with its start and the logical message.
\<close>

datatype received =
    ReceiveError goerr bool
  | NoCopyData
  | OtherByte
  | PrimaryKeepalive "goerr + bool"
  | XLogData "goerr + lsn \<times> (goerr + message)"

datatype stream_next = NextIteration | Receive | QueueTransaction committed_transaction | Return "goerr option"

text \<open>The stream loop up to the receive call.\<close>

definition stream_top ::
  "reader_env \<Rightarrow> goerr option \<Rightarrow> publicationResult list \<Rightarrow> reader \<Rightarrow> stream_next \<times> publicationResult list \<times> reader" where
  "stream_top env ctx_err results r =
     (case drainPublicationResults env results r of
        (Inl err, rest, r1) \<Rightarrow> (case recoverPublication env ctx_err r1 of (e, r2) \<Rightarrow> (Return e, rest, r2))
      | (Inr advanced, rest, r1) \<Rightarrow>
          if advanced
          then (case send_and_rearm env r1 of
                  (Some e, r2) \<Rightarrow> (Return (Some e), rest, r2)
                | (None, r2) \<Rightarrow> (Receive, rest, r2))
          else (Receive, rest, r1))"

text \<open>Its branch for a receive error.\<close>

definition on_receive_error ::
  "reader_env \<Rightarrow> goerr option \<Rightarrow> bool \<Rightarrow> publicationResult list \<Rightarrow> reader \<Rightarrow> stream_next \<times> publicationResult list \<times> reader" where
  "on_receive_error env ctx_err timeout results r =
     (if ctx_err \<noteq> None then (case finalStandby env r of (e, r1) \<Rightarrow> (Return e, results, r1))
      else if timeout
      then (case drainPublicationResults env results r of
              (Inl err, rest, r1) \<Rightarrow> (case recoverPublication env ctx_err r1 of (e, r2) \<Rightarrow> (Return e, rest, r2))
            | (Inr advanced, rest, r1) \<Rightarrow>
                (case send_and_rearm env r1 of
                   (Some e, r2) \<Rightarrow> (Return (Some e), rest, r2)
                 | (None, r2) \<Rightarrow> (NextIteration, rest, r2)))
      else (case reconnect env r of
              (Some e, r1) \<Rightarrow> (Return (Some e), results, r1)
            | (None, r1) \<Rightarrow> (NextIteration, results, r1)))"

definition on_keepalive ::
  "reader_env \<Rightarrow> goerr option \<Rightarrow> bool \<Rightarrow> publicationResult list \<Rightarrow> reader \<Rightarrow> stream_next \<times> publicationResult list \<times> reader" where
  "on_keepalive env ctx_err reply_requested results r =
     (if \<not> reply_requested then (NextIteration, results, r)
      else (case drainPublicationResults env results r of
              (Inl err, rest, r1) \<Rightarrow> (case recoverPublication env ctx_err r1 of (e, r2) \<Rightarrow> (Return e, rest, r2))
            | (Inr _, rest, r1) \<Rightarrow>
                (case send_and_rearm env r1 of
                   (Some e, r2) \<Rightarrow> (Return (Some e), rest, r2)
                 | (None, r2) \<Rightarrow> (NextIteration, rest, r2))))"

definition on_logical_message :: "reader_env \<Rightarrow> lsn \<Rightarrow> message \<Rightarrow> reader \<Rightarrow> stream_next \<times> reader" where
  "on_logical_message env walStart m r =
     (case Handle (re_source env) (rd_decoder r) m of
        (Inl e, d) \<Rightarrow>
          (Return (Some (Wrapf ''decode pgoutput message at %s: %w'' [lsn_arg env walStart] e)),
           count_reader id (inc_error ''decode'') (r\<lparr>rd_decoder := d\<rparr>))
      | (Inr None, d) \<Rightarrow> (NextIteration, r\<lparr>rd_decoder := d\<rparr>)
      | (Inr (Some tx), d) \<Rightarrow> (QueueTransaction tx, r\<lparr>rd_decoder := d\<rparr>))"

fun on_received ::
  "reader_env \<Rightarrow> goerr option \<Rightarrow> received \<Rightarrow> publicationResult list \<Rightarrow> reader
     \<Rightarrow> stream_next \<times> publicationResult list \<times> reader" where
  "on_received env ctx_err (ReceiveError e timeout) results r = on_receive_error env ctx_err timeout results r"
| "on_received env ctx_err NoCopyData results r = (NextIteration, results, r)"
| "on_received env ctx_err OtherByte results r = (NextIteration, results, r)"
| "on_received env ctx_err (PrimaryKeepalive (Inl e)) results r =
     (Return (Some (Wrapf ''parse primary keepalive: %w'' [] e)), results, r)"
| "on_received env ctx_err (PrimaryKeepalive (Inr reply_requested)) results r = on_keepalive env ctx_err reply_requested results r"
| "on_received env ctx_err (XLogData (Inl e)) results r = (Return (Some (Wrapf ''parse XLogData: %w'' [] e)), results, r)"
| "on_received env ctx_err (XLogData (Inr (walStart, Inl e))) results r =
     (Return (Some (Wrapf ''parse pgoutput message at %s: %w'' [lsn_arg env walStart] e)), results, r)"
| "on_received env ctx_err (XLogData (Inr (walStart, Inr m))) results r =
     (case on_logical_message env walStart m r of (next, r1) \<Rightarrow> (next, results, r1))"

section \<open>Handing events to the publisher\<close>

text \<open>
  The loop of \<open>queueTransactionEvents\<close>: at sequence \<open>n\<close> the next event is pulled and sent, and
  after the last one the descriptor.
\<close>

datatype queue_next = Send publishWork | QueueFailed goerr

definition queueTransactionEvents ::
  "reader_env \<Rightarrow> committed_transaction \<Rightarrow> nat \<Rightarrow> reader \<Rightarrow> queue_next \<times> reader" where
  "queueTransactionEvents env tx n r =
     (if int n \<le> ct_Count tx
      then (case NextEvent (re_source env) (rd_decoder r) of
              (Inl e, d) \<Rightarrow> (QueueFailed e, r\<lparr>rd_decoder := d\<rparr>)
            | (Inr None, d) \<Rightarrow>
                (QueueFailed (Errorf ''transaction %d ended early at sequence %d of %d''
                   [itoa (uint (ct_TransactionID tx)), itoa (int n), itoa (ct_Count tx)]),
                 r\<lparr>rd_decoder := d\<rparr>)
            | (Inr (Some event), d) \<Rightarrow> (Send (EventWork event), r\<lparr>rd_decoder := d\<rparr>))
      else (Send (TxWork tx), r))"

text \<open>One turn of the loop of \<open>sendWork\<close>: the case its \<open>select\<close> takes.\<close>

datatype select_case = WorkTaken | GotResult publicationResult | StatusTimer | CtxDone goerr

datatype send_next = SendReturns "goerr option" | SendAgain

definition sendWork :: "reader_env \<Rightarrow> goerr option \<Rightarrow> select_case \<Rightarrow> reader \<Rightarrow> send_next \<times> reader" where
  "sendWork env ctx_err sel r =
     (case sel of
        WorkTaken \<Rightarrow> (SendReturns None, r)
      | GotResult result \<Rightarrow>
          (case applyPublicationResult env result r of
             (Some err, r1) \<Rightarrow> (case recoverPublication env ctx_err r1 of (e, r2) \<Rightarrow> (SendReturns e, r2))
           | (None, r1) \<Rightarrow>
               (case send_and_rearm env r1 of
                  (Some e, r2) \<Rightarrow> (SendReturns (Some e), r2)
                | (None, r2) \<Rightarrow> (SendAgain, r2)))
      | StatusTimer \<Rightarrow>
          (case send_and_rearm env r of
             (Some e, r1) \<Rightarrow> (SendReturns (Some e), r1)
           | (None, r1) \<Rightarrow> (SendAgain, r1))
      | CtxDone e \<Rightarrow> (SendReturns (Some e), r))"

definition timeUntil :: "int \<Rightarrow> int \<Rightarrow> int" where
  "timeUntil now deadline = (if deadline - now < 0 then 0 else deadline - now)"

section \<open>The publisher\<close>

record kafka_message =
  km_Topic :: string
  km_Key :: string
  km_Value :: string
  km_Headers :: "(string \<times> string) list"

text \<open>The topic's log, and the number of produce calls so far.\<close>

type_synonym kafka_log = "kafka_message list \<times> nat"

definition kafka_record_of :: "string \<Rightarrow> event \<Rightarrow> string \<Rightarrow> kafka_message" where
  "kafka_record_of topic event payload =
     \<lparr>km_Topic = topic, km_Key = KafkaKey event, km_Value = payload,
      km_Headers = [(''event_id'', ID event), (''operation'', op_string (Operation event))]\<rparr>"

definition publishTransactionEvent :: "reader_env \<Rightarrow> string \<Rightarrow> event \<Rightarrow> kafka_log \<Rightarrow> goerr option \<times> kafka_log" where
  "publishTransactionEvent env topic event k =
     (case re_marshal env event of
        Inl e \<Rightarrow> (Some (Wrapf ''marshal event %s: %w'' [ID event] e), k)
      | Inr payload \<Rightarrow>
          (case k of (log, n) \<Rightarrow>
             let log' = log @ [kafka_record_of topic event payload] in
             case re_produce env n of
               None \<Rightarrow> (None, (log', Suc n))
             | Some (e, reached) \<Rightarrow>
                 (Some (Wrapf ''publish event %s to Kafka: %w'' [ID event] e), (if reached then log' else log, Suc n))))"

definition failedTransaction :: "reader_env \<Rightarrow> event \<Rightarrow> committed_transaction" where
  "failedTransaction env event =
     \<lparr>ct_TransactionID = TransactionID (Source event),
      ct_CommitLSN = (case re_parse_lsn env (CommitLSN (Source event)) of None \<Rightarrow> 0 | Some l \<Rightarrow> l),
      ct_EndLSN = (case re_parse_lsn env (TransactionEndLSN (Source event)) of None \<Rightarrow> 0 | Some l \<Rightarrow> l),
      ct_CommitTime = CommitTime (Source event),
      ct_Count = TransactionEventCount (Source event)\<rparr>"

text \<open>
  The publisher goroutine: at its \<open>select\<close>, in the retry loop for an event, blocked on the results
  channel (and leaving afterwards, or not), or gone.
\<close>

datatype publisher = Idle | Publishing event | Replying publicationResult bool | Exited

fun publisher_takes :: "publishWork \<Rightarrow> publisher" where
  "publisher_takes (TxWork tx) = Replying \<lparr>pr_transaction = tx, pr_err = None\<rparr> False"
| "publisher_takes (EventWork event) = Publishing event"

text \<open>Publishing one event; the counters are those the reader shares with the publisher.\<close>

definition publish_event ::
  "reader_env \<Rightarrow> string \<Rightarrow> event \<Rightarrow> kafka_log \<Rightarrow> reader \<Rightarrow> publisher \<times> kafka_log \<times> reader" where
  "publish_event env topic event k r =
     (case retry_Do (re_wait env) (re_rnd env) Default ''publish event to Kafka'' (publishTransactionEvent env topic event) k of
        (Some err, k') \<Rightarrow>
          (Replying \<lparr>pr_transaction = failedTransaction env event, pr_err = Some err\<rparr> True, k',
           count_reader (\<lambda>c. c\<lparr>publishFailures := publishFailures c + 1\<rparr>) (inc_error ''kafka_publish'') r)
      | (None, k') \<Rightarrow>
          (Idle, k',
           count_reader (\<lambda>c. c\<lparr>eventsPublished := eventsPublished c + 1\<rparr>)
             (\<lambda>m. SetLag (now_of env r - CommitTime (Source event)) (re_retention env)
                (let m1 = inc_processed (op_string (Operation event)) m in m1\<lparr>MessagesPublished := Suc (MessagesPublished m1)\<rparr>)) r))"

section \<open>Log lines\<close>

definition tupleColumnCount :: "tuple_data option \<Rightarrow> nat" where
  "tupleColumnCount tuple = (case tuple of None \<Rightarrow> 0 | Some cs \<Rightarrow> length cs)"

definition oldTupleKind :: "char \<Rightarrow> string" where
  "oldTupleKind t = (if t = CHR ''K'' then ''key'' else if t = CHR ''O'' then ''full'' else ''none'')"

text \<open>The wait between the producer's own re-sends.\<close>

definition kafkaProduceBackoff :: "int \<Rightarrow> int \<Rightarrow> int option" where
  "kafkaProduceBackoff attempts rnd = Backoff Default (attempts + 1) rnd"

end
