(* ===== verification/Pipeline.thy ===== *)
theory Pipeline
  imports Reader Change_Queue "HOL-Library.Sublist"
begin

text \<open>
  The two goroutines of the source reader as one state machine: the stream goroutine (its place in
  \<open>stream\<close>, \<open>queueTransactionEvents\<close> and \<open>sendWork\<close>), the publisher, the unbuffered channel
  between them (a rendezvous), the results channel with its one slot, and the Kafka log. Each step
  is one operation of \<open>Reader\<close>; goroutines interleave in any order, contexts end at any time, and
  the process may crash at any time and start again from the slot.
\<close>

section \<open>State\<close>

datatype control =
    AtTop
  | AtReceive
  | Queueing committed_transaction nat
  | Handing publishWork committed_transaction nat
  | Returned "goerr option"

record pipeline =
  pl_reader :: reader
  pl_control :: control
  pl_publisher :: publisher
  pl_results :: "publicationResult list"
  pl_kafka :: kafka_log

text \<open>The reader \<open>run\<close> builds, resumed at \<open>l\<close>.\<close>

definition new_reader :: "reader_env \<Rightarrow> (string \<Rightarrow> string \<Rightarrow> string list) \<Rightarrow> nat \<Rightarrow> lsn \<Rightarrow> reader" where
  "new_reader env resolve n l =
     \<lparr>rd_connection = Some (re_stream env l), rd_decoder = NewDecoderWithIdentity resolve, rd_durableLSN = l,
      rd_nextStatus = re_now env n + standbyStatusInterval, rd_lastLSNAdvanced = re_now env n,
      rd_counts = \<lparr>eventsPublished = 0, transactionsAcked = 0, publishFailures = 0, replicationRejoins = 0\<rparr>,
      rd_metrics = SetReady True initial_metrics, rd_slot = l, rd_tick = n\<rparr>"

definition new_pipeline :: "reader_env \<Rightarrow> (string \<Rightarrow> string \<Rightarrow> string list) \<Rightarrow> lsn \<Rightarrow> pipeline \<Rightarrow> bool" where
  "new_pipeline env resolve l s \<longleftrightarrow>
     s = \<lparr>pl_reader = new_reader env resolve 0 l, pl_control = AtTop, pl_publisher = Idle, pl_results = [], pl_kafka = ([], 0)\<rparr>"

text \<open>After a crash the slot and the log are what they were; the rest is new.\<close>

definition rebooted :: "reader_env \<Rightarrow> (string \<Rightarrow> string \<Rightarrow> string list) \<Rightarrow> pipeline \<Rightarrow> pipeline" where
  "rebooted env resolve s =
     s\<lparr>pl_reader := new_reader env resolve (rd_tick (pl_reader s)) (rd_slot (pl_reader s)), pl_control := AtTop,
       pl_publisher := Idle, pl_results := []\<rparr>"

section \<open>Where the stream goroutine goes\<close>

fun after_stream :: "stream_next \<Rightarrow> control" where
  "after_stream NextIteration = AtTop"
| "after_stream Receive = AtReceive"
| "after_stream (QueueTransaction tx) = Queueing tx 1"
| "after_stream (Return e) = Returned e"

fun after_queue :: "committed_transaction \<Rightarrow> nat \<Rightarrow> queue_next \<Rightarrow> control" where
  "after_queue tx n (Send work) = Handing work tx n"
| "after_queue tx n (QueueFailed e) = Returned (Some e)"

text \<open>
  When \<open>sendWork\<close> returns nil after an event, the loop goes on with the next one; after the
  descriptor the transaction is queued and the stream loop goes on.
\<close>

fun after_send :: "publishWork \<Rightarrow> committed_transaction \<Rightarrow> nat \<Rightarrow> send_next \<Rightarrow> control" where
  "after_send work tx n SendAgain = Handing work tx n"
| "after_send work tx n (SendReturns (Some e)) = Returned (Some e)"
| "after_send (EventWork event) tx n (SendReturns None) = Queueing tx (Suc n)"
| "after_send (TxWork tx') tx n (SendReturns None) = AtTop"

fun logical :: "received \<Rightarrow> bool" where
  "logical (XLogData (Inr (_, Inr _))) \<longleftrightarrow> True"
| "logical _ \<longleftrightarrow> False"

section \<open>Steps\<close>

inductive pipeline_step ::
  "reader_env \<Rightarrow> string \<Rightarrow> (string \<Rightarrow> string \<Rightarrow> string list) \<Rightarrow> pipeline \<Rightarrow> pipeline \<Rightarrow> bool"
  for env topic resolve where
  step_top: "pl_control s = AtTop \<Longrightarrow> stream_top env ctx_err (pl_results s) (pl_reader s) = (nxt, results, r)
    \<Longrightarrow> pipeline_step env topic resolve s (s\<lparr>pl_reader := r, pl_control := after_stream nxt, pl_results := results\<rparr>)"
| step_receive: "pl_control s = AtReceive \<Longrightarrow> \<not> logical msg
    \<Longrightarrow> on_received env ctx_err msg (pl_results s) (pl_reader s) = (nxt, results, r)
    \<Longrightarrow> pipeline_step env topic resolve s (s\<lparr>pl_reader := r, pl_control := after_stream nxt, pl_results := results\<rparr>)"
| step_message: "pl_control s = AtReceive \<Longrightarrow> rd_connection (pl_reader s) = Some (m # ms)
    \<Longrightarrow> on_received env ctx_err (XLogData (Inr (walStart, Inr m))) (pl_results s) ((pl_reader s)\<lparr>rd_connection := Some ms\<rparr>) =
          (nxt, results, r)
    \<Longrightarrow> pipeline_step env topic resolve s (s\<lparr>pl_reader := r, pl_control := after_stream nxt, pl_results := results\<rparr>)"
| step_queue: "pl_control s = Queueing tx n \<Longrightarrow> queueTransactionEvents env tx n (pl_reader s) = (q, r)
    \<Longrightarrow> pipeline_step env topic resolve s (s\<lparr>pl_reader := r, pl_control := after_queue tx n q\<rparr>)"
| step_hand: "pl_control s = Handing work tx n \<Longrightarrow> pl_publisher s = Idle
    \<Longrightarrow> sendWork env ctx_err WorkTaken (pl_reader s) = (nxt', r)
    \<Longrightarrow> pipeline_step env topic resolve s
          (s\<lparr>pl_reader := r, pl_control := after_send work tx n nxt', pl_publisher := publisher_takes work\<rparr>)"
| step_result: "pl_control s = Handing work tx n \<Longrightarrow> pl_results s = result # results
    \<Longrightarrow> sendWork env ctx_err (GotResult result) (pl_reader s) = (nxt', r)
    \<Longrightarrow> pipeline_step env topic resolve s (s\<lparr>pl_reader := r, pl_control := after_send work tx n nxt', pl_results := results\<rparr>)"
| step_status: "pl_control s = Handing work tx n \<Longrightarrow> sendWork env ctx_err StatusTimer (pl_reader s) = (nxt', r)
    \<Longrightarrow> pipeline_step env topic resolve s (s\<lparr>pl_reader := r, pl_control := after_send work tx n nxt'\<rparr>)"
| step_done: "pl_control s = Handing work tx n \<Longrightarrow> sendWork env ctx_err (CtxDone e) (pl_reader s) = (nxt', r)
    \<Longrightarrow> pipeline_step env topic resolve s (s\<lparr>pl_reader := r, pl_control := after_send work tx n nxt'\<rparr>)"
| step_publish: "pl_publisher s = Publishing event \<Longrightarrow> publish_event env topic event (pl_kafka s) (pl_reader s) = (p, k, r)
    \<Longrightarrow> pipeline_step env topic resolve s (s\<lparr>pl_reader := r, pl_publisher := p, pl_kafka := k\<rparr>)"
| step_reply: "pl_publisher s = Replying result leave \<Longrightarrow> pl_results s = []
    \<Longrightarrow> pipeline_step env topic resolve s
          (s\<lparr>pl_results := [result], pl_publisher := (if leave then Exited else Idle)\<rparr>)"
| step_cancel: "pipeline_step env topic resolve s (s\<lparr>pl_publisher := Exited\<rparr>)"
| step_crash: "pipeline_step env topic resolve s (rebooted env resolve s)"
| step_crash_publishing: "pl_publisher s = Publishing event
    \<Longrightarrow> \<forall>i. Suc i < attempts \<longrightarrow> call_error (publishTransactionEvent env topic event) i (pl_kafka s) \<noteq> None
    \<Longrightarrow> pipeline_step env topic resolve s
          (rebooted env resolve (s\<lparr>pl_kafka := calls_state (publishTransactionEvent env topic event) attempts (pl_kafka s)\<rparr>))"

section \<open>What the source commits\<close>

text \<open>
  The reader without its goroutines: the messages of one stream, decoded one after the other, with
  all events of a transaction pulled when its commit arrives.
\<close>

fun decode_all ::
  "source_env \<Rightarrow> decoder \<Rightarrow> message list \<Rightarrow> (committed_transaction \<times> event list) list option" where
  "decode_all env d [] = Some []"
| "decode_all env d (m # ms) =
     (case Handle env d m of
        (Inl e, d1) \<Rightarrow> None
      | (Inr None, d1) \<Rightarrow> decode_all env d1 ms
      | (Inr (Some tx), d1) \<Rightarrow>
          (case pull_n (NextEvent env) (nat (ct_Count tx)) d1 of
             (Inl e, d2) \<Rightarrow> None
           | (Inr es, d2) \<Rightarrow> map_option (Cons (tx, es)) (decode_all env d2 ms)))"

text \<open>
  A source and its committed transactions, with their events, in commit order: a logical
  replication stream that starts at a position sends, from scratch, the transactions that end
  after it, and they decode.
\<close>

definition fresh_decoder :: "(string \<Rightarrow> string \<Rightarrow> string list) \<Rightarrow> decoder \<Rightarrow> bool" where
  "fresh_decoder resolve d \<longleftrightarrow> relations d = Map.empty \<and> transaction d = None \<and> pull d = None \<and>
     identity d = Some resolve \<and> spoolCap d = DefaultSpoolCap"

definition in_commit_order :: "(committed_transaction \<times> event list) list \<Rightarrow> bool" where
  "in_commit_order txs \<longleftrightarrow> sorted_wrt (<) (map (ct_EndLSN \<circ> fst) txs)"

definition serves ::
  "reader_env \<Rightarrow> (string \<Rightarrow> string \<Rightarrow> string list) \<Rightarrow> (committed_transaction \<times> event list) list \<Rightarrow> bool" where
  "serves env resolve txs \<longleftrightarrow> in_commit_order txs \<and>
     (\<forall>l d. fresh_decoder resolve d \<longrightarrow>
        decode_all (re_source env) d (re_stream env l) = Some (filter (\<lambda>(tx, es). l < ct_EndLSN tx) txs))"

text \<open>The events are in the log, in order, possibly with other records between them.\<close>

definition delivered :: "reader_env \<Rightarrow> event list \<Rightarrow> kafka_log \<Rightarrow> bool" where
  "delivered env es k \<longleftrightarrow> subseq (map (re_marshal env) es) (map (Inr \<circ> km_Value) (fst k))"

definition covered :: "reader_env \<Rightarrow> (committed_transaction \<times> event list) list \<Rightarrow> lsn \<Rightarrow> kafka_log \<Rightarrow> bool" where
  "covered env txs l k \<longleftrightarrow> (\<forall>(tx, es) \<in> set txs. ct_EndLSN tx \<le> l \<longrightarrow> delivered env es k)"

end
