(* ===== verification/Pipeline_Correct.thy ===== *)
theory Pipeline_Correct
  imports Pipeline Decoder_Files
begin

text \<open>
  The invariant of the reader: whatever goroutines, services and crashes do, every transaction at
  or below the position reported to PostgreSQL is in Kafka with all its events, and results arrive
  in source order.
\<close>

section \<open>Frames of the reader's operations\<close>

definition decoder_of :: "(string \<Rightarrow> string \<Rightarrow> string list) \<Rightarrow> decoder \<Rightarrow> bool" where
  "decoder_of resolve d \<longleftrightarrow> identity d = Some resolve \<and> spoolCap d = DefaultSpoolCap"

lemma closePull_decoder_of [simp]: "decoder_of resolve (closePull d) = decoder_of resolve d"
  by (simp add: decoder_of_def closePull_def split: option.split)

lemma closePull_frame [simp]: "relations (closePull d) = relations d" "transaction (closePull d) = transaction d"
  by (simp_all add: closePull_def split: option.split)

lemma Reset_fresh: "decoder_of resolve d \<Longrightarrow> fresh_decoder resolve (Reset d)"
  by (simp add: fresh_decoder_def Reset_def Let_def decoder_of_def closePull_def split: option.split)

lemma fresh_NewDecoder [simp]: "fresh_decoder resolve (NewDecoderWithIdentity resolve)"
  by (simp add: fresh_decoder_def NewDecoderWithIdentity_def NewDecoder_def)

lemma fresh_decoder_of: "fresh_decoder resolve d \<Longrightarrow> decoder_of resolve d"
  by (simp add: fresh_decoder_def decoder_of_def)

lemma NextEvent_decoder_of: "NextEvent env d = (x, d') \<Longrightarrow> decoder_of resolve d \<Longrightarrow> decoder_of resolve d'"
  by (auto simp: NextEvent_def decoder_of_def closePull_def split: option.splits pulled.splits)

lemma decoder_append_decoder_of [simp]: "decoder_of resolve (snd (decoder_append env d c)) = decoder_of resolve d"
  by (auto simp: decoder_append_def decoder_of_def split: option.split prod.split)

lemma append_result_decoder_of [simp]: "decoder_of resolve (snd (append_result x)) = decoder_of resolve (snd x)"
  by (cases x) (auto simp: append_result_def split: option.split)

lemma decoder_of_append_2:
  assumes "decoder_of resolve d"
  shows "decoder_of resolve (snd (case decoder_append env d c of
           (Some err, d') \<Rightarrow> (Inl err, d') | (None, d') \<Rightarrow> append_result (decoder_append env d' c')))"
proof -
  have "decoder_of resolve (snd (decoder_append env d c))"
    using assms by simp
  then show ?thesis
    by (cases "decoder_append env d c") (simp split: option.split)
qed

lemma truncate_relations_decoder_of: "decoder_of resolve d \<Longrightarrow> decoder_of resolve (snd (truncate_relations env d rids))"
proof (induction rids arbitrary: d)
  case (Cons rid rids)
  have "decoder_of resolve (snd (decoder_append env d c))" for c
    using Cons.prems by simp
  then have "decoder_append env d c = (x, d') \<Longrightarrow> decoder_of resolve d'" for c x d'
    by (metis snd_conv)
  with Cons show ?case
    by (auto split: sum.split prod.split option.split)
qed simp

lemma Handle_decoder_of:
  assumes "decoder_of resolve d"
  shows "decoder_of resolve (snd (Handle env d m))"
proof (cases m)
  case (UpdateMsg rid t old new)
  then show ?thesis
    using assms decoder_of_append_2 [OF assms]
    by (simp add: Handle_def handle_update_def split: sum.split prod.split option.split)
next
  case (TruncateMsg rids)
  then show ?thesis
    using assms by (simp add: Handle_def handle_truncate_def truncate_relations_decoder_of)
next
  case (CommitMsg clsn elsn t)
  then show ?thesis
    using assms by (auto simp: Handle_def handle_commit_def Let_def decoder_of_def closePull_def split: option.split)
qed (use assms in \<open>simp_all add: Handle_def handle_relation_def handle_begin_def handle_insert_def handle_delete_def Let_def
      split: sum.split prod.split option.split\<close>,
    auto simp: decoder_of_def)

text \<open>What feedback leaves alone: it only moves the slot, to the durable position.\<close>

definition same_stream :: "reader \<Rightarrow> reader \<Rightarrow> bool" where
  "same_stream r r' \<longleftrightarrow> durable r' = durable r \<and> rd_decoder r' = rd_decoder r \<and> rd_connection r' = rd_connection r \<and>
     rd_slot r' \<in> {rd_slot r, durable r}"

lemma count_reader_simps [simp]:
  "durable (count_reader f g r) = durable r" "rd_decoder (count_reader f g r) = rd_decoder r"
  "rd_connection (count_reader f g r) = rd_connection r" "rd_slot (count_reader f g r) = rd_slot r"
  by (simp_all add: count_reader_def durable_def)

lemma durable_update [simp]:
  "durable (r\<lparr>rd_decoder := d\<rparr>) = durable r" "durable (r\<lparr>rd_connection := c\<rparr>) = durable r" "durable (r\<lparr>rd_slot := l\<rparr>) = durable r"
  "durable (r\<lparr>rd_tick := n\<rparr>) = durable r" "durable (r\<lparr>rd_nextStatus := t\<rparr>) = durable r" "durable (r\<lparr>rd_lastLSNAdvanced := t\<rparr>) = durable r"
  "durable (advance l r) = l"
  by (simp_all add: durable_def advance_def)

lemma advance_frame [simp]:
  "rd_decoder (advance l r) = rd_decoder r" "rd_connection (advance l r) = rd_connection r" "rd_slot (advance l r) = rd_slot r"
  by (simp_all add: advance_def)

lemma sendStandby_same: "sendStandby env r = (e, r') \<Longrightarrow> same_stream r r'"
  by (auto simp: sendStandby_def same_stream_def Let_def split: option.splits if_splits)

lemma send_and_rearm_same: "send_and_rearm env r = (e, r') \<Longrightarrow> same_stream r r'"
  by (auto simp: send_and_rearm_def same_stream_def dest!: sendStandby_same split: option.splits prod.splits)

lemma finalStandby_same: "finalStandby env r = (e, r') \<Longrightarrow> e = Some Canceled \<and> same_stream r r'"
  using sendStandby_same [of env r "fst (sendStandby env r)"] by (auto simp: finalStandby_def)

text \<open>A reconnect keeps positions; when it succeeds the stream starts again, from the durable position and from scratch.\<close>

definition redialed :: "(string \<Rightarrow> string \<Rightarrow> string list) \<Rightarrow> reader \<Rightarrow> reader \<Rightarrow> bool" where
  "redialed resolve r r' \<longleftrightarrow> durable r' = durable r \<and> rd_slot r' = rd_slot r \<and> decoder_of resolve (rd_decoder r')"

definition restarts :: "reader_env \<Rightarrow> (string \<Rightarrow> string \<Rightarrow> string list) \<Rightarrow> reader \<Rightarrow> bool" where
  "restarts env resolve r \<longleftrightarrow> rd_connection r = Some (re_stream env (durable r)) \<and> fresh_decoder resolve (rd_decoder r)"

lemma redial_redialed: "redialed resolve r0 r \<Longrightarrow> redialed resolve r0 (snd (redial env r))"
  by (auto simp: redialed_def redial_def dialReplication_def Let_def Reset_fresh fresh_decoder_of split: option.split)

lemma redial_restarts: "redial env r = (None, r') \<Longrightarrow> decoder_of resolve (rd_decoder r) \<Longrightarrow> restarts env resolve r'"
  by (auto simp: restarts_def redial_def dialReplication_def Let_def Reset_fresh split: option.splits)

lemma reconnect_redialed:
  assumes "reconnect env r = (e, r')" and "decoder_of resolve (rd_decoder r)"
  shows "redialed resolve r r' \<and> (e = None \<longrightarrow> restarts env resolve r')"
proof -
  let ?r = "count_reader (\<lambda>c. c\<lparr>replicationRejoins := replicationRejoins c + 1\<rparr>) (inc_error ''replication'') r"
  have start: "redialed resolve r ?r"
    using assms(2) by (simp add: redialed_def)
  from retry_Do_keeps [of "redialed resolve r", OF redial_redialed this assms(1) [unfolded reconnect_def]]
  show ?thesis
    by (auto simp: redialed_def intro: redial_restarts)
qed

lemma recoverPublication_redialed:
  assumes "recoverPublication env ctx_err r = (e, r')" and "decoder_of resolve (rd_decoder r)"
  shows "redialed resolve r r' \<and> (e = None \<longrightarrow> restarts env resolve r')"
proof (cases ctx_err)
  case (Some c)
  then show ?thesis
    using assms by (auto simp: recoverPublication_def redialed_def)
next
  case None
  let ?r = "count_reader (\<lambda>c. c\<lparr>publishFailures := publishFailures c + 1\<rparr>) (inc_error ''kafka'') r"
  have "reconnect env ?r = (e, r')"
    using assms(1) None by (simp add: recoverPublication_def)
  from reconnect_redialed [OF this] assms(2) show ?thesis
    by (simp add: redialed_def)
qed

section \<open>The log grows\<close>

definition log_grows :: "kafka_log \<Rightarrow> kafka_log \<Rightarrow> bool" where
  "log_grows k k' \<longleftrightarrow> (\<exists>new. fst k' = fst k @ new)"

lemma log_grows_refl [simp]: "log_grows k k"
  by (simp add: log_grows_def)

lemma log_grows_trans: "log_grows k k' \<Longrightarrow> log_grows k' k'' \<Longrightarrow> log_grows k k''"
  by (auto simp: log_grows_def)

lemma delivered_grows: "delivered env es k \<Longrightarrow> log_grows k k' \<Longrightarrow> delivered env es k'"
  by (auto simp: delivered_def log_grows_def subseq_rev_drop_many)

lemma covered_grows: "covered env txs l k \<Longrightarrow> log_grows k k' \<Longrightarrow> covered env txs l k'"
  by (auto simp: covered_def intro: delivered_grows)

lemma delivered_Nil [simp]: "delivered env [] k"
  by (simp add: delivered_def)

lemma covered_le: "covered env txs l k \<Longrightarrow> l' \<le> l \<Longrightarrow> covered env txs l' k"
  by (fastforce simp: covered_def)

lemma publishTransactionEvent_grows: "log_grows k (snd (publishTransactionEvent env topic event k))"
  by (cases k) (auto simp: publishTransactionEvent_def log_grows_def Let_def split: sum.split option.split)

lemma publishTransactionEvent_appends:
  assumes "publishTransactionEvent env topic event k = (None, k')"
  shows "\<exists>payload. re_marshal env event = Inr payload \<and> fst k' = fst k @ [kafka_record_of topic event payload]"
  using assms by (cases k) (auto simp: publishTransactionEvent_def Let_def split: sum.splits option.splits)

lemma attempts_grow: "log_grows k (calls_state (publishTransactionEvent env topic event) n k)"
proof (induction n arbitrary: k)
  case (Suc n)
  show ?case
    unfolding calls_state_Suc by (rule log_grows_trans [OF publishTransactionEvent_grows Suc.IH])
qed simp

lemma publish_event_cases:
  assumes "publish_event env topic event k r = (p, k', r')"
  shows "log_grows k k' \<and> (\<exists>f g. r' = count_reader f g r) \<and>
    (p = Idle \<and> (\<forall>es. delivered env es k \<longrightarrow> delivered env (es @ [event]) k') \<or>
     (\<exists>res. p = Replying res True \<and> pr_err res \<noteq> None))"
proof -
  obtain e where e: "retry_Do (re_wait env) (re_rnd env) Default ''publish event to Kafka'' (publishTransactionEvent env topic event) k = (e, k')"
    using assms by (auto simp: publish_event_def split: prod.splits option.splits)
  have step: "log_grows k s \<Longrightarrow> log_grows k (snd (publishTransactionEvent env topic event s))" for s
    using publishTransactionEvent_grows log_grows_trans by blast
  note keeps = retry_Do_keeps [of "log_grows k", OF step log_grows_refl e]
  have "delivered env (es @ [event]) k'" if last: "e = None" and "delivered env es k" for es
  proof -
    obtain k0 payload where k0: "log_grows k k0" "re_marshal env event = Inr payload"
        "fst k' = fst k0 @ [kafka_record_of topic event payload]"
      using keeps last publishTransactionEvent_appends by blast
    have "delivered env es k0"
      using \<open>delivered env es k\<close> k0(1) by (rule delivered_grows)
    with k0 show ?thesis
      by (simp add: delivered_def kafka_record_of_def)
  qed
  with e keeps assms show ?thesis
    by (auto simp: publish_event_def split: option.splits)
qed

section \<open>Source order\<close>

text \<open>Two positions between which no transaction ends.\<close>

definition adjacent :: "(committed_transaction \<times> event list) list \<Rightarrow> lsn \<Rightarrow> lsn \<Rightarrow> bool" where
  "adjacent txs a b \<longleftrightarrow> a \<le> b \<and> (\<forall>x \<in> set txs. \<not> (a < ct_EndLSN (fst x) \<and> ct_EndLSN (fst x) < b))"

definition ends :: "(committed_transaction \<times> event list) list \<Rightarrow> lsn list" where
  "ends txs = map (ct_EndLSN \<circ> fst) txs"

lemma ends_simps [simp]: "ends [] = []" "ends (x # txs) = ct_EndLSN (fst x) # ends txs" "ends (txs @ txs') = ends txs @ ends txs'"
  by (simp_all add: ends_def)

abbreviation chain :: "(committed_transaction \<times> event list) list \<Rightarrow> lsn list \<Rightarrow> bool" where
  "chain txs ls \<equiv> successively (adjacent txs) ls"

lemma chain_drop: "chain txs (a # b # ls) \<Longrightarrow> chain txs (b # ls)"
  by simp

lemma chain_append: "chain txs (ls @ ls') \<Longrightarrow> chain txs ls"
  by (simp add: successively_append_iff)

text \<open>Those after a position are the rest of the list.\<close>

lemma after_position:
  assumes "in_commit_order txs"
  shows "\<exists>before. txs = before @ filter (\<lambda>(tx, es). l < ct_EndLSN tx) txs \<and> (\<forall>(tx, es) \<in> set before. ct_EndLSN tx \<le> l)"
  using assms
proof (induction txs)
  case (Cons x txs)
  obtain tx es where x: "x = (tx, es)"
    by (cases x) auto
  show ?case
  proof (cases "l < ct_EndLSN tx")
    case True
    then have "filter (\<lambda>(tx, es). l < ct_EndLSN tx) txs = txs"
      using Cons.prems x by (fastforce simp: in_commit_order_def filter_id_conv)
    with True x show ?thesis by auto
  next
    case False
    obtain before where "txs = before @ filter (\<lambda>(tx, es). l < ct_EndLSN tx) txs" "\<forall>(tx, es) \<in> set before. ct_EndLSN tx \<le> l"
      using Cons by (auto simp: in_commit_order_def)
    with False x show ?thesis
      by (intro exI [of _ "x # before"]) auto
  qed
qed simp

lemma in_commit_order_before:
  assumes "in_commit_order (done @ (tx, es) # todo)" and "(tx', es') \<in> set (done @ (tx, es) # todo)" and "ct_EndLSN tx' \<le> ct_EndLSN tx"
  shows "(tx', es') \<in> set done \<or> (tx', es') = (tx, es)"
  using assms by (fastforce simp: in_commit_order_def sorted_wrt_append)

lemma commit_order_chain: "in_commit_order (done @ todo) \<Longrightarrow> chain (done @ todo) (ends todo)"
proof (induction todo arbitrary: "done" rule: induct_list012)
  case (3 x y zs)
  have "adjacent (done @ x # y # zs) (ct_EndLSN (fst x)) (ct_EndLSN (fst y))"
    using 3(3) by (fastforce simp: adjacent_def in_commit_order_def sorted_wrt_append)
  moreover have "chain (done @ x # y # zs) (ends (y # zs))"
    using 3(2) [of "done @ [x]"] 3(3) by simp
  ultimately show ?case
    by simp
qed simp_all

lemma chain_restart:
  assumes "in_commit_order txs" and "chain txs (l # ls)" and "length ls \<le> 1"
  shows "chain txs (l # ls @ ends (filter (\<lambda>(tx, es). l < ct_EndLSN tx) txs))"
proof -
  obtain before where before: "txs = before @ filter (\<lambda>(tx, es). l < ct_EndLSN tx) txs" "\<forall>(tx, es) \<in> set before. ct_EndLSN tx \<le> l"
    using after_position [OF assms(1)] by blast
  define rest where "rest = filter (\<lambda>(tx, es). l < ct_EndLSN tx) txs"
  have txs: "txs = before @ rest"
    using before(1) by (simp add: rest_def)
  have rest: "chain txs (ends rest)"
    using commit_order_chain [of before rest] assms(1) txs by simp
  show ?thesis
    unfolding rest_def [symmetric]
  proof (cases rest)
    case Nil
    with assms(2) show "chain txs (l # ls @ ends rest)" by simp
  next
    case (Cons x rest')
    have x: "l < ct_EndLSN (fst x)"
    proof -
      have "x \<in> set rest"
        using Cons by simp
      then show ?thesis
        by (auto simp: rest_def)
    qed
    have later: "ct_EndLSN (fst x) \<le> ct_EndLSN (fst y)" if "y \<in> set txs" "l < ct_EndLSN (fst y)" for y
      using that before(2) assms(1) Cons txs by (fastforce simp: in_commit_order_def sorted_wrt_append)
    have mem: "x \<in> set txs"
      using txs Cons by simp
    have from_l: "adjacent txs a (ct_EndLSN (fst x))" if "adjacent txs l a" for a
      using that x later mem by (fastforce simp: adjacent_def)
    have "adjacent txs l l"
      by (auto simp: adjacent_def)
    with from_l have "adjacent txs l (ct_EndLSN (fst x))"
      by blast
    then show "chain txs (l # ls @ ends rest)"
      using assms(2,3) Cons rest from_l by (cases ls) auto
  qed
qed

section \<open>The invariant\<close>

text \<open>Acknowledgements on their way: those in the results channel and the one the publisher holds.\<close>

definition acks_of :: "publicationResult list \<Rightarrow> committed_transaction list" where
  "acks_of results = map pr_transaction (filter (\<lambda>result. pr_err result = None) results)"

fun held :: "publisher \<Rightarrow> publicationResult list" where
  "held (Replying result leave) = [result]"
| "held _ = []"

fun alive :: "publisher \<Rightarrow> bool" where
  "alive Exited \<longleftrightarrow> False"
| "alive (Replying result leave) \<longleftrightarrow> \<not> leave"
| "alive _ \<longleftrightarrow> True"

lemma acks_of_simps [simp]:
  "acks_of [] = []" "acks_of (rs @ rs') = acks_of rs @ acks_of rs'"
  "acks_of (r # rs) = (if pr_err r = None then pr_transaction r # acks_of rs else acks_of rs)"
  by (simp_all add: acks_of_def)

text \<open>Positions, acknowledgements and the log, wherever the stream goroutine is.\<close>

definition core_inv ::
  "reader_env \<Rightarrow> (string \<Rightarrow> string \<Rightarrow> string list) \<Rightarrow> (committed_transaction \<times> event list) list
     \<Rightarrow> reader \<Rightarrow> publicationResult list \<Rightarrow> publisher \<Rightarrow> kafka_log \<Rightarrow> bool" where
  "core_inv env resolve txs r results p k \<longleftrightarrow>
     covered env txs (durable r) k \<and> rd_slot r \<le> durable r \<and> decoder_of resolve (rd_decoder r) \<and>
     (\<forall>tx \<in> set (acks_of (results @ held p)). covered env txs (ct_EndLSN tx) k) \<and>
     chain txs (durable r # map ct_EndLSN (acks_of (results @ held p))) \<and>
     ((\<exists>result \<in> set results. pr_err result \<noteq> None) \<longrightarrow> \<not> alive p) \<and>
     (\<forall>result leave. p = Replying result leave \<longrightarrow> (leave \<longleftrightarrow> pr_err result \<noteq> None)) \<and> length results \<le> 1"

text \<open>
  Where a living publisher leaves the stream goroutine: the transactions before the current one
  are in the log, the messages of the stream decode to the rest, in the order the
  acknowledgements are in.
\<close>

definition queued ::
  "reader_env \<Rightarrow> (committed_transaction \<times> event list) list \<Rightarrow> reader \<Rightarrow> publicationResult list \<Rightarrow> publisher \<Rightarrow> kafka_log
     \<Rightarrow> (committed_transaction \<times> event list) list \<Rightarrow> (committed_transaction \<times> event list) list \<Rightarrow> bool" where
  "queued env txs r results p k before todo \<longleftrightarrow> txs = before @ todo \<and> (\<forall>x \<in> set before. delivered env (snd x) k) \<and>
     chain txs (durable r # map ct_EndLSN (acks_of (results @ held p)) @ ends todo)"

definition reads ::
  "reader_env \<Rightarrow> decoder \<Rightarrow> message list option \<Rightarrow> (committed_transaction \<times> event list) list \<Rightarrow> bool" where
  "reads env d c todo \<longleftrightarrow> (\<exists>ms. c = Some ms \<and> decode_all (re_source env) d ms = Some todo)"

definition pulls ::
  "reader_env \<Rightarrow> nat \<Rightarrow> decoder \<Rightarrow> message list option \<Rightarrow> event list \<Rightarrow> (committed_transaction \<times> event list) list \<Rightarrow> bool" where
  "pulls env n d c es todo \<longleftrightarrow> (\<exists>d'. pull_n (NextEvent (re_source env)) n d = (Inr es, d') \<and> reads env d' c todo)"

fun handed :: "reader_env \<Rightarrow> event list \<Rightarrow> publisher \<Rightarrow> kafka_log \<Rightarrow> bool" where
  "handed env es (Publishing e) k \<longleftrightarrow> (\<exists>es0. es = es0 @ [e] \<and> delivered env es0 k)"
| "handed env es p k \<longleftrightarrow> delivered env es k"

fun not_publishing :: "publisher \<Rightarrow> bool" where
  "not_publishing (Publishing e) \<longleftrightarrow> False"
| "not_publishing _ \<longleftrightarrow> True"

fun stream_ok ::
  "reader_env \<Rightarrow> (committed_transaction \<times> event list) list \<Rightarrow> reader \<Rightarrow> publicationResult list \<Rightarrow> publisher \<Rightarrow> kafka_log
     \<Rightarrow> control \<Rightarrow> bool" where
  "stream_ok env txs r results p k AtTop \<longleftrightarrow> not_publishing p \<and>
     (\<exists>before todo. queued env txs r results p k before todo \<and> reads env (rd_decoder r) (rd_connection r) todo)"
| "stream_ok env txs r results p k AtReceive \<longleftrightarrow> not_publishing p \<and>
     (\<exists>before todo. queued env txs r results p k before todo \<and> reads env (rd_decoder r) (rd_connection r) todo)"
| "stream_ok env txs r results p k (Queueing tx n) \<longleftrightarrow>
     (\<exists>before es1 es2 todo. queued env txs r results p k before ((tx, es1 @ es2) # todo) \<and> n = Suc (length es1) \<and>
        pulls env (nat (ct_Count tx) - length es1) (rd_decoder r) (rd_connection r) es2 todo \<and> handed env es1 p k)"
| "stream_ok env txs r results p k (Handing (EventWork e) tx n) \<longleftrightarrow>
     (\<exists>before es1 es2 todo. queued env txs r results p k before ((tx, es1 @ e # es2) # todo) \<and> n = Suc (length es1) \<and>
        pulls env (nat (ct_Count tx) - n) (rd_decoder r) (rd_connection r) es2 todo \<and> handed env es1 p k)"
| "stream_ok env txs r results p k (Handing (TxWork tx') tx n) \<longleftrightarrow> tx' = tx \<and>
     (\<exists>before es todo. queued env txs r results p k before ((tx, es) # todo) \<and>
        reads env (rd_decoder r) (rd_connection r) todo \<and> handed env es p k)"
| "stream_ok env txs r results p k (Returned e) \<longleftrightarrow> True"

definition pipeline_inv ::
  "reader_env \<Rightarrow> (string \<Rightarrow> string \<Rightarrow> string list) \<Rightarrow> (committed_transaction \<times> event list) list \<Rightarrow> pipeline \<Rightarrow> bool" where
  "pipeline_inv env resolve txs s \<longleftrightarrow>
     core_inv env resolve txs (pl_reader s) (pl_results s) (pl_publisher s) (pl_kafka s) \<and>
     (pl_control s = AtReceive \<longrightarrow> length (pl_results s @ held (pl_publisher s)) \<le> 1) \<and>
     (alive (pl_publisher s) \<longrightarrow>
        stream_ok env txs (pl_reader s) (pl_results s) (pl_publisher s) (pl_kafka s) (pl_control s))"

section \<open>Keeping it\<close>

lemma core_same_stream:
  assumes "core_inv env resolve txs r results p k" and "same_stream r r'"
  shows "core_inv env resolve txs r' results p k"
  using assms by (auto simp: core_inv_def same_stream_def)

text \<open>\<open>stream_ok\<close> reads the reader only through its stream and through \<open>queued\<close>.\<close>

lemma stream_ok_moves:
  assumes "stream_ok env txs r results p k c" and "rd_decoder r' = rd_decoder r" and "rd_connection r' = rd_connection r"
    and "\<And>before todo. queued env txs r results p k before todo \<Longrightarrow> queued env txs r' results' p k before todo"
  shows "stream_ok env txs r' results' p k c"
  using assms by (cases "(env, txs, r, results, p, k, c)" rule: stream_ok.cases) (auto, blast+)

lemma queued_durable: "durable r' = durable r \<Longrightarrow> queued env txs r' results p k = queued env txs r results p k"
  by (simp add: fun_eq_iff queued_def)

lemma stream_ok_same_stream: "stream_ok env txs r results p k c \<Longrightarrow> same_stream r r' \<Longrightarrow> stream_ok env txs r' results p k c"
proof -
  assume ok: "stream_ok env txs r results p k c" and same: "same_stream r r'"
  then have "queued env txs r' results p k = queued env txs r results p k"
    by (intro queued_durable) (simp add: same_stream_def)
  with stream_ok_moves [OF ok] same show ?thesis
    by (metis same_stream_def)
qed

lemma core_redialed: "core_inv env resolve txs r results p k \<Longrightarrow> redialed resolve r r' \<Longrightarrow> core_inv env resolve txs r' results p k"
  by (simp add: core_inv_def redialed_def)

text \<open>A stream that starts again is at the top of its transactions.\<close>

lemma restarts_at_top:
  assumes "serves env resolve txs" and "core_inv env resolve txs r results p k" and "restarts env resolve r"
    and "length (results @ held p) \<le> 1" and "not_publishing p"
  shows "stream_ok env txs r results p k AtTop"
proof -
  let ?todo = "filter (\<lambda>(tx, es). durable r < ct_EndLSN tx) txs"
  have order: "in_commit_order txs"
    using assms(1) by (simp add: serves_def)
  obtain before where before: "txs = before @ ?todo" "\<forall>(tx, es) \<in> set before. ct_EndLSN tx \<le> durable r"
    using after_position [OF order] by blast
  have "length (acks_of (results @ held p)) \<le> length (results @ held p)"
    unfolding acks_of_def length_map by (rule length_filter_le)
  with assms(4) have short: "length (map ct_EndLSN (acks_of (results @ held p))) \<le> 1"
    by simp
  have "chain txs (durable r # map ct_EndLSN (acks_of (results @ held p)) @ ends ?todo)"
    using chain_restart [OF order _ short] assms(2) by (simp add: core_inv_def)
  moreover have "\<forall>x \<in> set before. delivered env (snd x) k"
  proof
    fix x
    assume x: "x \<in> set before"
    then have "x \<in> set txs" "ct_EndLSN (fst x) \<le> durable r"
      using before by (metis UnCI set_append) (use before(2) x in auto)
    then show "delivered env (snd x) k"
      using assms(2) by (auto simp: core_inv_def covered_def)
  qed
  moreover have "reads env (rd_decoder r) (rd_connection r) ?todo"
    using assms(1,3) by (auto simp: reads_def restarts_def serves_def)
  ultimately show ?thesis
    using assms(5) before(1) by (auto simp: queued_def)
qed

text \<open>A result in source order advances the durable position; an error comes from a publisher that is gone.\<close>

lemma apply_core:
  assumes "applyPublicationResult env result r = (e, r1)" and "core_inv env resolve txs r (result # results) p k"
  shows "core_inv env resolve txs r1 results p k \<and> (e \<noteq> None \<longrightarrow> \<not> alive p) \<and>
    rd_decoder r1 = rd_decoder r \<and> rd_connection r1 = rd_connection r \<and>
    (alive p \<longrightarrow> (\<forall>before todo. queued env txs r (result # results) p k before todo \<longrightarrow> queued env txs r1 results p k before todo))"
proof (cases "pr_err result")
  case (Some err)
  then have "e = Some err" "r1 = r"
    using assms(1) by (auto simp: applyPublicationResult_def)
  with Some show ?thesis
    using assms(2) by (auto simp: core_inv_def)
next
  case None
  have le: "durable r \<le> ct_EndLSN (pr_transaction result)" and cov: "covered env txs (ct_EndLSN (pr_transaction result)) k"
    using assms(2) None by (auto simp: core_inv_def adjacent_def)
  from le have in_order: "(ct_EndLSN (pr_transaction result) < durable r) = False"
    by simp
  have r1: "e = None" "durable r1 = ct_EndLSN (pr_transaction result)" "rd_slot r1 = rd_slot r"
      "rd_decoder r1 = rd_decoder r" "rd_connection r1 = rd_connection r"
    using assms(1) None by (auto simp: applyPublicationResult_def in_order)
  moreover have "core_inv env resolve txs r1 results p k"
    using assms(2) None r1 le cov by (auto simp: core_inv_def)
  ultimately show ?thesis
    using None by (auto simp: queued_def)
qed

lemma drain_core:
  assumes "drain_results env advanced results r = (x, rest, r1)" and "core_inv env resolve txs r results p k"
  shows "core_inv env resolve txs r1 rest p k \<and> ((\<exists>e. x = Inl e) \<longrightarrow> \<not> alive p) \<and> ((\<exists>b. x = Inr b) \<longrightarrow> rest = []) \<and>
    rd_decoder r1 = rd_decoder r \<and> rd_connection r1 = rd_connection r \<and>
    (alive p \<longrightarrow> (\<forall>before todo. queued env txs r results p k before todo \<longrightarrow> queued env txs r1 rest p k before todo))"
  using assms
proof (induction results arbitrary: advanced r)
  case (Cons result results)
  obtain e r2 where r2: "applyPublicationResult env result r = (e, r2)"
    by (cases "applyPublicationResult env result r") auto
  note step = apply_core [OF r2 Cons.prems(2)]
  show ?case
  proof (cases e)
    case (Some err)
    then show ?thesis
      using Cons.prems(1) r2 step by auto
  next
    case None
    then have "drain_results env True results r2 = (x, rest, r1)"
      using Cons.prems(1) r2 by simp
    from Cons.IH [OF this] step show ?thesis by auto
  qed
qed auto

text \<open>
  A drain with what follows it: feedback when it succeeded, recovery when it did not. \<open>after_drain\<close>
  is that pattern of the stream loop.
\<close>

definition after_drain ::
  "reader_env \<Rightarrow> goerr option \<Rightarrow> (bool \<Rightarrow> bool) \<Rightarrow> stream_next \<Rightarrow> publicationResult list \<Rightarrow> reader
     \<Rightarrow> stream_next \<times> publicationResult list \<times> reader" where
  "after_drain env ctx_err report nxt results r =
     (case drainPublicationResults env results r of
        (Inl err, rest, r1) \<Rightarrow> (case recoverPublication env ctx_err r1 of (e, r2) \<Rightarrow> (Return e, rest, r2))
      | (Inr advanced, rest, r1) \<Rightarrow>
          if report advanced
          then (case send_and_rearm env r1 of
                  (Some e, r2) \<Rightarrow> (Return (Some e), rest, r2)
                | (None, r2) \<Rightarrow> (nxt, rest, r2))
          else (nxt, rest, r1))"

lemma stream_top_drains: "stream_top env ctx_err results r = after_drain env ctx_err (\<lambda>advanced. advanced) Receive results r"
  by (simp add: stream_top_def after_drain_def)

lemma on_keepalive_drains:
  "on_keepalive env ctx_err reply results r =
     (if reply then after_drain env ctx_err (\<lambda>_. True) NextIteration results r else (NextIteration, results, r))"
  unfolding on_keepalive_def after_drain_def if_True by simp

lemma on_timeout_drains:
  "ctx_err = None \<Longrightarrow> on_receive_error env ctx_err True results r = after_drain env ctx_err (\<lambda>_. True) NextIteration results r"
  unfolding on_receive_error_def after_drain_def if_True by simp

text \<open>Where such a call leaves the reader; \<open>before\<close> is any of the two places it is made from.\<close>

definition stream_result ::
  "reader_env \<Rightarrow> (string \<Rightarrow> string \<Rightarrow> string list) \<Rightarrow> (committed_transaction \<times> event list) list \<Rightarrow> publisher \<Rightarrow> kafka_log
     \<Rightarrow> stream_next \<times> publicationResult list \<times> reader \<Rightarrow> bool" where
  "stream_result env resolve txs p k x \<longleftrightarrow>
     (case x of (nxt, results, r) \<Rightarrow>
        core_inv env resolve txs r results p k \<and> (after_stream nxt = AtReceive \<longrightarrow> results = []) \<and>
        (alive p \<longrightarrow> stream_ok env txs r results p k (after_stream nxt)))"

lemma after_drain_result:
  assumes "core_inv env resolve txs r results p k" and "alive p \<longrightarrow> stream_ok env txs r results p k AtTop"
    and "nxt = Receive \<or> nxt = NextIteration"
  shows "stream_result env resolve txs p k (after_drain env ctx_err report nxt results r)"
proof -
  obtain x rest r1 where x: "drain_results env False results r = (x, rest, r1)"
    by (cases "drain_results env False results r") auto
  note d = drain_core [OF x assms(1)]
  have ok: "alive p \<longrightarrow> stream_ok env txs r1 rest p k AtTop"
    using assms(2) d by (auto intro: stream_ok_moves)
  have nxt: "stream_ok env txs r' rest p k (after_stream nxt)" if "stream_ok env txs r' rest p k AtTop" for r'
    using assms(3) that by (elim disjE) simp_all
  show ?thesis
  proof (cases x)
    case (Inl err)
    obtain e r2 where r2: "recoverPublication env ctx_err r1 = (e, r2)"
      by (cases "recoverPublication env ctx_err r1") auto
    have "core_inv env resolve txs r2 rest p k"
      using core_redialed recoverPublication_redialed [OF r2] d by (metis core_inv_def)
    then show ?thesis
      using Inl x r2 by (simp add: after_drain_def drainPublicationResults_def stream_result_def)
  next
    case (Inr advanced)
    obtain e r2 where r2: "send_and_rearm env r1 = (e, r2)"
      by (cases "send_and_rearm env r1") auto
    note same = send_and_rearm_same [OF r2]
    have core: "core_inv env resolve txs r1 rest p k" "core_inv env resolve txs r2 rest p k" "rest = []"
      using d Inr core_same_stream [OF _ same] by blast+
    have there: "alive p \<Longrightarrow> stream_ok env txs r1 rest p k (after_stream nxt)" "alive p \<Longrightarrow> stream_ok env txs r2 rest p k (after_stream nxt)"
      using ok nxt stream_ok_same_stream [OF _ same] by blast+
    show ?thesis
      using Inr x r2 core there
      by (cases e) (simp_all add: after_drain_def drainPublicationResults_def stream_result_def)
  qed
qed

lemma on_receive_error_result:
  assumes "serves env resolve txs" and "core_inv env resolve txs r results p k" and "alive p \<longrightarrow> stream_ok env txs r results p k AtTop"
    and "length (results @ held p) \<le> 1"
  shows "stream_result env resolve txs p k (on_receive_error env ctx_err timeout results r)"
proof (cases "ctx_err = None")
  case False
  obtain e r1 where r1: "finalStandby env r = (e, r1)"
    by (cases "finalStandby env r") auto
  have "core_inv env resolve txs r1 results p k"
    using assms(2) finalStandby_same [OF r1] by (blast intro: core_same_stream)
  with False r1 show ?thesis
    by (simp add: on_receive_error_def stream_result_def)
next
  case ctx: True
  show ?thesis
  proof (cases timeout)
    case True
    then show ?thesis
      using on_timeout_drains [OF ctx] after_drain_result [OF assms(2,3)] by simp
  next
    case False
    obtain e r1 where r1: "reconnect env r = (e, r1)"
      by (cases "reconnect env r") auto
    have dec: "decoder_of resolve (rd_decoder r)"
      using assms(2) by (simp add: core_inv_def)
    note re = reconnect_redialed [OF r1 dec]
    have core: "core_inv env resolve txs r1 results p k"
      using core_redialed [OF assms(2)] re by blast
    have "stream_ok env txs r1 results p k AtTop" if "e = None" "alive p"
    proof (rule restarts_at_top [OF assms(1) core _ assms(4)])
      show "restarts env resolve r1"
        using re that(1) by blast
      show "not_publishing p"
        using assms(3) that(2) by simp
    qed
    with core ctx False r1 show ?thesis
      by (cases e) (simp_all add: on_receive_error_def stream_result_def)
  qed
qed

lemma at_top_same:
  "stream_ok env txs r results p k AtReceive = stream_ok env txs r results p k AtTop"
  by simp

lemma on_received_result:
  assumes "serves env resolve txs" and "core_inv env resolve txs r results p k" and "alive p \<longrightarrow> stream_ok env txs r results p k AtTop"
    and "length (results @ held p) \<le> 1" and "\<not> logical msg"
  shows "stream_result env resolve txs p k (on_received env ctx_err msg results r)"
  using assms(5)
proof (cases "(env, ctx_err, msg, results, r)" rule: on_received.cases)
  case (5 env' ctx' reply results' r')
  then show ?thesis
    using after_drain_result [OF assms(2,3)] assms(2,3) by (simp add: on_keepalive_drains stream_result_def)
qed (use assms on_receive_error_result [OF assms(1-4)] in \<open>auto simp: stream_result_def\<close>)

text \<open>A message of the stream.\<close>

lemma on_logical_message_result:
  assumes "core_inv env resolve txs r results p k" and "not_publishing p"
    and "queued env txs r results p k before todo" and "reads env (rd_decoder r) (Some (m # ms)) todo"
    and "on_logical_message env walStart m (r\<lparr>rd_connection := Some ms\<rparr>) = (nxt, r')"
  shows "stream_ok env txs r' results p k (after_stream nxt)"
proof -
  obtain h d where h: "Handle (re_source env) (rd_decoder r) m = (h, d)"
    by (cases "Handle (re_source env) (rd_decoder r) m") auto
  have q: "queued env txs (r\<lparr>rd_connection := Some ms, rd_decoder := d\<rparr>) results p k before todo"
    using assms(3) queued_durable [of "r\<lparr>rd_connection := Some ms, rd_decoder := d\<rparr>" r] by simp
  consider err where "h = Inl err" | "h = Inr None" "decode_all (re_source env) d ms = Some todo"
    | tx es d2 todo' where "h = Inr (Some tx)" "pull_n (NextEvent (re_source env)) (nat (ct_Count tx)) d = (Inr es, d2)"
        "todo = (tx, es) # todo'" "decode_all (re_source env) d2 ms = Some todo'"
    using assms(4) h by (auto simp: reads_def split: sum.splits option.splits prod.splits)
  then show ?thesis
  proof cases
    case 1
    then show ?thesis using assms(5) h by (auto simp: on_logical_message_def)
  next
    case 2
    then show ?thesis using assms(2,5) h q by (auto simp: on_logical_message_def reads_def)
  next
    case 3
    have "pulls env (nat (ct_Count tx)) d (Some ms) es todo'"
      using 3 by (auto simp: pulls_def reads_def)
    moreover have "handed env [] p k"
      using assms(2) by (cases p) auto
    ultimately have "stream_ok env txs (r\<lparr>rd_connection := Some ms, rd_decoder := d\<rparr>) results p k (Queueing tx 1)"
      using q 3(3) by auto
    moreover have "nxt = QueueTransaction tx" "r' = r\<lparr>rd_connection := Some ms, rd_decoder := d\<rparr>"
      using assms(5) h 3(1) by (simp_all add: on_logical_message_def)
    ultimately show ?thesis
      by (simp only: after_stream.simps)
  qed
qed

text \<open>Pulling the next event of a transaction, or its descriptor.\<close>

lemma pulls_queue:
  assumes "pulls env (nat (ct_Count tx) - length es1) (rd_decoder r) (rd_connection r) es2 todo" and "n = Suc (length es1)"
    and "queueTransactionEvents env tx n r = (q, r')"
  obtains e es3 d where "q = Send (EventWork e)" "r' = r\<lparr>rd_decoder := d\<rparr>" "es2 = e # es3"
      "pulls env (nat (ct_Count tx) - n) d (rd_connection r) es3 todo" "\<exists>x. NextEvent (re_source env) (rd_decoder r) = (x, d)"
    | "q = Send (TxWork tx)" "r' = r" "es2 = []" "reads env (rd_decoder r) (rd_connection r) todo"
proof (cases "int n \<le> ct_Count tx")
  case True
  obtain x d where x: "NextEvent (re_source env) (rd_decoder r) = (x, d)"
    by (cases "NextEvent (re_source env) (rd_decoder r)") auto
  define m where "m = nat (ct_Count tx) - n"
  have m: "nat (ct_Count tx) - length es1 = Suc m"
    using True assms(2) by (simp add: m_def)
  obtain e es3 where e: "x = Inr (Some e)" "es2 = e # es3" "pulls env m d (rd_connection r) es3 todo"
    using assms(1) x unfolding m pulls_def by (auto split: sum.splits option.splits prod.splits)
  then have "q = Send (EventWork e)" "r' = r\<lparr>rd_decoder := d\<rparr>"
    using assms(3) x True by (simp_all add: queueTransactionEvents_def)
  with e x that(1) show thesis
    by (simp add: m_def)
next
  case False
  then have "nat (ct_Count tx) - length es1 = 0"
    using assms(2) by simp
  then have "es2 = []" "reads env (rd_decoder r) (rd_connection r) todo"
    using assms(1) by (auto simp: pulls_def)
  moreover have "q = Send (TxWork tx)" "r' = r"
    using assms(3) False by (simp_all add: queueTransactionEvents_def)
  ultimately show thesis
    using that(2) by blast
qed

lemma queue_result:
  assumes "core_inv env resolve txs r results p k" and "alive p \<longrightarrow> stream_ok env txs r results p k (Queueing tx n)"
    and "queueTransactionEvents env tx n r = (q, r')"
  shows "core_inv env resolve txs r' results p k \<and> (alive p \<longrightarrow> stream_ok env txs r' results p k (after_queue tx n q))"
proof -
  obtain x d where x: "NextEvent (re_source env) (rd_decoder r) = (x, d)"
    by (cases "NextEvent (re_source env) (rd_decoder r)") auto
  have r': "r' = r \<or> r' = r\<lparr>rd_decoder := d\<rparr>"
    using assms(3) x by (auto simp: queueTransactionEvents_def split: if_splits sum.splits option.splits)
  have "decoder_of resolve d"
    using NextEvent_decoder_of [OF x] assms(1) by (simp add: core_inv_def)
  with r' assms(1) have core: "core_inv env resolve txs r' results p k"
    by (auto simp: core_inv_def)
  have q': "queued env txs r' results p k = queued env txs r results p k"
    using r' by (intro queued_durable) auto
  have "stream_ok env txs r' results p k (after_queue tx n q)" if live: "alive p"
  proof -
    obtain before es1 es2 todo where h: "queued env txs r results p k before ((tx, es1 @ es2) # todo)" "n = Suc (length es1)"
        "pulls env (nat (ct_Count tx) - length es1) (rd_decoder r) (rd_connection r) es2 todo" "handed env es1 p k"
      using assms(2) live by auto
    show ?thesis
      by (rule pulls_queue [OF h(3,2) assms(3)]) (use h q' in auto)
  qed
  with core show ?thesis by blast
qed

text \<open>Handing over: an event is published next; a descriptor stands for a transaction that is in the log.\<close>

lemma delivered_before_covered:
  assumes "in_commit_order txs" and "txs = before @ (tx, es) # todo" and "\<forall>x \<in> set before. delivered env (snd x) k" and "delivered env es k"
  shows "covered env txs (ct_EndLSN tx) k"
  unfolding covered_def
proof (clarify)
  fix tx' es'
  assume "(tx', es') \<in> set txs" "ct_EndLSN tx' \<le> ct_EndLSN tx"
  then have "(tx', es') \<in> set before \<or> (tx', es') = (tx, es)"
    using in_commit_order_before assms(1,2) by blast
  with assms(3,4) show "delivered env es' k" by auto
qed

lemma hand_result:
  assumes "serves env resolve txs" and "core_inv env resolve txs r results Idle k"
    and "stream_ok env txs r results Idle k (Handing work tx n)"
  shows "core_inv env resolve txs r results (publisher_takes work) k \<and>
    stream_ok env txs r results (publisher_takes work) k (after_send work tx n (SendReturns None))"
proof (cases work)
  case (EventWork e)
  obtain before es1 es2 todo where h: "queued env txs r results Idle k before ((tx, es1 @ e # es2) # todo)" "n = Suc (length es1)"
      "pulls env (nat (ct_Count tx) - n) (rd_decoder r) (rd_connection r) es2 todo" "delivered env es1 k"
    using assms(3) EventWork by auto
  have "core_inv env resolve txs r results (Publishing e) k"
    using assms(2) by (auto simp: core_inv_def)
  moreover have "queued env txs r results (Publishing e) k before ((tx, (es1 @ [e]) @ es2) # todo)"
    using h(1) by (auto simp: queued_def)
  then have "stream_ok env txs r results (Publishing e) k (Queueing tx (Suc n))"
    unfolding stream_ok.simps using h
    by (intro exI [of _ before] exI [of _ "es1 @ [e]"] exI [of _ es2] exI [of _ todo]) simp
  ultimately show ?thesis
    using EventWork by simp
next
  case (TxWork tx')
  obtain before es todo where h: "tx' = tx" "queued env txs r results Idle k before ((tx, es) # todo)"
      "reads env (rd_decoder r) (rd_connection r) todo" "delivered env es k"
    using assms(3) TxWork by auto
  let ?p = "Replying \<lparr>pr_transaction = tx, pr_err = None\<rparr> False"
  have order: "in_commit_order txs"
    using assms(1) by (simp add: serves_def)
  have cov: "covered env txs (ct_EndLSN tx) k"
    using delivered_before_covered [OF order _ _ h(4)] h(2) unfolding queued_def by blast
  have ch: "chain txs ((durable r # map ct_EndLSN (acks_of results) @ [ct_EndLSN tx]) @ ends todo)"
    using h(2) by (auto simp: queued_def)
  from chain_append [OF ch] have "chain txs (durable r # map ct_EndLSN (acks_of results) @ [ct_EndLSN tx])"
    by simp
  with assms(2) cov have "core_inv env resolve txs r results ?p k"
    by (auto simp: core_inv_def)
  moreover have "queued env txs r results ?p k (before @ [(tx, es)]) todo"
    using h ch by (auto simp: queued_def)
  ultimately show ?thesis
    using TxWork h(1,3) by auto
qed

text \<open>The other cases of the \<open>select\<close>.\<close>

lemma after_send_returned: "after_send work tx n (SendReturns (Some e)) = Returned (Some e)"
  by simp

lemma status_result:
  assumes "send_and_rearm env r = (e, r')" and "core_inv env resolve txs r results p k"
    and "alive p \<longrightarrow> stream_ok env txs r results p k (Handing work tx n)"
  shows "core_inv env resolve txs r' results p k \<and>
    (alive p \<longrightarrow> stream_ok env txs r' results p k
      (after_send work tx n (case e of None \<Rightarrow> SendAgain | Some err \<Rightarrow> SendReturns (Some err))))"
  using assms core_same_stream [OF _ send_and_rearm_same [OF assms(1)]] stream_ok_same_stream [OF _ send_and_rearm_same [OF assms(1)]]
  by (cases e) (auto simp del: stream_ok.simps(4,5))

lemma got_result:
  assumes "sendWork env ctx_err (GotResult result) r = (nxt, r')" and "core_inv env resolve txs r (result # results) p k"
    and "alive p \<longrightarrow> stream_ok env txs r (result # results) p k (Handing work tx n)"
  shows "core_inv env resolve txs r' results p k \<and> (alive p \<longrightarrow> stream_ok env txs r' results p k (after_send work tx n nxt))"
proof -
  obtain e r1 where r1: "applyPublicationResult env result r = (e, r1)"
    by (cases "applyPublicationResult env result r") auto
  note ac = apply_core [OF r1 assms(2)]
  show ?thesis
  proof (cases e)
    case (Some err)
    obtain e2 r2 where r2: "recoverPublication env ctx_err r1 = (e2, r2)"
      by (cases "recoverPublication env ctx_err r1") auto
    have "decoder_of resolve (rd_decoder r1)"
      using ac by (auto simp: core_inv_def)
    with r2 have "redialed resolve r1 r2"
      using recoverPublication_redialed by blast
    then have "core_inv env resolve txs r2 results p k"
      using ac core_redialed by blast
    with Some r1 r2 ac assms(1) show ?thesis
      by (auto simp: sendWork_def)
  next
    case None
    obtain e2 r2 where r2: "send_and_rearm env r1 = (e2, r2)"
      by (cases "send_and_rearm env r1") auto
    have nxt: "nxt = (case e2 of None \<Rightarrow> SendAgain | Some err \<Rightarrow> SendReturns (Some err))" "r' = r2"
      using assms(1) r1 r2 None by (auto simp: sendWork_def split: option.splits)
    have "alive p \<longrightarrow> stream_ok env txs r1 results p k (Handing work tx n)"
      using ac assms(3) by (blast intro: stream_ok_moves)
    from status_result [OF r2 _ this] ac nxt show ?thesis
      by blast
  qed
qed

section \<open>Steps of the publisher and crashes\<close>

lemma queued_grows:
  "queued env txs r results p k before todo \<Longrightarrow> log_grows k k' \<Longrightarrow> acks_of (held p') = acks_of (held p) \<Longrightarrow>
   queued env txs r results p' k' before todo"
  by (auto simp: queued_def intro: delivered_grows)

lemma core_grows: "core_inv env resolve txs r results p k \<Longrightarrow> log_grows k k' \<Longrightarrow> core_inv env resolve txs r results p k'"
  by (auto simp: core_inv_def intro: covered_grows)

lemma publish_result:
  assumes "publish_event env topic event k r = (p', k', r')" and "core_inv env resolve txs r results (Publishing event) k"
    and "stream_ok env txs r results (Publishing event) k c"
  shows "core_inv env resolve txs r' results p' k' \<and> (alive p' \<longrightarrow> stream_ok env txs r' results p' k' c) \<and> length (acks_of (held p')) = 0"
proof -
  note p = publish_event_cases [OF assms(1)]
  have r': "durable r' = durable r" "rd_decoder r' = rd_decoder r" "rd_connection r' = rd_connection r" "rd_slot r' = rd_slot r"
    using p by auto
  have grown: "core_inv env resolve txs r results (Publishing event) k'"
    using core_grows [OF assms(2)] p by blast
  have acks: "acks_of (held p') = []"
    using p by auto
  have core: "core_inv env resolve txs r' results p' k'"
    using grown r' p by (auto simp: core_inv_def)
  have "stream_ok env txs r' results p' k' c" if "p' = Idle" and del: "\<And>es. delivered env es k \<Longrightarrow> delivered env (es @ [event]) k'"
  proof -
    have q: "queued env txs r results (Publishing event) k before todo \<Longrightarrow> queued env txs r' results Idle k' before todo" for before todo
      using queued_grows [of env txs r results "Publishing event" k before todo k' Idle] p queued_durable [OF r'(1)] by simp
    have h: "handed env es (Publishing event) k \<Longrightarrow> handed env es Idle k'" for es
      using del by auto
    show ?thesis
      using assms(3) that(1) r' q h
      by (cases "(env, txs, r, results, Publishing event, k, c)" rule: stream_ok.cases) (auto simp del: handed.simps, blast+)
  qed
  with core p acks show ?thesis
    by auto
qed

lemma reply_result:
  assumes "core_inv env resolve txs r [] (Replying result leave) k" and "alive (Replying result leave) \<longrightarrow> stream_ok env txs r [] (Replying result leave) k c"
  defines "p' \<equiv> (if leave then Exited else Idle)"
  shows "core_inv env resolve txs r [result] p' k \<and> (alive p' \<longrightarrow> stream_ok env txs r [result] p' k c)"
proof -
  have core: "core_inv env resolve txs r [result] p' k"
    using assms(1) by (auto simp: core_inv_def p'_def)
  have "stream_ok env txs r [result] Idle k c" if "\<not> leave"
  proof -
    have q: "queued env txs r [] (Replying result leave) k before todo \<Longrightarrow> queued env txs r [result] Idle k before todo" for before todo
      by (auto simp: queued_def)
    show ?thesis
      using assms(2) that q
      by (cases "(env, txs, r, [] :: publicationResult list, Replying result leave, k, c)" rule: stream_ok.cases) (auto, blast+)
  qed
  with core show ?thesis
    by (simp add: p'_def)
qed

lemma cancel_core: "core_inv env resolve txs r results p k \<Longrightarrow> core_inv env resolve txs r results Exited k"
  by (auto simp: core_inv_def dest: chain_append [where ls = "durable r # map ct_EndLSN (acks_of results)", simplified])

lemma new_reader_restarts: "restarts env resolve (new_reader env resolve n l)"
  by (simp add: restarts_def new_reader_def durable_def)

lemma reboot_inv:
  assumes "serves env resolve txs" and "covered env txs (rd_slot (pl_reader s)) (pl_kafka s)"
  shows "pipeline_inv env resolve txs (rebooted env resolve s)"
proof -
  let ?r = "new_reader env resolve (rd_tick (pl_reader s)) (rd_slot (pl_reader s))"
  have core: "core_inv env resolve txs ?r [] Idle (pl_kafka s)"
    using assms(2) by (simp add: core_inv_def new_reader_def durable_def fresh_decoder_of)
  have "stream_ok env txs ?r [] Idle (pl_kafka s) AtTop"
    by (rule restarts_at_top [OF assms(1) core new_reader_restarts]) simp_all
  with core show ?thesis
    by (simp add: pipeline_inv_def rebooted_def)
qed

section \<open>All steps\<close>

lemma pipeline_inv_stream:
  assumes "pipeline_inv env resolve txs s" and "serves env resolve txs"
    and "stream_result env resolve txs (pl_publisher s) (pl_kafka s) (nxt, results, r)"
  shows "pipeline_inv env resolve txs (s\<lparr>pl_reader := r, pl_control := after_stream nxt, pl_results := results\<rparr>)"
proof -
  have "length (held (pl_publisher s)) \<le> 1"
    by (cases "pl_publisher s") auto
  with assms(3) show ?thesis
    by (auto simp: pipeline_inv_def stream_result_def)
qed

lemma logical_message_inv:
  assumes "serves env resolve txs" and "pipeline_inv env resolve txs s" and "pl_control s = AtReceive"
    and "rd_connection (pl_reader s) = Some (m # ms)"
    and msg: "on_logical_message env walStart m ((pl_reader s)\<lparr>rd_connection := Some ms\<rparr>) = (nxt, r)"
  shows "pipeline_inv env resolve txs (s\<lparr>pl_reader := r, pl_control := after_stream nxt\<rparr>)"
proof -
  have core: "core_inv env resolve txs (pl_reader s) (pl_results s) (pl_publisher s) (pl_kafka s)"
    using assms(2) by (simp add: pipeline_inv_def)
  have r: "durable r = durable (pl_reader s)" "rd_slot r = rd_slot (pl_reader s)"
      "rd_decoder r = snd (Handle (re_source env) (rd_decoder (pl_reader s)) m)" "nxt \<noteq> Receive"
    using msg by (auto simp: on_logical_message_def split: sum.splits prod.splits option.splits)
  have "core_inv env resolve txs r (pl_results s) (pl_publisher s) (pl_kafka s)"
    using core r by (simp add: core_inv_def Handle_decoder_of)
  moreover have "stream_ok env txs r (pl_results s) (pl_publisher s) (pl_kafka s) (after_stream nxt)" if "alive (pl_publisher s)"
  proof -
    have "stream_ok env txs (pl_reader s) (pl_results s) (pl_publisher s) (pl_kafka s) AtReceive"
      using assms(2) that assms(3) by (simp add: pipeline_inv_def del: stream_ok.simps)
    with on_logical_message_result [OF core _ _ _ msg] assms(4) show ?thesis
      by auto
  qed
  moreover have "after_stream nxt \<noteq> AtReceive"
    using r(4) by (cases nxt) auto
  ultimately show ?thesis
    by (simp add: pipeline_inv_def)
qed

lemma after_send_not_receiving: "after_send work tx n nxt \<noteq> AtReceive"
  by (cases "(work, tx, n, nxt)" rule: after_send.cases) auto

lemma status_sent_inv:
  assumes "pipeline_inv env resolve txs s" and "pl_control s = Handing work tx n"
    and "sendWork env ctx_err StatusTimer (pl_reader s) = (nxt, r)"
  shows "pipeline_inv env resolve txs (s\<lparr>pl_reader := r, pl_control := after_send work tx n nxt\<rparr>)"
proof -
  obtain e r1 where r1: "send_and_rearm env (pl_reader s) = (e, r1)"
    by (cases "send_and_rearm env (pl_reader s)") auto
  then have "nxt = (case e of None \<Rightarrow> SendAgain | Some err \<Rightarrow> SendReturns (Some err))" "r = r1"
    using assms(3) by (auto simp: sendWork_def split: option.splits)
  moreover have "core_inv env resolve txs (pl_reader s) (pl_results s) (pl_publisher s) (pl_kafka s)"
      "alive (pl_publisher s) \<longrightarrow> stream_ok env txs (pl_reader s) (pl_results s) (pl_publisher s) (pl_kafka s) (Handing work tx n)"
    using assms(1,2) by (simp_all add: pipeline_inv_def del: stream_ok.simps)
  note status_result [OF r1 this]
  ultimately show ?thesis
    using after_send_not_receiving by (simp add: pipeline_inv_def del: stream_ok.simps)
qed

lemma pipeline_inv_step:
  assumes "serves env resolve txs" and "pipeline_step env topic resolve s t" and "pipeline_inv env resolve txs s"
  shows "pipeline_inv env resolve txs t"
proof -
  have core: "core_inv env resolve txs (pl_reader s) (pl_results s) (pl_publisher s) (pl_kafka s)"
    and ok: "alive (pl_publisher s) \<longrightarrow>
      stream_ok env txs (pl_reader s) (pl_results s) (pl_publisher s) (pl_kafka s) (pl_control s)"
    using assms(3) by (simp_all add: pipeline_inv_def)
  have slot: "covered env txs (rd_slot (pl_reader s)) (pl_kafka s)"
    using core covered_le by (metis core_inv_def)
  from assms(2) show ?thesis
  proof cases
    case (step_top ctx_err nxt results r)
    then show ?thesis
      using pipeline_inv_stream [OF assms(3,1)] after_drain_result [of env resolve txs _ _ _ _ Receive] assms(3)
      by (metis pipeline_inv_def stream_top_drains)
  next
    case (step_receive msg ctx_err nxt results r)
    then show ?thesis
      using pipeline_inv_stream [OF assms(3,1)] on_received_result [OF assms(1)] assms(3)
      by (metis at_top_same pipeline_inv_def)
  next
    case (step_message m ms ctx_err walStart nxt results r)
    then show ?thesis
      using logical_message_inv [OF assms(1,3) step_message(2,3)] by (auto split: prod.splits)
  next
    case (step_queue tx n q r)
    have "after_queue tx n q \<noteq> AtReceive"
      by (cases q) auto
    then show ?thesis
      using step_queue(1) queue_result [OF core ok [unfolded step_queue(2)] step_queue(3)] by (simp add: pipeline_inv_def)
  next
    case (step_hand work tx n ctx_err nxt' r)
    then show ?thesis
      using hand_result [OF assms(1) core [unfolded step_hand(3)], of work tx n] ok after_send_not_receiving
      by (simp add: pipeline_inv_def sendWork_def del: stream_ok.simps)
  next
    case (step_result work tx n result results ctx_err nxt' r)
    then show ?thesis
      using got_result [OF step_result(4) core [unfolded step_result(3)] ok [unfolded step_result(2,3)]] after_send_not_receiving
      by (simp add: pipeline_inv_def)
  next
    case (step_status work tx n ctx_err nxt' r)
    then show ?thesis
      using status_sent_inv [OF assms(3)] by simp
  next
    case (step_done work tx n ctx_err e nxt' r)
    then show ?thesis
      using assms(3) by (auto simp: pipeline_inv_def sendWork_def)
  next
    case (step_publish event p k r)
    moreover have "length (held p) \<le> 1"
      by (cases p) auto
    moreover have "pl_control s \<noteq> AtReceive"
      using ok step_publish(2) by auto
    ultimately show ?thesis
      using publish_result [OF step_publish(3)] assms(3) by (auto simp: pipeline_inv_def)
  next
    case (step_reply result leave)
    then show ?thesis
      using reply_result [of env resolve txs "pl_reader s" result leave "pl_kafka s" "pl_control s"] assms(3)
      by (auto simp: pipeline_inv_def)
  next
    case step_cancel
    then show ?thesis
      using assms(3) by (auto simp: pipeline_inv_def intro: cancel_core)
  next
    case step_crash
    then show ?thesis
      using reboot_inv [OF assms(1)] slot by simp
  next
    case (step_crash_publishing event attempts)
    then show ?thesis
      using reboot_inv [OF assms(1)] covered_grows [OF slot attempts_grow] by simp
  qed
qed

text \<open>The reader's runs keep the invariant: it is one of the step relations of \<open>step_invariant\<close>.\<close>

definition committed_after :: "(committed_transaction \<times> event list) list \<Rightarrow> lsn \<Rightarrow> bool" where
  "committed_after txs l \<longleftrightarrow> (\<forall>(tx, es) \<in> set txs. l < ct_EndLSN tx)"

lemma new_pipeline_inv:
  assumes "serves env resolve txs" and "committed_after txs l" and "new_pipeline env resolve l s"
  shows "pipeline_inv env resolve txs s"
proof -
  have "rebooted env resolve s = s" "rd_slot (pl_reader s) = l"
    using assms(3) by (simp_all add: new_pipeline_def rebooted_def new_reader_def)
  moreover have "covered env txs l (pl_kafka s)"
    using assms(2) by (force simp: covered_def committed_after_def)
  ultimately show ?thesis
    using reboot_inv [OF assms(1), of s] by simp
qed

interpretation pipeline: step_invariant "new_pipeline env resolve l" "pipeline_step env topic resolve"
  "\<lambda>s. serves env resolve txs \<and> committed_after txs l \<longrightarrow> pipeline_inv env resolve txs s" for env topic resolve txs l
  by unfold_locales (auto intro: new_pipeline_inv pipeline_inv_step)

text \<open>What the position reported for the slot covers is in the log.\<close>

lemma slot_delivered:
  assumes "pipeline_inv env resolve txs s" and "(tx, es) \<in> set txs" and "ct_EndLSN tx \<le> rd_slot (pl_reader s)"
  shows "delivered env es (pl_kafka s)"
proof -
  have "covered env txs (durable (pl_reader s)) (pl_kafka s)" "rd_slot (pl_reader s) \<le> durable (pl_reader s)"
    using assms(1) unfolding pipeline_inv_def core_inv_def by blast+
  with covered_le assms(2,3) show ?thesis
    unfolding covered_def by blast
qed

end
