(* ===== verification/Reader_Samples.thy ===== *)
theory Reader_Samples
  imports Pipeline_Correct Source_Properties
begin

text \<open>
  A concrete source for the witnesses: one transaction of two inserts, Kafka that answers, and an
  executable scheduler of the reader's goroutines.
\<close>

section \<open>A scheduler\<close>

datatype choice = DoTop | DoMessage | DoQueue | DoHand | DoResult | DoPublish | DoReply | DoCrash

text \<open>One step, or none when the choice is not possible; contexts do not end.\<close>

fun pick ::
  "reader_env \<Rightarrow> string \<Rightarrow> (string \<Rightarrow> string \<Rightarrow> string list) \<Rightarrow> choice \<Rightarrow> pipeline \<Rightarrow> pipeline" where
  "pick env topic resolve DoTop s =
     (case pl_control s of
        AtTop \<Rightarrow> (case stream_top env None (pl_results s) (pl_reader s) of
                    (nxt, results, r) \<Rightarrow> s\<lparr>pl_reader := r, pl_control := after_stream nxt, pl_results := results\<rparr>)
      | _ \<Rightarrow> s)"
| "pick env topic resolve DoMessage s =
     (case (pl_control s, rd_connection (pl_reader s)) of
        (AtReceive, Some (m # ms)) \<Rightarrow>
          (case on_received env None (XLogData (Inr (0, Inr m))) (pl_results s) ((pl_reader s)\<lparr>rd_connection := Some ms\<rparr>) of
             (nxt, results, r) \<Rightarrow> s\<lparr>pl_reader := r, pl_control := after_stream nxt, pl_results := results\<rparr>)
      | _ \<Rightarrow> s)"
| "pick env topic resolve DoQueue s =
     (case pl_control s of
        Queueing tx n \<Rightarrow> (case queueTransactionEvents env tx n (pl_reader s) of
                            (q, r) \<Rightarrow> s\<lparr>pl_reader := r, pl_control := after_queue tx n q\<rparr>)
      | _ \<Rightarrow> s)"
| "pick env topic resolve DoHand s =
     (case (pl_control s, pl_publisher s) of
        (Handing work tx n, Idle) \<Rightarrow>
          (case sendWork env None WorkTaken (pl_reader s) of
             (nxt, r) \<Rightarrow> s\<lparr>pl_reader := r, pl_control := after_send work tx n nxt, pl_publisher := publisher_takes work\<rparr>)
      | _ \<Rightarrow> s)"
| "pick env topic resolve DoResult s =
     (case (pl_control s, pl_results s) of
        (Handing work tx n, result # results) \<Rightarrow>
          (case sendWork env None (GotResult result) (pl_reader s) of
             (nxt, r) \<Rightarrow> s\<lparr>pl_reader := r, pl_control := after_send work tx n nxt, pl_results := results\<rparr>)
      | _ \<Rightarrow> s)"
| "pick env topic resolve DoPublish s =
     (case pl_publisher s of
        Publishing event \<Rightarrow> (case publish_event env topic event (pl_kafka s) (pl_reader s) of
                              (p, k, r) \<Rightarrow> s\<lparr>pl_reader := r, pl_publisher := p, pl_kafka := k\<rparr>)
      | _ \<Rightarrow> s)"
| "pick env topic resolve DoReply s =
     (case (pl_publisher s, pl_results s) of
        (Replying result leave, []) \<Rightarrow> s\<lparr>pl_results := [result], pl_publisher := (if leave then Exited else Idle)\<rparr>
      | _ \<Rightarrow> s)"
| "pick env topic resolve DoCrash s = rebooted env resolve s"

definition schedule ::
  "reader_env \<Rightarrow> string \<Rightarrow> (string \<Rightarrow> string \<Rightarrow> string list) \<Rightarrow> choice list \<Rightarrow> pipeline \<Rightarrow> pipeline" where
  "schedule env topic resolve cs s = fold (pick env topic resolve) cs s"

lemma pick_step: "pick env topic resolve c s = s \<or> pipeline_step env topic resolve s (pick env topic resolve c s)"
  by (cases c; cases "pl_control s"; cases "pl_publisher s"; cases "pl_results s"; cases "rd_connection (pl_reader s)")
    (auto simp del: on_received.simps split: prod.split list.split split del: if_split
      intro: pipeline_step.intros)

lemma pick_steps: "(pipeline_step env topic resolve)\<^sup>*\<^sup>* s (pick env topic resolve c s)"
  using pick_step [of env topic resolve c s] by auto

lemma schedule_steps: "(pipeline_step env topic resolve)\<^sup>*\<^sup>* s (schedule env topic resolve cs s)"
  unfolding schedule_def
proof (induction cs arbitrary: s)
  case (Cons c cs)
  show ?case
    using rtranclp_trans [OF pick_steps Cons.IH] by simp
qed simp

section \<open>A source\<close>

definition sample_resolve :: "string \<Rightarrow> string \<Rightarrow> string list" where
  "sample_resolve namespace relation = [''id'']"

definition two_inserts :: "message list" where
  "two_inserts = [RelationMsg users_relation, BeginMsg 9, users_insert, users_insert, CommitMsg (LSN 16) (LSN 32) 5]"

definition insert_event :: "nat \<Rightarrow> event" where
  "insert_event n = event_of sample_source (descriptor 9 (LSN 16) (LSN 32) 5 2) n users_change"

definition sample_committed :: "(committed_transaction \<times> event list) list" where
  "sample_committed = [(descriptor 9 (LSN 16) (LSN 32) 5 2, [insert_event 1, insert_event 2])]"

text \<open>Kafka records carry the sequence number as their value.\<close>

definition sample_reader :: "(nat \<Rightarrow> (goerr \<times> bool) option) \<Rightarrow> reader_env" where
  "sample_reader produce =
     \<lparr>re_source = sample_source, re_connect = (\<lambda>_. None), re_start = (\<lambda>_. None),
      re_stream = (\<lambda>l. if l < LSN 32 then two_inserts else []), re_standby = (\<lambda>_. None), re_produce = produce,
      re_marshal = (\<lambda>e. Inr (itoa (Sequence (Source e)))), re_parse_lsn = (\<lambda>_. None), re_wait = (\<lambda>_ _. None), re_rnd = (\<lambda>_. 0),
      re_now = int, re_retention = 0\<rparr>"

definition sample_start :: "(nat \<Rightarrow> (goerr \<times> bool) option) \<Rightarrow> pipeline" where
  "sample_start produce =
     \<lparr>pl_reader = new_reader (sample_reader produce) sample_resolve 0 (LSN 8), pl_control = AtTop, pl_publisher = Idle,
      pl_results = [], pl_kafka = ([], 0)\<rparr>"

lemma sample_start_new: "new_pipeline (sample_reader produce) sample_resolve (LSN 8) (sample_start produce)"
  by (simp add: new_pipeline_def sample_start_def)

lemma two_inserts_decode:
  assumes "fresh_decoder sample_resolve d"
  shows "decode_all sample_source d two_inserts = Some sample_committed"
proof -
  obtain ks files where d: "d = \<lparr>relations = Map.empty, keys = ks, identity = Some sample_resolve, transaction = None, pull = None,
      spoolCap = DefaultSpoolCap, temp_files = files\<rparr>"
    using assms by (cases d) (auto simp: fresh_decoder_def)
  show ?thesis
    unfolding d by code_simp
qed

lemma sample_serves: "serves (sample_reader produce) sample_resolve sample_committed"
  unfolding serves_def
proof (intro conjI allI impI)
  show "in_commit_order sample_committed"
    by (simp add: in_commit_order_def sample_committed_def)
next
  fix l d
  assume "fresh_decoder sample_resolve d"
  from two_inserts_decode [OF this] show "decode_all (re_source (sample_reader produce)) d (re_stream (sample_reader produce) l) =
      Some (filter (\<lambda>(tx, es). l < ct_EndLSN tx) sample_committed)"
    by (simp add: sample_reader_def) (simp add: sample_committed_def descriptor_def)
qed

lemma sample_committed_after: "committed_after sample_committed (LSN 8)"
  by (simp add: committed_after_def sample_committed_def descriptor_def)

text \<open>The run in which everything goes well, to the point where the slot has moved.\<close>

definition good_run :: "choice list" where
  "good_run = concat (replicate 5 [DoTop, DoMessage]) @ concat (replicate 2 [DoQueue, DoHand, DoPublish]) @
     [DoQueue, DoHand, DoReply, DoTop]"

end
