(* ===== verification/Quiet_Reader.thy ===== *)
theory Quiet_Reader
  imports Pipeline_Correct
begin

text \<open>
  The reader on a quiet day: nothing crashes, no context ends, the replication connection holds and
  Kafka takes what it is given. Then the log is, record by record, the events of the committed
  transactions in order: the topic that the destination writer expects.
\<close>

section \<open>Quiet runs\<close>

text \<open>A keepalive or a timeout of the receive call: what else may arrive between messages.\<close>

fun idle_message :: "received \<Rightarrow> bool" where
  "idle_message (PrimaryKeepalive (Inr _)) \<longleftrightarrow> True"
| "idle_message (ReceiveError _ timeout) \<longleftrightarrow> timeout"
| "idle_message NoCopyData \<longleftrightarrow> True"
| "idle_message OtherByte \<longleftrightarrow> True"
| "idle_message _ \<longleftrightarrow> False"

inductive quiet_step :: "reader_env \<Rightarrow> string \<Rightarrow> pipeline \<Rightarrow> pipeline \<Rightarrow> bool"
  for env topic where
  quiet_top: "pl_control s = AtTop \<Longrightarrow> stream_top env None (pl_results s) (pl_reader s) = (nxt, results, r)
    \<Longrightarrow> quiet_step env topic s (s\<lparr>pl_reader := r, pl_control := after_stream nxt, pl_results := results\<rparr>)"
| quiet_receive: "pl_control s = AtReceive \<Longrightarrow> idle_message msg
    \<Longrightarrow> on_received env None msg (pl_results s) (pl_reader s) = (nxt, results, r)
    \<Longrightarrow> quiet_step env topic s (s\<lparr>pl_reader := r, pl_control := after_stream nxt, pl_results := results\<rparr>)"
| quiet_message: "pl_control s = AtReceive \<Longrightarrow> rd_connection (pl_reader s) = Some (m # ms)
    \<Longrightarrow> on_logical_message env walStart m ((pl_reader s)\<lparr>rd_connection := Some ms\<rparr>) = (nxt, r)
    \<Longrightarrow> quiet_step env topic s (s\<lparr>pl_reader := r, pl_control := after_stream nxt\<rparr>)"
| quiet_queue: "pl_control s = Queueing tx n \<Longrightarrow> queueTransactionEvents env tx n (pl_reader s) = (q, r)
    \<Longrightarrow> quiet_step env topic s (s\<lparr>pl_reader := r, pl_control := after_queue tx n q\<rparr>)"
| quiet_hand: "pl_control s = Handing work tx n \<Longrightarrow> pl_publisher s = Idle
    \<Longrightarrow> quiet_step env topic s
          (s\<lparr>pl_control := after_send work tx n (SendReturns None), pl_publisher := publisher_takes work\<rparr>)"
| quiet_result: "pl_control s = Handing work tx n \<Longrightarrow> pl_results s = result # results
    \<Longrightarrow> sendWork env None (GotResult result) (pl_reader s) = (nxt', r)
    \<Longrightarrow> quiet_step env topic s (s\<lparr>pl_reader := r, pl_control := after_send work tx n nxt', pl_results := results\<rparr>)"
| quiet_status: "pl_control s = Handing work tx n \<Longrightarrow> sendWork env None StatusTimer (pl_reader s) = (nxt', r)
    \<Longrightarrow> quiet_step env topic s (s\<lparr>pl_reader := r, pl_control := after_send work tx n nxt'\<rparr>)"
| quiet_publish: "pl_publisher s = Publishing event \<Longrightarrow> publish_event env topic event (pl_kafka s) (pl_reader s) = (p, k, r)
    \<Longrightarrow> quiet_step env topic s (s\<lparr>pl_reader := r, pl_publisher := p, pl_kafka := k\<rparr>)"
| quiet_reply: "pl_publisher s = Replying result leave \<Longrightarrow> pl_results s = []
    \<Longrightarrow> quiet_step env topic s (s\<lparr>pl_results := [result], pl_publisher := (if leave then Exited else Idle)\<rparr>)"

lemma idle_not_logical: "idle_message msg \<Longrightarrow> \<not> logical msg"
  by (cases msg rule: idle_message.cases) auto

lemma quiet_step_is_step: "quiet_step env topic s t \<Longrightarrow> pipeline_step env topic resolve s t"
proof (induction rule: quiet_step.induct)
  case (quiet_message s m ms walStart nxt r)
  then show ?case
    using step_message [of s m ms env None walStart nxt "pl_results s" r] by simp
next
  case (quiet_hand s work tx n)
  then show ?case
    using step_hand [of s work tx n env None "SendReturns None" "pl_reader s"] by (simp add: sendWork_def)
next
  case (quiet_receive s msg nxt results r)
  then show ?case
    using step_receive idle_not_logical by blast
next
  case (quiet_reply s result leave)
  then show ?case by (rule step_reply)
qed (auto intro: pipeline_step.intros)

lemma quiet_steps_are_steps: "(quiet_step env topic)\<^sup>*\<^sup>* s t \<Longrightarrow> (pipeline_step env topic resolve)\<^sup>*\<^sup>* s t"
  by (rule mono_rtranclp [rule_format]) (rule quiet_step_is_step)

text \<open>Kafka takes every record the first time, and every event has a JSON form.\<close>

definition kafka_up :: "reader_env \<Rightarrow> bool" where
  "kafka_up env \<longleftrightarrow> (\<forall>n. re_produce env n = None) \<and> (\<forall>e. \<exists>payload. re_marshal env e = Inr payload)"

section \<open>The exact log\<close>

text \<open>The record that stands for an event, and the log of events that have all been published once.\<close>

definition record_for :: "reader_env \<Rightarrow> string \<Rightarrow> event \<Rightarrow> kafka_message" where
  "record_for env topic e = kafka_record_of topic e (case re_marshal env e of Inl _ \<Rightarrow> [] | Inr payload \<Rightarrow> payload)"

definition published :: "reader_env \<Rightarrow> string \<Rightarrow> kafka_message list \<Rightarrow> event list \<Rightarrow> kafka_log \<Rightarrow> bool" where
  "published env topic base es k \<longleftrightarrow> fst k = base @ map (record_for env topic) es"

text \<open>The events handed over are in the log, but for the one the publisher is working on.\<close>

fun logged :: "reader_env \<Rightarrow> string \<Rightarrow> kafka_message list \<Rightarrow> event list \<Rightarrow> publisher \<Rightarrow> kafka_log \<Rightarrow> bool" where
  "logged env topic base es (Publishing e) k \<longleftrightarrow> (\<exists>es0. es = es0 @ [e] \<and> published env topic base es0 k)"
| "logged env topic base es p k \<longleftrightarrow> published env topic base es k"

abbreviation all_events :: "(committed_transaction \<times> event list) list \<Rightarrow> event list" where
  "all_events txs \<equiv> concat (map snd txs)"

fun log_ok ::
  "reader_env \<Rightarrow> string \<Rightarrow> kafka_message list \<Rightarrow> (committed_transaction \<times> event list) list \<Rightarrow> reader \<Rightarrow> publisher \<Rightarrow> kafka_log \<Rightarrow> control \<Rightarrow> bool" where
  "log_ok env topic base txs r p k (Queueing tx n) \<longleftrightarrow>
     (\<exists>before es1 es2 todo. txs = before @ (tx, es1 @ es2) # todo \<and> n = Suc (length es1) \<and>
        pulls env (nat (ct_Count tx) - length es1) (rd_decoder r) (rd_connection r) es2 todo \<and>
        logged env topic base (all_events before @ es1) p k)"
| "log_ok env topic base txs r p k (Handing (EventWork e) tx n) \<longleftrightarrow>
     (\<exists>before es1 es2 todo. txs = before @ (tx, es1 @ e # es2) # todo \<and> n = Suc (length es1) \<and>
        pulls env (nat (ct_Count tx) - n) (rd_decoder r) (rd_connection r) es2 todo \<and>
        logged env topic base (all_events before @ es1) p k)"
| "log_ok env topic base txs r p k (Handing (TxWork tx') tx n) \<longleftrightarrow>
     (\<exists>before es todo. txs = before @ (tx, es) # todo \<and> reads env (rd_decoder r) (rd_connection r) todo \<and>
        logged env topic base (all_events before @ es) p k)"
| "log_ok env topic base txs r p k (Returned e) \<longleftrightarrow> (\<exists>es rest. all_events txs = es @ rest \<and> logged env topic base es p k)"
| "log_ok env topic base txs r p k control \<longleftrightarrow>
     (\<exists>before todo. txs = before @ todo \<and> reads env (rd_decoder r) (rd_connection r) todo \<and> logged env topic base (all_events before) p k)"

definition quiet_inv :: "reader_env \<Rightarrow> string \<Rightarrow> kafka_message list \<Rightarrow> (committed_transaction \<times> event list) list \<Rightarrow> pipeline \<Rightarrow> bool" where
  "quiet_inv env topic base txs s \<longleftrightarrow> alive (pl_publisher s) \<and> log_ok env topic base txs (pl_reader s) (pl_publisher s) (pl_kafka s) (pl_control s)"

text \<open>\<open>log_ok\<close> reads the reader only through its stream.\<close>

definition same_source :: "reader \<Rightarrow> reader \<Rightarrow> bool" where
  "same_source r r' \<longleftrightarrow> rd_decoder r' = rd_decoder r \<and> rd_connection r' = rd_connection r"

lemma log_ok_same: "log_ok env topic base txs r p k c \<Longrightarrow> same_source r r' \<Longrightarrow> log_ok env topic base txs r' p k c"
  by (cases "(env, topic, base, txs, r, p, k, c)" rule: log_ok.cases) (auto simp: same_source_def)

lemma log_ok_returned: "log_ok env topic base txs r p k c \<Longrightarrow> log_ok env topic base txs r' p k (Returned e)"
  by (cases "(env, topic, base, txs, r, p, k, c)" rule: log_ok.cases) (auto intro: exI [of _ "[]"], (metis append.assoc)+)

lemma log_ok_receive: "log_ok env topic base txs r p k AtReceive = log_ok env topic base txs r p k AtTop"
  by simp

lemma same_stream_source: "same_stream r r' \<Longrightarrow> same_source r r'"
  by (simp add: same_stream_def same_source_def)

lemma send_and_rearm_source: "send_and_rearm env r = (e, r') \<Longrightarrow> same_source r r'"
  by (blast intro: same_stream_source send_and_rearm_same)

section \<open>Keeping it\<close>

text \<open>A drain finds only acknowledgements that are in order, so the stream goes on as it was.\<close>

lemma drain_source:
  assumes "after_drain env ctx_err report nxt results r = (nxt', rest, r')" and "core_inv env resolve txs0 r results p k" and "alive p"
  shows "same_source r r' \<and> (nxt' = nxt \<or> (\<exists>err. nxt' = Return err))"
proof -
  obtain x rest1 r1 where d: "drain_results env False results r = (x, rest1, r1)"
    by (cases "drain_results env False results r") auto
  note dc = drain_core [OF d assms(2)]
  then obtain b where x: "x = Inr b"
    using assms(3) by (cases x) auto
  have r1: "same_source r r1"
    using dc by (simp add: same_source_def)
  obtain e r2 where e: "send_and_rearm env r1 = (e, r2)"
    by (cases "send_and_rearm env r1") auto
  have "r' \<in> {r1, r2} \<and> (nxt' = nxt \<or> (\<exists>err. nxt' = Return err))"
    using assms(1) d x e by (auto simp: after_drain_def drainPublicationResults_def split: if_splits option.splits)
  then show ?thesis
    using r1 send_and_rearm_source [OF e] by (auto simp: same_source_def)
qed

lemma drain_log_ok:
  assumes "after_drain env ctx_err report nxt results r = (nxt', rest, r')" and "core_inv env resolve txs0 r results p k"
    and "alive p" and "nxt \<in> {Receive, NextIteration}" and "log_ok env topic base txs r p k AtTop"
  shows "log_ok env topic base txs r' p k (after_stream nxt')"
proof -
  have "log_ok env topic base txs r' p k AtTop" and nxt: "nxt' = nxt \<or> (\<exists>err. nxt' = Return err)"
    using log_ok_same [OF assms(5)] drain_source [OF assms(1-3)] by blast+
  then show ?thesis
    using assms(4) log_ok_receive [of env topic base txs r' p k] log_ok_returned [of env topic base txs r' p k AtTop] by (auto simp del: log_ok.simps)
qed

lemma message_log_ok:
  assumes "reads env (rd_decoder r) (Some (m # ms)) todo" and "txs = before @ todo" and "logged env topic base (all_events before) p k"
    and "on_logical_message env walStart m (r\<lparr>rd_connection := Some ms\<rparr>) = (nxt, r')"
  shows "log_ok env topic base txs r' p k (after_stream nxt)"
proof -
  obtain h d where h: "Handle (re_source env) (rd_decoder r) m = (h, d)"
    by (cases "Handle (re_source env) (rd_decoder r) m") auto
  consider "h = Inr None" "decode_all (re_source env) d ms = Some todo"
    | tx es d2 todo' where "h = Inr (Some tx)" "pull_n (NextEvent (re_source env)) (nat (ct_Count tx)) d = (Inr es, d2)"
        "todo = (tx, es) # todo'" "decode_all (re_source env) d2 ms = Some todo'"
    using assms(1) h by (auto simp: reads_def split: sum.splits option.splits prod.splits)
  then show ?thesis
  proof cases
    case 1
    then show ?thesis
      using assms h by (auto simp: on_logical_message_def reads_def)
  next
    case 2
    then have "nxt = QueueTransaction tx" "r' = r\<lparr>rd_connection := Some ms, rd_decoder := d\<rparr>"
      using assms(4) h by (simp_all add: on_logical_message_def)
    moreover have "pulls env (nat (ct_Count tx)) d (Some ms) es todo'"
      using 2 by (auto simp: pulls_def reads_def)
    ultimately show ?thesis
      using assms(2,3) 2(3) by (auto intro!: exI [of _ before])
  qed
qed

lemma queue_log_ok:
  assumes "log_ok env topic base txs r p k (Queueing tx n)" and "queueTransactionEvents env tx n r = (q, r')"
  shows "log_ok env topic base txs r' p k (after_queue tx n q)"
proof -
  obtain before es1 es2 todo where h: "txs = before @ (tx, es1 @ es2) # todo" "n = Suc (length es1)"
      "pulls env (nat (ct_Count tx) - length es1) (rd_decoder r) (rd_connection r) es2 todo" "logged env topic base (all_events before @ es1) p k"
    using assms(1) by auto
  show ?thesis
  proof (cases rule: pulls_queue [OF h(3,2) assms(2)])
    case (1 e es3 d)
    with h show ?thesis
      unfolding 1(1) after_queue.simps log_ok.simps
      by (intro exI [of _ before] exI [of _ es1] exI [of _ es3] exI [of _ todo]) simp
  next
    case 2
    with h show ?thesis
      unfolding 2(1) after_queue.simps log_ok.simps
      by (intro exI [of _ before] exI [of _ es1] exI [of _ todo]) simp
  qed
qed

lemma hand_log_ok:
  assumes "log_ok env topic base txs r Idle k (Handing work tx n)"
  shows "log_ok env topic base txs r (publisher_takes work) k (after_send work tx n (SendReturns None))"
proof (cases work)
  case (EventWork e)
  obtain before es1 es2 todo where h: "txs = before @ (tx, es1 @ e # es2) # todo" "n = Suc (length es1)"
      "pulls env (nat (ct_Count tx) - n) (rd_decoder r) (rd_connection r) es2 todo" "published env topic base (all_events before @ es1) k"
    using assms EventWork by auto
  show ?thesis
    unfolding EventWork after_send.simps publisher_takes.simps log_ok.simps using h
    by (intro exI [of _ before] exI [of _ "es1 @ [e]"] exI [of _ es2] exI [of _ todo]) simp
next
  case (TxWork tx')
  obtain before es todo where h: "txs = before @ (tx, es) # todo" "reads env (rd_decoder r) (rd_connection r) todo"
      "published env topic base (all_events before @ es) k"
    using assms TxWork by auto
  show ?thesis
    unfolding TxWork after_send.simps publisher_takes.simps log_ok.simps using h
    by (intro exI [of _ "before @ [(tx, es)]"] exI [of _ todo]) simp
qed

lemma send_log_ok:
  assumes "log_ok env topic base txs r p k (Handing work tx n)" and "same_source r r'" and "nxt = SendAgain \<or> (\<exists>e. nxt = SendReturns (Some e))"
  shows "log_ok env topic base txs r' p k (after_send work tx n nxt)"
  using assms(3) log_ok_same [OF assms(1,2)] log_ok_returned [OF assms(1)] by (auto simp del: log_ok.simps)

lemma result_log_ok:
  assumes "sendWork env ctx_err (GotResult result) r = (nxt, r')" and "core_inv env resolve txs0 r (result # results) p k" and "alive p"
    and "log_ok env topic base txs r p k (Handing work tx n)"
  shows "log_ok env topic base txs r' p k (after_send work tx n nxt)"
proof -
  obtain e r1 where r1: "applyPublicationResult env result r = (e, r1)"
    by (cases "applyPublicationResult env result r") auto
  note ac = apply_core [OF r1 assms(2)]
  then have e: "e = None" and s1: "same_source r r1"
    using assms(3) by (auto simp: same_source_def)
  obtain e2 r2 where r2: "send_and_rearm env r1 = (e2, r2)"
    by (cases "send_and_rearm env r1") auto
  have "same_source r r'" "nxt = SendAgain \<or> (\<exists>e. nxt = SendReturns (Some e))"
    using assms(1) r1 r2 e s1 send_and_rearm_source [OF r2] by (auto simp: sendWork_def same_source_def split: option.splits)
  with send_log_ok assms(4) show ?thesis by blast
qed

lemma publish_event_up:
  assumes "kafka_up env" and "publish_event env topic event k r = (p, k', r')"
  shows "p = Idle \<and> fst k' = fst k @ [record_for env topic event] \<and> same_source r r'"
proof -
  obtain payload where payload: "re_marshal env event = Inr payload"
    using assms(1) by (auto simp: kafka_up_def)
  have "publishTransactionEvent env topic event k = (None, (fst k @ [kafka_record_of topic event payload], Suc (snd k)))"
    using assms(1) payload by (cases k) (simp add: publishTransactionEvent_def kafka_up_def Let_def)
  from retry_first [of "publishTransactionEvent env topic event", OF this] assms(2) payload show ?thesis
    by (auto simp: publish_event_def record_for_def same_source_def)
qed

lemma log_ok_published:
  assumes "log_ok env topic base txs r (Publishing event) k c" and "fst k' = fst k @ [record_for env topic event]" and "same_source r r'"
  shows "log_ok env topic base txs r' Idle k' c"
proof -
  have l: "logged env topic base es (Publishing event) k \<Longrightarrow> logged env topic base es Idle k'" for es
    using assms(2) by (auto simp: published_def)
  have "log_ok env topic base txs r Idle k' c"
    using assms(1) l by (cases "(env, topic, base, txs, r, Publishing event, k, c)" rule: log_ok.cases) (auto simp del: logged.simps, blast+)
  from log_ok_same [OF this assms(3)] show ?thesis .
qed

lemma log_ok_replied: "log_ok env topic base txs r (Replying result leave) k c \<Longrightarrow> log_ok env topic base txs r Idle k c"
  by (cases "(env, topic, base, txs, r, Replying result leave, k, c)" rule: log_ok.cases) auto

section \<open>All steps\<close>

lemma quiet_inv_step:
  assumes "kafka_up env" and "quiet_step env topic s t" and "pipeline_inv env resolve txs0 s" and "quiet_inv env topic base txs s"
  shows "quiet_inv env topic base txs t"
proof -
  have core: "core_inv env resolve txs0 (pl_reader s) (pl_results s) (pl_publisher s) (pl_kafka s)"
    using assms(3) by (simp add: pipeline_inv_def)
  have live: "alive (pl_publisher s)" and ok: "log_ok env topic base txs (pl_reader s) (pl_publisher s) (pl_kafka s) (pl_control s)"
    using assms(4) by (simp_all add: quiet_inv_def)
  from assms(2) show ?thesis
  proof cases
    case (quiet_top nxt results r)
    then show ?thesis
      using drain_log_ok [OF _ core live] live ok by (simp add: quiet_inv_def stream_top_drains)
  next
    case (quiet_receive msg nxt results r)
    have top: "log_ok env topic base txs (pl_reader s) (pl_publisher s) (pl_kafka s) AtTop"
      using ok quiet_receive(2) by simp
    have "log_ok env topic base txs r (pl_publisher s) (pl_kafka s) (after_stream nxt)"
      using quiet_receive(3,4) top drain_log_ok [OF _ core live _ top]
      by (cases msg rule: idle_message.cases) (auto simp: on_keepalive_drains on_timeout_drains split: if_splits simp del: log_ok.simps)
    then show ?thesis
      using live quiet_receive(1) by (simp add: quiet_inv_def)
  next
    case (quiet_message m ms walStart nxt r)
    obtain before todo where "txs = before @ todo" "reads env (rd_decoder (pl_reader s)) (Some (m # ms)) todo"
        "logged env topic base (all_events before) (pl_publisher s) (pl_kafka s)"
      using ok quiet_message(2,3) by auto
    from message_log_ok [OF this(2,1,3) quiet_message(4)] show ?thesis
      using live quiet_message(1) by (simp add: quiet_inv_def del: log_ok.simps)
  next
    case (quiet_queue tx n q r)
    then show ?thesis
      using queue_log_ok [OF _ quiet_queue(3)] live ok by (simp add: quiet_inv_def del: log_ok.simps)
  next
    case (quiet_hand work tx n)
    have "alive (publisher_takes work)"
      by (cases work) auto
    then show ?thesis
      using hand_log_ok ok quiet_hand by (simp add: quiet_inv_def del: log_ok.simps)
  next
    case (quiet_result work tx n result results nxt' r)
    then show ?thesis
      using result_log_ok [OF quiet_result(4) _ live] core live ok by (simp add: quiet_inv_def del: log_ok.simps)
  next
    case (quiet_status work tx n nxt' r)
    obtain e r1 where r1: "send_and_rearm env (pl_reader s) = (e, r1)"
      by (cases "send_and_rearm env (pl_reader s)") auto
    have "same_source (pl_reader s) r" "nxt' = SendAgain \<or> (\<exists>e. nxt' = SendReturns (Some e))"
      using quiet_status(3) r1 send_and_rearm_source [OF r1] by (auto simp: sendWork_def split: option.splits)
    then show ?thesis
      using send_log_ok live ok quiet_status(1,2) by (simp add: quiet_inv_def del: log_ok.simps)
  next
    case (quiet_publish event p k r)
    then show ?thesis
      using publish_event_up [OF assms(1) quiet_publish(3)] ok log_ok_published
      by (simp add: quiet_inv_def del: log_ok.simps)
  next
    case (quiet_reply result leave)
    then show ?thesis
      using live ok log_ok_replied by (simp add: quiet_inv_def del: log_ok.simps)
  qed
qed

text \<open>The two invariants together, from the start of a reader; in the core invariant a living publisher stays.\<close>

lemma new_quiet_inv:
  assumes "serves env resolve txs" and "committed_after txs l" and "new_pipeline env resolve l s"
  shows "quiet_inv env topic [] txs s"
proof -
  have "filter (\<lambda>(tx, es). l < ct_EndLSN tx) txs = txs"
    using assms(2) by (auto simp: filter_id_conv committed_after_def)
  then have "reads env (NewDecoderWithIdentity resolve) (Some (re_stream env l)) txs"
    using assms(1) by (auto simp: reads_def serves_def)
  then have "log_ok env topic [] txs (new_reader env resolve 0 l) Idle ([], 0) AtTop"
    unfolding log_ok.simps by (intro exI [of _ "[]"] exI [of _ txs]) (simp add: new_reader_def published_def)
  then show ?thesis
    using assms(3) by (simp add: quiet_inv_def new_pipeline_def del: log_ok.simps)
qed

interpretation quiet: step_invariant "new_pipeline env resolve l" "quiet_step env topic"
  "\<lambda>s. kafka_up env \<and> serves env resolve txs \<and> committed_after txs l \<longrightarrow> pipeline_inv env resolve txs s \<and> quiet_inv env topic [] txs s"
  for env topic resolve txs l
proof unfold_locales
  fix s
  assume "new_pipeline env resolve l s"
  then show "kafka_up env \<and> serves env resolve txs \<and> committed_after txs l \<longrightarrow> pipeline_inv env resolve txs s \<and> quiet_inv env topic [] txs s"
    using new_pipeline_inv new_quiet_inv by blast
next
  fix s t
  assume inv: "kafka_up env \<and> serves env resolve txs \<and> committed_after txs l \<longrightarrow> pipeline_inv env resolve txs s \<and> quiet_inv env topic [] txs s"
    and step: "quiet_step env topic s t"
  show "kafka_up env \<and> serves env resolve txs \<and> committed_after txs l \<longrightarrow> pipeline_inv env resolve txs t \<and> quiet_inv env topic [] txs t"
    using inv pipeline_inv_step [OF _ quiet_step_is_step [OF step]] quiet_inv_step [OF _ step] by blast
qed

text \<open>Nothing is left to do: the stream is read to its end and the publisher waits.\<close>

definition drained :: "pipeline \<Rightarrow> bool" where
  "drained s \<longleftrightarrow> pl_control s \<in> {AtTop, AtReceive} \<and> pl_publisher s = Idle \<and> rd_connection (pl_reader s) = Some []"

lemma drained_log:
  assumes "quiet_inv env topic base txs s" and "drained s"
  shows "published env topic base (all_events txs) (pl_kafka s)"
  using assms by (auto simp: quiet_inv_def drained_def reads_def)

end
