(* ===== verification/End_To_End.thy ===== *)
theory End_To_End
  imports Quiet_Reader Writer_Progress
begin

text \<open>
  The two programs together: a reader on a quiet day, the Kafka topic it fills, and a destination
  writer that consumes it at the same time and may crash, lose offset commits and restart.
\<close>

section \<open>What the decoder numbers\<close>

definition numbered :: "committed_transaction \<Rightarrow> event list \<Rightarrow> bool" where
  "numbered tx es \<longleftrightarrow> int (length es) = ct_Count tx \<and>
     (\<forall>i < length es. Sequence (Source (es ! i)) = int (Suc i) \<and> TransactionEventCount (Source (es ! i)) = ct_Count tx \<and>
        TransactionID (Source (es ! i)) = ct_TransactionID tx)"

lemma pull_change_keeps: "pull_change env p = Pulled change p' \<Longrightarrow> pull_seq p' = pull_seq p \<and> pull_commit p' = pull_commit p"
  by (auto simp: pull_change_def split: if_splits option.splits prod.splits)

lemma pull_n_numbered:
  "pull_n (NextEvent env) n d = (Inr es, d') \<Longrightarrow> pull d = Some p \<Longrightarrow>
     length es = n \<and> (\<forall>i < n. Sequence (Source (es ! i)) = int (Suc (pull_seq p + i)) \<and>
       TransactionEventCount (Source (es ! i)) = ct_Count (pull_commit p) \<and> TransactionID (Source (es ! i)) = ct_TransactionID (pull_commit p))"
proof (induction n arbitrary: d es p)
  case (Suc n)
  obtain change p' where c: "pull_change env p = Pulled change p'"
    using Suc.prems by (auto simp: NextEvent_def split: pulled.splits)
  let ?e = "event_of env (pull_commit p) (Suc (pull_seq p)) change" and ?p = "p'\<lparr>pull_seq := Suc (pull_seq p)\<rparr>"
  have "NextEvent env d = (Inr (Some ?e), d\<lparr>pull := Some ?p\<rparr>)"
    using Suc.prems(2) c by (simp add: NextEvent_def)
  then obtain es' where es: "es = ?e # es'" "pull_n (NextEvent env) n (d\<lparr>pull := Some ?p\<rparr>) = (Inr es', d')"
    using Suc.prems(1) by (auto split: sum.splits prod.splits)
  have "pull (d\<lparr>pull := Some ?p\<rparr>) = Some ?p"
    by simp
  from Suc.IH [OF es(2) this] show ?case
    using es(1) pull_change_keeps [OF c] by (auto simp: nth_Cons event_of_def split: nat.split)
qed simp

lemma truncate_no_descriptor: "truncate_relations env d rids = (r, d') \<Longrightarrow> r \<noteq> Inr (Some tx)"
  by (induction rids arbitrary: d) (auto split: sum.splits prod.splits option.splits)

lemma Handle_commit_only:
  assumes "Handle env d m = (Inr (Some tx), d')"
  shows "\<exists>p. pull d' = Some p \<and> pull_seq p = 0 \<and> pull_commit p = tx \<and> 0 \<le> ct_Count tx"
  using assms
  by (cases m) (auto simp: Handle_def handle_relation_def handle_begin_def handle_insert_def handle_update_def handle_delete_def
      handle_truncate_def handle_commit_def Let_def append_result_def dest: truncate_no_descriptor
      split: option.splits sum.splits prod.splits if_splits)

lemma decode_all_numbered: "decode_all env d ms = Some txs \<Longrightarrow> (tx, es) \<in> set txs \<Longrightarrow> numbered tx es"
proof (induction env d ms arbitrary: txs rule: decode_all.induct)
  case (2 env d m ms)
  obtain h d1 where h: "Handle env d m = (h, d1)"
    by (cases "Handle env d m") auto
  consider "h = Inr None" "decode_all env d1 ms = Some txs"
    | tx' es' d2 txs' where "h = Inr (Some tx')" "pull_n (NextEvent env) (nat (ct_Count tx')) d1 = (Inr es', d2)"
        "txs = (tx', es') # txs'" "decode_all env d2 ms = Some txs'"
    using "2.prems"(1) h by (auto split: sum.splits option.splits prod.splits)
  then show ?case
  proof cases
    case 1
    show ?thesis
      by (rule "2.IH"(1) [OF h [symmetric] 1(1) refl 1(2) "2.prems"(2)])
  next
    case 2
    obtain p where p: "pull d1 = Some p" "pull_seq p = 0" "pull_commit p = tx'" "0 \<le> ct_Count tx'"
      using Handle_commit_only h 2(1) by blast
    from pull_n_numbered [OF 2(2) p(1)] p have "numbered tx' es'"
      by (simp add: numbered_def)
    then show ?thesis
      using "2.IH"(2) h 2 "2.prems"(2) by auto
  qed
qed simp

section \<open>The topic\<close>

text \<open>A topic of one partition: records keep their order and are numbered from zero.\<close>

definition topic_log :: "kafka_message list \<Rightarrow> kafka_record list" where
  "topic_log ms = map (\<lambda>(i, m). \<lparr>rec_topic = km_Topic m, rec_partition = 0, rec_offset = int i, rec_key = km_Key m, rec_value = km_Value m\<rparr>)
     (enumerate 0 ms)"

lemma length_topic_log [simp]: "length (topic_log ms) = length ms"
  by (simp add: topic_log_def)

lemma nth_topic_log: "i < length ms \<Longrightarrow> topic_log ms ! i =
    \<lparr>rec_topic = km_Topic (ms ! i), rec_partition = 0, rec_offset = int i, rec_key = km_Key (ms ! i), rec_value = km_Value (ms ! i)\<rparr>"
  by (simp add: topic_log_def nth_enumerate_eq)

lemma topic_log_prefix: "i < length ms \<Longrightarrow> topic_log (ms @ ms') ! i = topic_log ms ! i"
  by (simp add: nth_topic_log nth_append)

text \<open>What a consumer can do on the records there are, it can do with more of them behind.\<close>

lemma writer_step_prefix:
  assumes "writer_step env ctx_err (topic_log ms) s t"
  shows "writer_step env ctx_err (topic_log (ms @ ms')) s t"
proof -
  have ev: "log_event env (topic_log (ms @ ms')) i e \<and> topic_log (ms @ ms') ! i = topic_log ms ! i"
    if "log_event env (topic_log ms) i e" for i e
    using that topic_log_prefix [of i ms ms'] by (auto simp: log_event_def)
  from assms show ?thesis
  proof cases
    case (step_event pos event w w')
    then show ?thesis using ev [of pos event] writer_step.step_event by metis
  next
    case (step_error pos event w err w')
    then show ?thesis using ev [of pos event] writer_step.step_error by metis
  next
    case (step_crash w pos)
    then show ?thesis by (simp add: writer_step.step_crash)
  next
    case (step_crash_between pos event w g w1 w2)
    then show ?thesis using ev [of pos event] writer_step.step_crash_between by metis
  next
    case (step_shutdown group_ctx w r w' pos)
    then show ?thesis using writer_step.step_shutdown by blast
  qed
qed

section \<open>The system\<close>

type_synonym system = "pipeline \<times> writer \<times> nat"

inductive system_step ::
  "reader_env \<Rightarrow> string \<Rightarrow> writer_env \<Rightarrow> (nat \<Rightarrow> goerr option) \<Rightarrow> system \<Rightarrow> system \<Rightarrow> bool"
  for renv topic wenv ctx_err where
  reader_moves: "quiet_step renv topic s t \<Longrightarrow> system_step renv topic wenv ctx_err (s, ws) (t, ws)"
| writer_moves: "writer_step wenv ctx_err (topic_log (fst (pl_kafka s))) ws ws' \<Longrightarrow> system_step renv topic wenv ctx_err (s, ws) (s, ws')"

definition new_system :: "reader_env \<Rightarrow> (string \<Rightarrow> string \<Rightarrow> string list) \<Rightarrow> lsn \<Rightarrow> database \<Rightarrow> system \<Rightarrow> bool" where
  "new_system renv resolve l d0 x \<longleftrightarrow> new_pipeline renv resolve l (fst x) \<and> new_writer_on d0 (snd x)"

text \<open>
  What the two sides rely on: the source serves the transactions, all of them after the start of the
  slot; Kafka is up; the JSON the reader writes reads back; the destination answers, and the
  transactions apply to it.
\<close>

definition transactions :: "(committed_transaction \<times> event list) list \<Rightarrow> event list list" where
  "transactions txs = filter (\<lambda>es. es \<noteq> []) (map snd txs)"

definition healthy ::
  "reader_env \<Rightarrow> (string \<Rightarrow> string \<Rightarrow> string list) \<Rightarrow> writer_env \<Rightarrow> lsn \<Rightarrow> (committed_transaction \<times> event list) list \<Rightarrow> database \<Rightarrow> bool" where
  "healthy renv resolve wenv l txs d0 \<longleftrightarrow>
     serves renv resolve txs \<and> committed_after txs l \<and> kafka_up renv \<and>
     (\<forall>e \<in> set (all_events txs). wf_event e \<and> (\<forall>payload. re_marshal renv e = Inr payload \<longrightarrow> we_unmarshal wenv payload = Inr e)) \<and>
     no_faults (we_db wenv) \<and> lsn_codec (we_db wenv) \<and> events_apply (we_db wenv) (all_events txs) d0 \<noteq> None"

lemma concat_transactions [simp]: "concat (transactions txs) = all_events txs"
  by (induction txs) (auto simp: transactions_def)

lemma served_numbered:
  assumes "serves renv resolve txs" and "committed_after txs l" and "(tx, es) \<in> set txs"
  shows "numbered tx es"
proof -
  have "decode_all (re_source renv) (NewDecoderWithIdentity resolve) (re_stream renv l) =
      Some (filter (\<lambda>(tx, es). l < ct_EndLSN tx) txs)"
    using assms(1) by (simp add: serves_def)
  moreover have "(tx, es) \<in> set (filter (\<lambda>(tx, es). l < ct_EndLSN tx) txs)"
    using assms(2,3) by (auto simp: committed_after_def)
  ultimately show ?thesis
    by (rule decode_all_numbered)
qed

lemma transactions_whole:
  assumes "\<forall>(tx, es) \<in> set txs. numbered tx es" and "\<forall>e \<in> set (all_events txs). wf_event e" and "es \<in> set (transactions txs)"
  shows "whole_tx es"
proof -
  obtain tx where tx: "(tx, es) \<in> set txs" "es \<noteq> []"
    using assms(3) by (auto simp: transactions_def)
  then have n: "numbered tx es"
    using assms(1) by blast
  have "wf_event (es ! i)" if "i < length es" for i
    using assms(2) tx nth_mem [OF that] by force
  with n tx(2) show ?thesis
    by (auto simp: numbered_def whole_tx_def hd_conv_nth)
qed

text \<open>The topic that holds everything is the one the writer's theorems are about.\<close>

definition full_topic :: "reader_env \<Rightarrow> string \<Rightarrow> (committed_transaction \<times> event list) list \<Rightarrow> kafka_record list" where
  "full_topic renv topic txs = topic_log (map (record_for renv topic) (all_events txs))"

definition marshals :: "reader_env \<Rightarrow> bool" where
  "marshals renv \<longleftrightarrow> (\<forall>e. \<exists>payload. re_marshal renv e = Inr payload)"

definition reads_back :: "reader_env \<Rightarrow> writer_env \<Rightarrow> event list \<Rightarrow> bool" where
  "reads_back renv wenv es \<longleftrightarrow> (\<forall>e \<in> set es. \<forall>payload. re_marshal renv e = Inr payload \<longrightarrow> we_unmarshal wenv payload = Inr e)"

lemma record_reads_back:
  assumes "marshals renv" and "reads_back renv wenv es" and "e \<in> set es"
  shows "we_unmarshal wenv (km_Value (record_for renv topic e)) = Inr e"
proof -
  obtain payload where "re_marshal renv e = Inr payload"
    using assms(1) unfolding marshals_def by blast
  with assms(2,3) show ?thesis
    by (auto simp: reads_back_def record_for_def kafka_record_of_def)
qed

lemma topic_clean:
  assumes "marshals renv" and "reads_back renv wenv (all_events txs)"
    and "\<forall>(tx, es) \<in> set txs. numbered tx es" and "\<forall>e \<in> set (all_events txs). wf_event e"
    and "no_faults (we_db wenv)" and "lsn_codec (we_db wenv)" and "events_apply (we_db wenv) (all_events txs) d0 \<noteq> None"
  shows "clean_run wenv (full_topic renv topic txs) (transactions txs) d0"
proof -
  have "map (\<lambda>r. we_unmarshal wenv (rec_value r)) (full_topic renv topic txs) = map Inr (all_events txs)"
    using record_reads_back [OF assms(1,2)]
    by (intro nth_equalityI) (simp_all add: full_topic_def nth_topic_log del: set_concat)
  moreover have "log_offsets (full_topic renv topic txs)"
    by (simp add: log_offsets_def full_topic_def nth_topic_log)
  ultimately show ?thesis
    using assms transactions_whole [OF assms(3,4)] by (simp add: clean_run_def log_of_def)
qed

lemma full_topic_clean:
  assumes "healthy renv resolve wenv l txs d0"
  shows "clean_run wenv (full_topic renv topic txs) (transactions txs) d0"
  using assms served_numbered
  by (intro topic_clean) (auto simp: healthy_def marshals_def kafka_up_def reads_back_def)

section \<open>The invariant of the system\<close>

definition system_inv ::
  "reader_env \<Rightarrow> string \<Rightarrow> (string \<Rightarrow> string \<Rightarrow> string list) \<Rightarrow> writer_env \<Rightarrow> (committed_transaction \<times> event list) list \<Rightarrow> database
     \<Rightarrow> system \<Rightarrow> bool" where
  "system_inv renv topic resolve wenv txs d0 x \<longleftrightarrow>
     pipeline_inv renv resolve txs (fst x) \<and> quiet_inv renv topic [] txs (fst x) \<and> once_inv (we_db wenv) (transactions txs) d0 (snd x)"

lemma log_ok_prefix: "log_ok renv topic [] txs r p k c \<Longrightarrow> \<exists>es rest. all_events txs = es @ rest \<and> published renv topic [] es k"
proof -
  assume "log_ok renv topic [] txs r p k c"
  then have "log_ok renv topic [] txs r p k (Returned None)"
    by (rule log_ok_returned)
  then obtain es rest where es: "all_events txs = es @ rest" "logged renv topic [] es p k"
    by auto
  show ?thesis
  proof (cases p)
    case (Publishing e)
    then obtain es0 where "es = es0 @ [e]" "published renv topic [] es0 k"
      using es(2) by auto
    with es(1) show ?thesis by (intro exI [of _ es0] exI [of _ "e # rest"]) simp
  qed (use es in auto)
qed

lemma topic_is_prefix:
  assumes "quiet_inv renv topic [] txs s"
  shows "\<exists>rest. full_topic renv topic txs = topic_log (fst (pl_kafka s) @ rest)"
proof -
  have ok: "log_ok renv topic [] txs (pl_reader s) (pl_publisher s) (pl_kafka s) (pl_control s)"
    using assms by (simp add: quiet_inv_def)
  obtain es rest where "all_events txs = es @ rest" "published renv topic [] es (pl_kafka s)"
    using log_ok_prefix [OF ok] by (elim exE conjE) iprover
  then have "full_topic renv topic txs = topic_log (fst (pl_kafka s) @ map (record_for renv topic) rest)"
    by (simp add: full_topic_def published_def)
  then show ?thesis by blast
qed

lemma new_system_inv:
  assumes "healthy renv resolve wenv l txs d0" and "new_system renv resolve l d0 x"
  shows "system_inv renv topic resolve wenv txs d0 x"
proof -
  have "pipeline_inv renv resolve txs (fst x) \<and> quiet_inv renv topic [] txs (fst x)"
    using assms quiet.inv_init [of renv resolve l "fst x" txs] unfolding healthy_def new_system_def by blast
  moreover have "once_inv (we_db wenv) (transactions txs) d0 (snd x)"
    using once.inv_init [of d0 "snd x" wenv "full_topic renv topic txs" "transactions txs"] full_topic_clean [OF assms(1)] assms(2)
    unfolding new_system_def by blast
  ultimately show ?thesis
    by (simp add: system_inv_def)
qed

lemma system_inv_step:
  assumes "healthy renv resolve wenv l txs d0" and "system_inv renv topic resolve wenv txs d0 x"
    and "system_step renv topic wenv ctx_err x y"
  shows "system_inv renv topic resolve wenv txs d0 y"
  using assms(3)
proof cases
  case (reader_moves s t ws)
  have source: "kafka_up renv \<and> serves renv resolve txs \<and> committed_after txs l"
    using assms(1) by (simp add: healthy_def)
  have "pipeline_inv renv resolve txs s \<and> quiet_inv renv topic [] txs s"
    using assms(2) reader_moves(1) by (simp add: system_inv_def)
  with quiet.inv_step [OF _ reader_moves(3), of resolve txs l] source
  have "pipeline_inv renv resolve txs t \<and> quiet_inv renv topic [] txs t"
    by blast
  then show ?thesis
    using assms(2) reader_moves by (simp add: system_inv_def)
next
  case (writer_moves s ws ws')
  have "quiet_inv renv topic [] txs s" and once: "once_inv (we_db wenv) (transactions txs) d0 ws"
    using assms(2) writer_moves(1) by (simp_all add: system_inv_def)
  then obtain rest where "full_topic renv topic txs = topic_log (fst (pl_kafka s) @ rest)"
    using topic_is_prefix by blast
  then have "writer_step wenv ctx_err (full_topic renv topic txs) ws ws'"
    using writer_step_prefix [OF writer_moves(3)] by simp
  from once.inv_step [OF _ this] once full_topic_clean [OF assms(1), of topic] show ?thesis
    using assms(2) writer_moves(1,2) by (simp add: system_inv_def)
qed

interpretation system: step_invariant "new_system renv resolve l d0" "system_step renv topic wenv ctx_err"
  "\<lambda>x. healthy renv resolve wenv l txs d0 \<longrightarrow> system_inv renv topic resolve wenv txs d0 x" for renv resolve l d0 topic wenv ctx_err txs
  by unfold_locales (auto intro: new_system_inv system_inv_step)

end
