(* ===== verification/Redelivery.thy ===== *)
theory Redelivery
  imports End_To_End
begin

text \<open>
  Transactions that are delivered again. Each time the reader's stream starts over, the source
  sends from the slot's position, so transactions the topic holds already come once more. A
  redelivery of a list of transactions hands them out in order, but may go back to any of those it
  has handed out; the destination ends where the plain list leads to.
\<close>

section \<open>Lists with repeats\<close>

type_synonym source_tx = "committed_transaction \<times> event list"

text \<open>\<open>redelivery txs h n\<close>: \<open>h\<close> has handed out the first \<open>n\<close> of \<open>txs\<close>, but for those without events,
  which leave no record.\<close>

inductive redelivery :: "source_tx list \<Rightarrow> source_tx list \<Rightarrow> nat \<Rightarrow> bool" for txs where
  nothing_yet: "redelivery txs [] 0"
| onward: "redelivery txs h n \<Longrightarrow> n < length txs \<Longrightarrow> redelivery txs (h @ [txs ! n]) (Suc n)"
| once_more: "redelivery txs h n \<Longrightarrow> i < n \<Longrightarrow> redelivery txs (h @ [txs ! i]) n"
| no_record: "redelivery txs h n \<Longrightarrow> n < length txs \<Longrightarrow> snd (txs ! n) = [] \<Longrightarrow> redelivery txs h (Suc n)"

lemma redelivery_bounds: "redelivery txs h n \<Longrightarrow> n \<le> length txs \<and> set h \<subseteq> set (take n txs)"
proof (induction rule: redelivery.induct)
  case (once_more h n i)
  then have "i < length (take n txs)" "take n txs ! i = txs ! i"
    by simp_all
  then have "txs ! i \<in> set (take n txs)"
    by (metis nth_mem)
  with once_more.IH show ?case by simp
qed (auto simp: take_Suc_conv_app_nth)

lemma redelivery_in: "redelivery txs h n \<Longrightarrow> set h \<subseteq> set txs"
  using redelivery_bounds set_take_subset by fast

lemma redelivery_prefix: "redelivery txs h n \<Longrightarrow> h = h1 @ h2 \<Longrightarrow> \<exists>m \<le> n. redelivery txs h1 m"
proof (induction arbitrary: h1 h2 rule: redelivery.induct)
  case nothing_yet
  then show ?case by (auto intro: redelivery.nothing_yet)
next
  case (onward h n)
  show ?case
  proof (cases h2 rule: rev_cases)
    case Nil
    with onward.prems redelivery.onward [OF onward.hyps] show ?thesis by auto
  next
    case (snoc h3 x)
    with onward.prems have "h = h1 @ h3" by simp
    from onward.IH [OF this] show ?thesis by (meson le_SucI)
  qed
next
  case (once_more h n i)
  show ?case
  proof (cases h2 rule: rev_cases)
    case Nil
    with once_more.prems redelivery.once_more [OF once_more.hyps] show ?thesis by auto
  next
    case (snoc h3 x)
    with once_more.prems have "h = h1 @ h3" by simp
    from once_more.IH [OF this] show ?thesis .
  qed
next
  case (no_record h n)
  from no_record.IH [OF no_record.prems] show ?case by (meson le_SucI)
qed

text \<open>A stream that starts at a transaction handed out, or at the next one, goes on from there.\<close>

lemma redelivery_goes_on:
  "drop a txs = before @ todo \<Longrightarrow> redelivery txs h n \<Longrightarrow> a \<le> n \<Longrightarrow> \<exists>m \<ge> n. redelivery txs (h @ before) m \<and> a + length before \<le> m"
proof (induction before arbitrary: todo rule: rev_induct)
  case Nil
  then show ?case by auto
next
  case (snoc x before)
  obtain m where m: "n \<le> m" "redelivery txs (h @ before) m" "a + length before \<le> m"
    using snoc.IH [of "x # todo"] snoc.prems by auto
  have "drop a txs ! length before = x" "length before < length (drop a txs)"
    using snoc.prems(1) by simp_all
  then have x: "txs ! (a + length before) = x" "a + length before < length txs"
    by simp_all
  show ?case
  proof (cases "a + length before < m")
    case True
    with redelivery.once_more [OF m(2) True] x(1) m(1) show ?thesis
      by (intro exI [of _ m]) simp
  next
    case False
    then have "a + length before = m"
      using m(3) by simp
    with redelivery.onward [OF m(2)] x m(1) show ?thesis
      by (intro exI [of _ "Suc m"]) simp
  qed
qed

lemma redelivery_no_records:
  "redelivery txs h n \<Longrightarrow> n + j \<le> length txs \<Longrightarrow> \<forall>i < j. snd (txs ! (n + i)) = [] \<Longrightarrow> redelivery txs h (n + j)"
  by (induction j) (simp_all add: redelivery.no_record)

section \<open>What the destination makes of them\<close>

lemma all_events_take: "set (all_events (take i txs)) \<subseteq> set (all_events (take (i + j) txs))"
  by (auto simp: take_add)

lemma events_apply_prefix: "events_apply env (es @ fs) d \<noteq> None \<Longrightarrow> events_apply env es d \<noteq> None"
  by (auto simp: events_apply_append split: bind_splits)

lemma redelivery_effect:
  assumes "redelivery txs h n" and "events_apply env (all_events txs) d \<noteq> None"
  shows "events_apply env (all_events h) d = events_apply env (all_events (take n txs)) d"
  using assms(1)
proof (induction rule: redelivery.induct)
  case (onward h n)
  then show ?case by (simp add: take_Suc_conv_app_nth events_apply_append)
next
  case (once_more h n i)
  have "all_events txs = all_events (take n txs) @ all_events (drop n txs)"
    by (metis append_take_drop_id concat_append map_append)
  then obtain d' where d': "events_apply env (all_events (take n txs)) d = Some d'"
    using assms(2) events_apply_prefix by (metis not_None_eq)
  have "txs ! i \<in> set (take n txs)"
    using once_more.hyps redelivery_bounds by (fastforce simp: in_set_conv_nth)
  then have "set (snd (txs ! i)) \<subseteq> set (all_events (take n txs))"
    by auto
  from events.replay [OF d' [unfolded events_apply_all] this] have "events_apply env (snd (txs ! i)) d' = Some d'"
    by (simp add: events_apply_all)
  with once_more.IH d' show ?case
    by (simp add: events_apply_append)
next
  case (no_record h n)
  then show ?case by (simp add: take_Suc_conv_app_nth)
qed simp

text \<open>Of a redelivery, the transactions the destination has taken lead to a state of the source.\<close>

lemma transactions_append [simp]: "transactions (h @ h') = transactions h @ transactions h'"
  by (simp add: transactions_def)

lemma transactions_take: "j \<le> length (transactions h) \<Longrightarrow> \<exists>h1 h2. h = h1 @ h2 \<and> take j (transactions h) = transactions h1"
proof (induction h arbitrary: j)
  case (Cons x h)
  show ?case
  proof (cases "snd x = [] \<or> j \<noteq> 0")
    case True
    define j' where "j' = (if snd x = [] then j else j - 1)"
    have "j' \<le> length (transactions h)"
      using Cons.prems True by (auto simp: transactions_def j'_def)
    from Cons.IH [OF this] obtain h1 h2 where h: "h = h1 @ h2" "take j' (transactions h) = transactions h1"
      by blast
    have "take j (transactions (x # h)) = transactions (x # h1)"
      using True h(2) by (cases j) (auto simp: transactions_def j'_def)
    with h(1) show ?thesis
      by (intro exI [of _ "x # h1"] exI [of _ h2]) simp
  next
    case False
    then show ?thesis
      by (intro exI [of _ "[]"] exI [of _ "x # h"]) (simp add: transactions_def)
  qed
qed (simp add: transactions_def)

lemma transactions_of_take: "\<exists>j \<le> length (transactions txs). transactions (take n txs) = take j (transactions txs)"
proof -
  have "transactions txs = transactions (take n txs) @ transactions (drop n txs)"
    by (metis append_take_drop_id transactions_append)
  then show ?thesis
    by (intro exI [of _ "length (transactions (take n txs))"]) simp
qed

lemma redelivered_state:
  assumes "redelivery txs h n" and "events_apply env (all_events txs) d \<noteq> None" and "j \<le> length (transactions h)"
  shows "\<exists>i \<le> length (transactions txs).
    events_apply env (concat (take j (transactions h))) d = events_apply env (concat (take i (transactions txs))) d"
proof -
  obtain h1 h2 where h: "h = h1 @ h2" "take j (transactions h) = transactions h1"
    using transactions_take [OF assms(3)] by blast
  obtain m where m: "redelivery txs h1 m"
    using redelivery_prefix [OF assms(1) h(1)] by blast
  obtain i where i: "i \<le> length (transactions txs)" "transactions (take m txs) = take i (transactions txs)"
    using transactions_of_take by blast
  have "events_apply env (concat (take j (transactions h))) d = events_apply env (all_events h1) d"
    by (simp only: h(2) concat_transactions)
  also have "\<dots> = events_apply env (all_events (take m txs)) d"
    by (rule redelivery_effect [OF m assms(2)])
  also have "\<dots> = events_apply env (concat (take i (transactions txs))) d"
    by (simp only: i(2) [symmetric] concat_transactions)
  finally show ?thesis
    using i(1) by blast
qed

end
