(* ===== verification/Orderly_Reader.thy ===== *)
theory Orderly_Reader
  imports Redelivery
begin

text \<open>
  The reader with everything that happens to it: lost connections, contexts that end, publishers
  that give up, and processes that die. As long as a new process starts only when the topic ends
  with a whole transaction, and Kafka keeps no record that it reports as failed, the topic is a
  redelivery of the source's transactions.
\<close>

section \<open>Orderly runs\<close>

text \<open>The last record of the topic ends its transaction.\<close>

definition ends_whole :: "writer_env \<Rightarrow> kafka_message list \<Rightarrow> bool" where
  "ends_whole wenv ms \<longleftrightarrow> ms = [] \<or>
     (case we_unmarshal wenv (km_Value (last ms)) of
        Inl _ \<Rightarrow> False
      | Inr e \<Rightarrow> Sequence (Source e) = TransactionEventCount (Source e))"

text \<open>A step of the reader that leaves a new process behind leaves a topic that ends whole.\<close>

definition orderly_step ::
  "reader_env \<Rightarrow> string \<Rightarrow> (string \<Rightarrow> string \<Rightarrow> string list) \<Rightarrow> writer_env \<Rightarrow> pipeline \<Rightarrow> pipeline \<Rightarrow> bool" where
  "orderly_step env topic resolve wenv s t \<longleftrightarrow>
     pipeline_step env topic resolve s t \<and> (t = rebooted env resolve t \<longrightarrow> ends_whole wenv (fst (pl_kafka t)))"

text \<open>Kafka may refuse a record, but then it does not keep it; and every event has a JSON form.\<close>

definition kafka_honest :: "reader_env \<Rightarrow> bool" where
  "kafka_honest env \<longleftrightarrow> (\<forall>n e. re_produce env n \<noteq> Some (e, True)) \<and> (\<forall>e. \<exists>payload. re_marshal env e = Inr payload)"

lemma rebooted_again [simp]: "rebooted env resolve (rebooted env resolve s) = rebooted env resolve s"
  by (simp add: rebooted_def new_reader_def)

section \<open>Publishing\<close>

lemma publish_attempt:
  assumes "kafka_honest env" and "publishTransactionEvent env topic event k = (e, k')"
  shows "fst k' = (if e = None then fst k @ [record_for env topic event] else fst k)"
proof -
  obtain payload where payload: "re_marshal env event = Inr payload"
    using assms(1) unfolding kafka_honest_def by blast
  with assms show ?thesis
    by (cases k) (auto simp: publishTransactionEvent_def record_for_def kafka_honest_def Let_def split: option.splits)
qed

lemma publish_attempts:
  assumes "kafka_honest env"
  shows "\<forall>i < n. call_error (publishTransactionEvent env topic event) i k \<noteq> None \<Longrightarrow>
    fst (calls_state (publishTransactionEvent env topic event) n k) = fst k"
proof (induction n arbitrary: k)
  case (Suc n)
  obtain e k' where k': "publishTransactionEvent env topic event k = (e, k')"
    by (cases "publishTransactionEvent env topic event k") auto
  have "e \<noteq> None" "\<forall>i < n. call_error (publishTransactionEvent env topic event) i k' \<noteq> None"
    using Suc.prems [THEN spec, of 0] Suc.prems [THEN spec, of "Suc i" for i] k' by (simp_all add: call_error_Suc)
  with Suc.IH publish_attempt [OF assms k'] k' show ?case
    by (simp add: calls_state_Suc)
qed simp

lemma last_attempt:
  assumes "kafka_honest env" and "\<forall>i < n. call_error (publishTransactionEvent env topic event) i k \<noteq> None"
  shows "fst (calls_state (publishTransactionEvent env topic event) (Suc n) k) =
    (if call_error (publishTransactionEvent env topic event) n k = None then fst k @ [record_for env topic event] else fst k)"
proof -
  let ?fn = "publishTransactionEvent env topic event"
  have "calls_state ?fn (Suc n) k = snd (?fn (calls_state ?fn n k))"
    by (simp add: calls_state_def)
  with publish_attempt [OF assms(1), of topic event "calls_state ?fn n k"] publish_attempts [OF assms] show ?thesis
    by (cases "?fn (calls_state ?fn n k)") (simp add: call_error_def)
qed

lemma publish_event_honest:
  assumes "kafka_honest env" and "publish_event env topic event k r = (p, k', r')"
  shows "same_source r r' \<and>
    (p = Idle \<and> fst k' = fst k @ [record_for env topic event] \<or> \<not> alive p \<and> (\<exists>result. p = Replying result True) \<and> fst k' = fst k)"
proof -
  obtain e where e: "retry_Do (re_wait env) (re_rnd env) Default ''publish event to Kafka'' (publishTransactionEvent env topic event) k = (e, k')"
    using assms(2) by (auto simp: publish_event_def split: prod.splits option.splits)
  then have "do_loop (re_wait env) (re_rnd env) Default ''publish event to Kafka'' (publishTransactionEvent env topic event) 1 k = (e, k')"
    by (simp add: retry_Do_def)
  from do_loop_calls [OF this] obtain n where n: "k' = calls_state (publishTransactionEvent env topic event) (Suc n) k"
      "\<forall>i < n. call_error (publishTransactionEvent env topic event) i k \<noteq> None"
      "e = None \<longleftrightarrow> call_error (publishTransactionEvent env topic event) n k = None"
    by (elim exE conjE) iprover
  then have k': "fst k' = (if e = None then fst k @ [record_for env topic event] else fst k)"
    using last_attempt [OF assms(1) n(2)] by simp
  have "same_source r r'"
      "e = None \<Longrightarrow> p = Idle" "e \<noteq> None \<Longrightarrow> \<exists>result. p = Replying result True"
    using e assms(2) by (auto simp: publish_event_def same_source_def split: option.splits)
  with k' show ?thesis
    by (cases e) auto
qed

lemma crash_publishing_honest:
  assumes "kafka_honest env" and "\<forall>i. Suc i < n \<longrightarrow> call_error (publishTransactionEvent env topic event) i k \<noteq> None"
  shows "fst (calls_state (publishTransactionEvent env topic event) n k) \<in> {fst k, fst k @ [record_for env topic event]}"
  using last_attempt [OF assms(1)] assms(2) by (cases n) auto

section \<open>One life of the reader\<close>

text \<open>
  What a process has published so far on top of what it found: a prefix of what its stream holds,
  and as long as the publisher lives, exactly what the stream goroutine has handed over.
\<close>

definition life_ok :: "reader_env \<Rightarrow> string \<Rightarrow> kafka_message list \<Rightarrow> source_tx list \<Rightarrow> pipeline \<Rightarrow> bool" where
  "life_ok env topic base txs s \<longleftrightarrow>
     log_ok env topic base txs (pl_reader s) (pl_publisher s) (pl_kafka s) (Returned None) \<and>
     (alive (pl_publisher s) \<longrightarrow> log_ok env topic base txs (pl_reader s) (pl_publisher s) (pl_kafka s) (pl_control s))"

text \<open>Where a stream starts over: nothing of a transaction is half published.\<close>

definition starts_over ::
  "reader_env \<Rightarrow> string \<Rightarrow> (string \<Rightarrow> string \<Rightarrow> string list) \<Rightarrow> kafka_message list \<Rightarrow> source_tx list \<Rightarrow> pipeline \<Rightarrow> bool" where
  "starts_over env topic resolve base txs s \<longleftrightarrow>
     pl_control s = AtTop \<and> restarts env resolve (pl_reader s) \<and> not_publishing (pl_publisher s) \<and>
     (\<exists>before todo. txs = before @ todo \<and> published env topic base (all_events before) (pl_kafka s))"

text \<open>What is published when nothing is in the publisher's hands.\<close>

lemma log_prefix_published:
  assumes "log_ok env topic base txs r p k (Returned e)"
  shows "\<exists>es rest. all_events txs = es @ rest \<and> published env topic base es k \<and>
    (\<forall>event. p = Publishing event \<longrightarrow> (\<exists>rest'. rest = event # rest'))"
proof -
  obtain es rest where es: "all_events txs = es @ rest" "logged env topic base es p k"
    using assms by auto
  show ?thesis
  proof (cases p)
    case (Publishing event)
    then obtain es0 where "es = es0 @ [event]" "published env topic base es0 k"
      using es(2) by auto
    with es(1) Publishing show ?thesis
      by (intro exI [of _ es0] exI [of _ "event # rest"]) simp
  qed (use es in auto)
qed

lemma log_ok_gone: "log_ok env topic base txs r p k c \<Longrightarrow> not_publishing p' \<Longrightarrow> log_ok env topic base txs r p' k (Returned None)"
proof -
  assume "log_ok env topic base txs r p k c" and p': "not_publishing p'"
  then have "log_ok env topic base txs r p k (Returned None)"
    by (blast intro: log_ok_returned)
  from log_prefix_published [OF this] p' show ?thesis
    by (cases p') auto
qed

lemma life_kept:
  assumes "life_ok env topic base txs s" and "pl_publisher t = pl_publisher s" and "pl_kafka t = pl_kafka s"
    and "alive (pl_publisher s) \<Longrightarrow> log_ok env topic base txs (pl_reader t) (pl_publisher s) (pl_kafka s) (pl_control t)"
  shows "life_ok env topic base txs t"
  using assms log_ok_returned by (auto simp: life_ok_def)

lemma life_alive:
  "log_ok env topic base txs (pl_reader t) (pl_publisher t) (pl_kafka t) (pl_control t) \<Longrightarrow> life_ok env topic base txs t"
  using log_ok_returned by (auto simp: life_ok_def simp del: log_ok.simps)

lemma life_gone:
  "log_ok env topic base txs r p (pl_kafka t) c \<Longrightarrow> not_publishing (pl_publisher t) \<Longrightarrow> \<not> alive (pl_publisher t) \<Longrightarrow> life_ok env topic base txs t"
  unfolding life_ok_def by (blast intro: log_ok_gone log_ok_returned)

text \<open>A message that is not of the stream. Only a lost connection makes the stream start over.\<close>

lemma receive_life:
  assumes "on_received env ctx_err msg results r = (nxt, results', r')" and "\<not> logical msg"
    and "core_inv env resolve txs0 r results p k" and "alive p" and "not_publishing p" and "log_ok env topic base txs r p k AtTop"
  shows "log_ok env topic base txs r' p k (after_stream nxt) \<or>
    after_stream nxt = AtTop \<and> restarts env resolve r' \<and> (\<exists>before todo. txs = before @ todo \<and> published env topic base (all_events before) k)"
proof -
  have returned: "log_ok env topic base txs r'' p k (after_stream (Return e))" for r'' e
    using log_ok_returned [OF assms(6)] by simp
  have drained: "log_ok env topic base txs r' p k (after_stream nxt)" if "after_drain env ctx_err report NextIteration results r = (nxt, results', r')" for report
    using drain_log_ok [OF that assms(3,4) _ assms(6)] by simp
  show ?thesis
  proof (cases "(env, ctx_err, msg, results, r)" rule: on_received.cases)
    case (1 env' ctx' e timeout)
    show ?thesis
    proof (cases "ctx_err \<noteq> None \<or> timeout")
      case True
      then show ?thesis
        using assms(1) 1 returned drained on_timeout_drains
        by (cases "ctx_err = None") (auto simp: on_receive_error_def simp del: log_ok.simps split: prod.splits)
    next
      case False
      obtain e1 r1 where r1: "reconnect env r = (e1, r1)"
        by (cases "reconnect env r") auto
      have dec: "decoder_of resolve (rd_decoder r)"
        using assms(3) by (simp add: core_inv_def)
      have "\<exists>before todo. txs = before @ todo \<and> published env topic base (all_events before) k"
        using assms(5,6) by (cases p) auto
      with reconnect_redialed [OF r1 dec] show ?thesis
        using assms(1) 1 False r1 returned by (cases e1) (auto simp: on_receive_error_def simp del: log_ok.simps)
    qed
  next
    case (5 env' ctx' reply)
    then show ?thesis
      using assms(1,6) drained by (auto simp: on_keepalive_drains simp del: log_ok.simps split: if_splits)
  qed (use assms returned in \<open>auto simp del: log_ok.simps\<close>)
qed

text \<open>Every step goes on with the life, starts the stream over, or ends the life.\<close>

definition new_process ::
  "reader_env \<Rightarrow> string \<Rightarrow> (string \<Rightarrow> string \<Rightarrow> string list) \<Rightarrow> kafka_message list \<Rightarrow> source_tx list \<Rightarrow> pipeline \<Rightarrow> bool" where
  "new_process env topic resolve base txs t \<longleftrightarrow> t = rebooted env resolve t \<and>
     (\<exists>es rest. all_events txs = es @ rest \<and> published env topic base es (pl_kafka t))"

lemma publish_life:
  assumes "kafka_honest env" and "publish_event env topic event (pl_kafka s) (pl_reader s) = (p, k, r)"
    and "pl_publisher s = Publishing event" and "life_ok env topic base txs s"
  shows "life_ok env topic base txs (s\<lparr>pl_reader := r, pl_publisher := p, pl_kafka := k\<rparr>)"
proof -
  have ok: "log_ok env topic base txs (pl_reader s) (Publishing event) (pl_kafka s) (pl_control s)"
    using assms(3,4) by (simp add: life_ok_def)
  from publish_event_honest [OF assms(1,2)] show ?thesis
  proof (elim conjE disjE exE)
    assume "same_source (pl_reader s) r" "p = Idle" "fst k = fst (pl_kafka s) @ [record_for env topic event]"
    then show ?thesis
      using log_ok_published [OF ok] by (intro life_alive) simp
  next
    fix result
    assume p: "p = Replying result True" "\<not> alive p" and k: "fst k = fst (pl_kafka s)"
    have "not_publishing p"
      using p(1) by simp
    from log_ok_gone [OF ok this] have "log_ok env topic base txs (pl_reader s) p k (Returned None)"
      using p(1) k by (simp add: published_def)
    then show ?thesis
      using p life_gone [of env topic base txs "pl_reader s" p] by (simp del: log_ok.simps)
  qed
qed

lemma crash_life:
  assumes "kafka_honest env" and "life_ok env topic base txs s" and "pl_publisher s = Publishing event"
    and "fst k \<in> {fst (pl_kafka s), fst (pl_kafka s) @ [record_for env topic event]}"
  shows "\<exists>es rest. all_events txs = es @ rest \<and> published env topic base es k"
proof -
  have "log_ok env topic base txs (pl_reader s) (Publishing event) (pl_kafka s) (Returned None)"
    using assms(2,3) by (simp add: life_ok_def)
  from log_prefix_published [OF this] obtain es rest where es: "all_events txs = es @ event # rest" "published env topic base es (pl_kafka s)"
    by auto
  show ?thesis
  proof (cases "fst k = fst (pl_kafka s)")
    case True
    with es show ?thesis by (auto simp: published_def)
  next
    case False
    with es assms(4) show ?thesis
      by (intro exI [of _ "es @ [event]"] exI [of _ rest]) (simp add: published_def)
  qed
qed

lemma life_step:
  assumes "kafka_honest env" and "pipeline_step env topic resolve s t" and "pipeline_inv env resolve txs0 s" and "life_ok env topic base txs s"
  shows "life_ok env topic base txs t \<or> starts_over env topic resolve base txs t \<or> new_process env topic resolve base txs t"
proof -
  have core: "core_inv env resolve txs0 (pl_reader s) (pl_results s) (pl_publisher s) (pl_kafka s)"
    and stream: "alive (pl_publisher s) \<longrightarrow> stream_ok env txs0 (pl_reader s) (pl_results s) (pl_publisher s) (pl_kafka s) (pl_control s)"
    using assms(3) by (simp_all add: pipeline_inv_def)
  have ok: "log_ok env topic base txs (pl_reader s) (pl_publisher s) (pl_kafka s) (pl_control s)" if "alive (pl_publisher s)"
    using assms(4) that by (simp add: life_ok_def)
  have gone: "log_ok env topic base txs (pl_reader s) (pl_publisher s) (pl_kafka s) (Returned None)"
    using assms(4) by (simp add: life_ok_def)
  note kept = life_kept [OF assms(4)]
  from assms(2) show ?thesis
  proof cases
    case (step_top ctx_err nxt results r)
    then show ?thesis
      using drain_log_ok [OF _ core] ok by (intro disjI1 kept) (simp_all add: stream_top_drains del: log_ok.simps)
  next
    case (step_receive msg ctx_err nxt results r)
    show ?thesis
    proof (cases "alive (pl_publisher s)")
      case True
      have "not_publishing (pl_publisher s)" "log_ok env topic base txs (pl_reader s) (pl_publisher s) (pl_kafka s) AtTop"
        using stream ok True step_receive(2) by simp_all
      from receive_life [OF step_receive(4,3) core True this] show ?thesis
        using step_receive(1) \<open>not_publishing (pl_publisher s)\<close> by (auto simp: starts_over_def simp del: log_ok.simps intro: kept)
    next
      case False
      then show ?thesis
        using step_receive(1) by (intro disjI1 kept) auto
    qed
  next
    case (step_message m ms ctx_err walStart nxt results r)
    then show ?thesis
      using message_log_ok ok by (intro disjI1 kept) (auto split: prod.splits)
  next
    case (step_queue tx n q r)
    then show ?thesis
      using queue_log_ok [OF _ step_queue(3)] ok by (intro disjI1 kept) (simp_all del: log_ok.simps)
  next
    case (step_hand work tx n ctx_err nxt' r)
    then show ?thesis
      using hand_log_ok ok by (intro disjI1 life_alive) (simp add: sendWork_def del: log_ok.simps)
  next
    case (step_result work tx n result results ctx_err nxt' r)
    then show ?thesis
      using result_log_ok [OF step_result(4)] core ok by (intro disjI1 kept) (simp_all del: log_ok.simps)
  next
    case (step_status work tx n ctx_err nxt' r)
    obtain e r1 where r1: "send_and_rearm env (pl_reader s) = (e, r1)"
      by (cases "send_and_rearm env (pl_reader s)") auto
    have "same_source (pl_reader s) r" "nxt' = SendAgain \<or> (\<exists>e. nxt' = SendReturns (Some e))"
      using step_status(3) r1 send_and_rearm_source [OF r1] by (auto simp: sendWork_def split: option.splits)
    then show ?thesis
      using send_log_ok ok step_status(1,2) by (intro disjI1 kept) (simp_all del: log_ok.simps)
  next
    case (step_done work tx n ctx_err e nxt' r)
    then show ?thesis
      using log_ok_returned [OF ok] by (intro disjI1 kept) (auto simp: sendWork_def simp del: log_ok.simps)
  next
    case (step_publish event p k r)
    then show ?thesis
      using publish_life [OF assms(1) step_publish(3,2) assms(4)] by simp
  next
    case (step_reply result leave)
    show ?thesis
    proof (cases leave)
      case True
      then show ?thesis
        using life_gone [of env topic base txs "pl_reader s" "pl_publisher s" t] step_reply(1) gone by (simp del: log_ok.simps)
    next
      case False
      then show ?thesis
        using step_reply log_ok_replied ok by (intro disjI1 life_alive) (simp del: log_ok.simps)
    qed
  next
    case step_cancel
    then show ?thesis
      using life_gone [of env topic base txs "pl_reader s" "pl_publisher s" t] gone by (simp del: log_ok.simps)
  next
    case step_crash
    then show ?thesis
      using log_prefix_published [OF gone] by (auto simp: new_process_def) (auto simp: rebooted_def)
  next
    case (step_crash_publishing event attempts)
    let ?k = "calls_state (publishTransactionEvent env topic event) attempts (pl_kafka s)"
    have "\<exists>es rest. all_events txs = es @ rest \<and> published env topic base es ?k"
      using crash_life [OF assms(1,4) step_crash_publishing(2)] crash_publishing_honest [OF assms(1) step_crash_publishing(3)] by blast
    then show ?thesis
      using step_crash_publishing(1) by (auto simp: new_process_def) (auto simp: rebooted_def)
  qed
qed

end
