(* ===== verification/Full_System.thy ===== *)
theory Full_System
  imports End_To_End
begin

text \<open>
  The two programs together when everything may fail: any step of the reader's state machine,
  crashes included, next to any step of a writer's life on the topic as it is.
\<close>

section \<open>Steps\<close>

inductive full_step ::
  "reader_env \<Rightarrow> string \<Rightarrow> (string \<Rightarrow> string \<Rightarrow> string list) \<Rightarrow> writer_env \<Rightarrow> (nat \<Rightarrow> goerr option) \<Rightarrow> system \<Rightarrow> system \<Rightarrow> bool"
  for renv topic resolve wenv ctx_err where
  any_reader_step: "pipeline_step renv topic resolve s t \<Longrightarrow> full_step renv topic resolve wenv ctx_err (s, ws) (t, ws)"
| any_writer_step: "writer_step wenv ctx_err (topic_log (fst (pl_kafka s))) ws ws'
    \<Longrightarrow> full_step renv topic resolve wenv ctx_err (s, ws) (s, ws')"

definition new_full_system :: "reader_env \<Rightarrow> (string \<Rightarrow> string \<Rightarrow> string list) \<Rightarrow> lsn \<Rightarrow> system \<Rightarrow> bool" where
  "new_full_system renv resolve l x \<longleftrightarrow> new_pipeline renv resolve l (fst x) \<and> new_writer (snd x)"

lemma system_step_full: "system_step renv topic wenv ctx_err x y \<Longrightarrow> full_step renv topic resolve wenv ctx_err x y"
  by (induction rule: system_step.induct) (auto intro: full_step.intros quiet_step_is_step)

lemma system_steps_full:
  "(system_step renv topic wenv ctx_err)\<^sup>*\<^sup>* x y \<Longrightarrow> (full_step renv topic resolve wenv ctx_err)\<^sup>*\<^sup>* x y"
  by (rule mono_rtranclp [rule_format]) (rule system_step_full)

section \<open>A topic that grows\<close>

lemma pipeline_step_grows: "pipeline_step env topic resolve s t \<Longrightarrow> log_grows (pl_kafka s) (pl_kafka t)"
proof (induction rule: pipeline_step.induct)
  case (step_publish s event p k r)
  then show ?case
    using publish_event_cases by fastforce
next
  case (step_crash_publishing s event attempts)
  then show ?case
    using attempts_grow by (simp add: rebooted_def)
qed (simp_all add: rebooted_def)

lemma log_event_grows: "log_event env (topic_log ms) i e \<Longrightarrow> log_event env (topic_log (ms @ ms')) i e"
  by (auto simp: log_event_def topic_log_prefix)

lemma log_prefix_grows: "log_prefix env (topic_log ms) n d \<Longrightarrow> log_prefix env (topic_log (ms @ ms')) n d"
  unfolding log_prefix_def using log_event_grows by blast

lemma writer_inv_grows: "writer_inv env (topic_log ms) x \<Longrightarrow> writer_inv env (topic_log (ms @ ms')) x"
  by (auto simp: writer_inv_def group_of_log_def log_prefix_grows log_event_grows split: option.splits)

lemma topic_log_offsets: "log_offsets (topic_log ms)"
  by (simp add: log_offsets_def nth_topic_log)

section \<open>The invariant\<close>

definition full_inv ::
  "reader_env \<Rightarrow> (string \<Rightarrow> string \<Rightarrow> string list) \<Rightarrow> writer_env \<Rightarrow> (committed_transaction \<times> event list) list \<Rightarrow> system \<Rightarrow> bool" where
  "full_inv renv resolve wenv txs x \<longleftrightarrow>
     pipeline_inv renv resolve txs (fst x) \<and> writer_inv wenv (topic_log (fst (pl_kafka (fst x)))) (snd x) \<and>
     open_groups_incomplete (fst (snd x))"

lemma full_inv_step:
  assumes "serves renv resolve txs" and "full_step renv topic resolve wenv ctx_err x y" and "full_inv renv resolve wenv txs x"
  shows "full_inv renv resolve wenv txs y"
  using assms(2)
proof cases
  case (any_reader_step s t ws)
  obtain new where "fst (pl_kafka t) = fst (pl_kafka s) @ new"
    using pipeline_step_grows [OF any_reader_step(3)] by (auto simp: log_grows_def)
  then show ?thesis
    using any_reader_step assms(3) pipeline_inv_step [OF assms(1)] writer_inv_grows by (auto simp: full_inv_def)
next
  case (any_writer_step s ws ws')
  then show ?thesis
    using writer_inv_step [OF topic_log_offsets any_writer_step(3)] assms(3) by (simp add: full_inv_def)
qed

lemma new_full_inv:
  assumes "serves renv resolve txs" and "committed_after txs l" and "new_full_system renv resolve l x"
  shows "full_inv renv resolve wenv txs x"
  using assms new_pipeline_inv
  by (auto simp: full_inv_def new_full_system_def new_writer_def writer_inv_def log_prefix_def committed_pos_def
      open_groups_incomplete_def split: prod.split)

interpretation full_system: step_invariant "new_full_system renv resolve l" "full_step renv topic resolve wenv ctx_err"
  "\<lambda>x. serves renv resolve txs \<and> committed_after txs l \<longrightarrow> full_inv renv resolve wenv txs x" for renv resolve l topic wenv ctx_err txs
  by unfold_locales (use new_full_inv full_inv_step in blast)+

section \<open>Where an event is\<close>

lemma delivered_record:
  assumes "delivered renv es k" and "e \<in> set es" and "reads_back renv wenv es"
  shows "\<exists>i. log_event wenv (topic_log (fst k)) i e"
proof -
  have "re_marshal renv e \<in> set (map (re_marshal renv) es)"
    using assms(2) by simp
  with assms(1) [unfolded delivered_def] obtain y where "y \<in> set (map (Inr \<circ> km_Value) (fst k))" "re_marshal renv e = y"
    by (rule list_emb_set)
  then have "re_marshal renv e \<in> set (map (Inr \<circ> km_Value) (fst k))"
    by simp
  then obtain i where i: "i < length (fst k)" "re_marshal renv e = Inr (km_Value (fst k ! i))"
    by (auto simp: in_set_conv_nth)
  with assms(2,3) have "log_event wenv (topic_log (fst k)) i e"
    by (simp add: log_event_def nth_topic_log reads_back_def)
  then show ?thesis ..
qed

lemma passed_record_marked:
  assumes "writer_inv wenv log (w, pos)" and "log_event wenv log i e" and "i < committed_pos w"
  shows "marked (db (w_conn w)) e"
  using assms by (force simp: writer_inv_def log_prefix_def log_event_def)

end
