(* ===== verification/Quiet_Progress.thy ===== *)
theory Quiet_Progress
  imports End_To_End
begin

text \<open>
  Progress: on a quiet day, and as long as PostgreSQL takes the status updates, the reader does not
  return, and it can always go on until the stream is read to its end and everything is in Kafka.
\<close>

definition standby_up :: "reader_env \<Rightarrow> bool" where
  "standby_up env \<longleftrightarrow> (\<forall>n. re_standby env n = None)"

fun running :: "control \<Rightarrow> bool" where
  "running (Returned e) \<longleftrightarrow> False"
| "running _ \<longleftrightarrow> True"

section \<open>The operations do not return\<close>

lemma rearm_ok: "standby_up env \<Longrightarrow> rd_connection r \<noteq> None \<Longrightarrow> fst (send_and_rearm env r) = None"
  by (auto simp: standby_up_def send_and_rearm_def sendStandby_def Let_def)

lemma drain_goes_on:
  assumes "after_drain env None report nxt results r = (nxt', rest, r')" and "core_inv env resolve txs0 r results p k"
    and "alive p" and "standby_up env" and "rd_connection r \<noteq> None"
  shows "nxt' = nxt \<and> rest = []"
proof -
  obtain x rest1 r1 where d: "drain_results env False results r = (x, rest1, r1)"
    by (cases "drain_results env False results r") auto
  note dc = drain_core [OF d assms(2)]
  then obtain b where x: "x = Inr b" "rest1 = []"
    using assms(3) by (cases x) auto
  obtain r2 where r2: "send_and_rearm env r1 = (None, r2)"
    using rearm_ok [OF assms(4), of r1] dc assms(5) by (cases "send_and_rearm env r1") auto
  show ?thesis
    using assms(1) d x r2 by (auto simp: after_drain_def drainPublicationResults_def split: if_splits)
qed

lemma log_ok_connected: "log_ok env topic base txs r p k c \<Longrightarrow> running c \<Longrightarrow> rd_connection r \<noteq> None"
  by (cases "(env, topic, base, txs, r, p, k, c)" rule: log_ok.cases) (auto simp: reads_def pulls_def)

lemma message_goes_on:
  assumes "reads env (rd_decoder r) (Some (m # ms)) todo"
    and "on_logical_message env walStart m (r\<lparr>rd_connection := Some ms\<rparr>) = (nxt, r')"
  shows "(nxt = NextIteration \<or> (\<exists>tx. nxt = QueueTransaction tx)) \<and> rd_connection r' = Some ms"
  using assms by (auto simp: on_logical_message_def reads_def split: sum.splits prod.splits option.splits)

lemma queue_goes_on:
  assumes "log_ok env topic base txs r p k (Queueing tx n)" and "queueTransactionEvents env tx n r = (q, r')"
  shows "(\<exists>work. q = Send work) \<and> rd_connection r' = rd_connection r"
proof -
  obtain es1 :: "event list" and es2 todo where h: "n = Suc (length es1)"
      "pulls env (nat (ct_Count tx) - length es1) (rd_decoder r) (rd_connection r) es2 todo"
    using assms(1) by auto
  show ?thesis
    by (rule pulls_queue [OF h(2,1) assms(2)]) auto
qed

lemma result_goes_on:
  assumes "sendWork env None (GotResult result) r = (nxt, r')" and "core_inv env resolve txs0 r (result # results) p k" and "alive p"
    and "standby_up env" and "rd_connection r \<noteq> None"
  shows "nxt = SendAgain \<and> rd_connection r' = rd_connection r"
proof -
  obtain e r1 where r1: "applyPublicationResult env result r = (e, r1)"
    by (cases "applyPublicationResult env result r") auto
  note ac = apply_core [OF r1 assms(2)]
  then have e: "e = None" "rd_connection r1 = rd_connection r"
    using assms(3) by auto
  obtain r2 where r2: "send_and_rearm env r1 = (None, r2)"
    using rearm_ok [OF assms(4), of r1] e assms(5) by (cases "send_and_rearm env r1") auto
  show ?thesis
    using assms(1) r1 r2 e send_and_rearm_source [OF r2] by (auto simp: sendWork_def same_source_def)
qed

lemma quiet_runs_on:
  assumes "quiet_step env topic s t" and "pipeline_inv env resolve txs0 s" and "quiet_inv env topic base txs s"
    and "standby_up env" and "running (pl_control s)"
  shows "running (pl_control t)"
proof -
  have core: "core_inv env resolve txs0 (pl_reader s) (pl_results s) (pl_publisher s) (pl_kafka s)"
    using assms(2) by (simp add: pipeline_inv_def)
  have live: "alive (pl_publisher s)" and ok: "log_ok env topic base txs (pl_reader s) (pl_publisher s) (pl_kafka s) (pl_control s)"
    using assms(3) by (simp_all add: quiet_inv_def)
  have conn: "rd_connection (pl_reader s) \<noteq> None"
    using log_ok_connected ok assms(5) by blast
  from assms(1) show ?thesis
  proof cases
    case (quiet_top nxt results r)
    then show ?thesis
      using drain_goes_on [OF quiet_top(3) [unfolded stream_top_drains] core live assms(4) conn] by simp
  next
    case (quiet_receive msg nxt results r)
    then have "nxt = NextIteration"
      using drain_goes_on [OF _ core live assms(4) conn]
      by (cases msg rule: idle_message.cases) (auto simp: on_keepalive_drains on_timeout_drains split: if_splits)
    then show ?thesis
      using quiet_receive(1) by simp
  next
    case (quiet_message m ms walStart nxt r)
    then obtain todo where "reads env (rd_decoder (pl_reader s)) (Some (m # ms)) todo"
      using ok by auto
    from message_goes_on [OF this quiet_message(4)] quiet_message(1) show ?thesis by auto
  next
    case (quiet_queue tx n q r)
    from queue_goes_on [OF ok [unfolded quiet_queue(2)] quiet_queue(3)] show ?thesis
      using quiet_queue(1) by auto
  next
    case (quiet_hand work tx n)
    then show ?thesis by (cases work) auto
  next
    case (quiet_result work tx n result results nxt' r)
    then show ?thesis
      using result_goes_on [OF quiet_result(4) _ live assms(4) conn] core by simp
  next
    case (quiet_status work tx n nxt' r)
    then show ?thesis
      using rearm_ok [OF assms(4) conn] by (auto simp: sendWork_def split: option.splits prod.splits)
  next
    case (quiet_publish event p k r)
    then show ?thesis using assms(5) by simp
  next
    case (quiet_reply result leave)
    then show ?thesis using assms(5) by simp
  qed
qed

section \<open>Steps that get further\<close>

text \<open>
  What is left to do: the messages to read, the events to hand over, and what the two goroutines
  and the results channel still hold.
\<close>

fun control_left :: "control \<Rightarrow> nat" where
  "control_left AtTop = 1"
| "control_left AtReceive = 0"
| "control_left (Queueing tx n) = 6"
| "control_left (Handing work tx n) = 5"
| "control_left (Returned e) = 0"

fun publisher_left :: "publisher \<Rightarrow> nat" where
  "publisher_left (Publishing e) = 5"
| "publisher_left (Replying result leave) = 3"
| "publisher_left p = 0"

fun taken :: "publisher \<Rightarrow> nat" where
  "taken (Publishing e) = 1"
| "taken p = 0"

definition left_to_do :: "nat \<Rightarrow> pipeline \<Rightarrow> nat" where
  "left_to_do aim s = 10 * length (case rd_connection (pl_reader s) of None \<Rightarrow> [] | Some ms \<Rightarrow> ms)
     + 10 * (aim - (length (fst (pl_kafka s)) + taken (pl_publisher s)))
     + control_left (pl_control s) + publisher_left (pl_publisher s) + 2 * length (pl_results s)"

lemma logged_length: "logged env topic base es p k \<Longrightarrow> length base + length es = length (fst k) + taken p"
  by (cases p) (auto simp: published_def)

definition gets_further :: "reader_env \<Rightarrow> string \<Rightarrow> nat \<Rightarrow> pipeline \<Rightarrow> bool" where
  "gets_further env topic aim s \<longleftrightarrow> (\<exists>t. quiet_step env topic s t \<and> left_to_do aim t < left_to_do aim s)"

lemma gets_furtherI: "quiet_step env topic s t \<Longrightarrow> left_to_do aim t < left_to_do aim s \<Longrightarrow> gets_further env topic aim s"
  by (auto simp: gets_further_def)

lemma publisher_gets_further:
  assumes "kafka_up env" and "pl_publisher s = Publishing event"
  shows "gets_further env topic aim s"
proof -
  obtain p k r where pub: "publish_event env topic event (pl_kafka s) (pl_reader s) = (p, k, r)"
    by (cases "publish_event env topic event (pl_kafka s) (pl_reader s)") auto
  note up = publish_event_up [OF assms(1) pub]
  show ?thesis
    by (rule gets_furtherI [OF quiet_publish [OF assms(2) pub]])
      (use up assms(2) in \<open>simp add: left_to_do_def same_source_def\<close>)
qed

lemma reply_gets_further:
  assumes "pl_publisher s = Replying result leave" and "pl_results s = []" and "\<not> leave"
  shows "gets_further env topic aim s"
  by (rule gets_furtherI [OF quiet_reply [OF assms(1,2)]]) (use assms in \<open>simp add: left_to_do_def\<close>)

text \<open>Wherever a living reader is, and unless it is drained, some step gets it further.\<close>

lemma top_gets_further:
  assumes "pl_control s = AtTop" and "core_inv env resolve txs0 (pl_reader s) (pl_results s) (pl_publisher s) (pl_kafka s)"
    and "alive (pl_publisher s)" and "standby_up env" and "rd_connection (pl_reader s) \<noteq> None"
    and "log_ok env topic base txs (pl_reader s) (pl_publisher s) (pl_kafka s) AtTop"
  shows "gets_further env topic aim s"
proof -
  obtain nxt results r where top: "stream_top env None (pl_results s) (pl_reader s) = (nxt, results, r)"
    by (cases "stream_top env None (pl_results s) (pl_reader s)") auto
  note drain = top [unfolded stream_top_drains]
  have "nxt = Receive" "results = []"
    using drain_goes_on [OF drain assms(2-5)] by simp_all
  moreover have "rd_connection r = rd_connection (pl_reader s)"
    using drain_source [OF drain assms(2,3)] by (simp add: same_source_def)
  ultimately show ?thesis
    by (intro gets_furtherI [OF quiet_top [OF assms(1) top]]) (use assms(1) in \<open>simp add: left_to_do_def\<close>)
qed

lemma message_gets_further:
  assumes "pl_control s = AtReceive" and "rd_connection (pl_reader s) = Some (m # ms)"
    and "log_ok env topic base txs (pl_reader s) (pl_publisher s) (pl_kafka s) AtReceive"
  shows "gets_further env topic aim s"
proof -
  obtain nxt r where msg: "on_logical_message env 0 m ((pl_reader s)\<lparr>rd_connection := Some ms\<rparr>) = (nxt, r)"
    by (cases "on_logical_message env 0 m ((pl_reader s)\<lparr>rd_connection := Some ms\<rparr>)") auto
  obtain todo where "reads env (rd_decoder (pl_reader s)) (Some (m # ms)) todo"
    using assms(2,3) by auto
  from message_goes_on [OF this msg] have "control_left (after_stream nxt) \<le> 6" "rd_connection r = Some ms"
    by auto
  then show ?thesis
    by (intro gets_furtherI [OF quiet_message [OF assms(1,2) msg]]) (use assms(1,2) in \<open>simp add: left_to_do_def\<close>)
qed

lemma queue_gets_further:
  assumes "pl_control s = Queueing tx n" and "log_ok env topic base txs (pl_reader s) (pl_publisher s) (pl_kafka s) (Queueing tx n)"
  shows "gets_further env topic aim s"
proof -
  obtain q r where q: "queueTransactionEvents env tx n (pl_reader s) = (q, r)"
    by (cases "queueTransactionEvents env tx n (pl_reader s)") auto
  from queue_goes_on [OF assms(2) q] show ?thesis
    by (intro gets_furtherI [OF quiet_queue [OF assms(1) q]]) (use assms(1) in \<open>auto simp: left_to_do_def\<close>)
qed

lemma hand_gets_further:
  assumes "pl_control s = Handing work tx n" and "pl_publisher s = Idle"
    and "log_ok env topic base txs (pl_reader s) Idle (pl_kafka s) (Handing work tx n)"
  shows "gets_further env topic (length base + length (all_events txs)) s"
proof (rule gets_furtherI [OF quiet_hand [OF assms(1,2)]])
  show "left_to_do (length base + length (all_events txs)) (s\<lparr>pl_control := after_send work tx n (SendReturns None), pl_publisher := publisher_takes work\<rparr>)
      < left_to_do (length base + length (all_events txs)) s"
  proof (cases work)
    case (EventWork e)
    then have "length (fst (pl_kafka s)) < length base + length (all_events txs)"
      using assms(3) by (auto simp: published_def)
    then show ?thesis
      using EventWork assms(1,2) by (simp add: left_to_do_def)
  qed (use assms(1,2) in \<open>simp add: left_to_do_def\<close>)
qed

lemma result_gets_further:
  assumes "pl_control s = Handing work tx n" and "pl_results s = result # results"
    and "core_inv env resolve txs0 (pl_reader s) (pl_results s) (pl_publisher s) (pl_kafka s)"
    and "alive (pl_publisher s)" and "standby_up env" and "rd_connection (pl_reader s) \<noteq> None"
  shows "gets_further env topic aim s"
proof -
  obtain nxt r where w: "sendWork env None (GotResult result) (pl_reader s) = (nxt, r)"
    by (cases "sendWork env None (GotResult result) (pl_reader s)") auto
  have "nxt = SendAgain" "rd_connection r = rd_connection (pl_reader s)"
    using result_goes_on [OF w _ assms(4-6)] assms(2,3) by simp_all
  then show ?thesis
    by (intro gets_furtherI [OF quiet_result [OF assms(1,2) w]]) (use assms(1,2) in \<open>simp add: left_to_do_def\<close>)
qed

lemma receive_gets_further:
  assumes "pl_control s = AtReceive" and "pipeline_inv env resolve txs0 s" and "quiet_inv env topic base txs s" and "\<not> drained s"
    and "\<forall>event. pl_publisher s \<noteq> Publishing event"
  shows "gets_further env topic aim s"
proof -
  have live: "alive (pl_publisher s)" and ok: "log_ok env topic base txs (pl_reader s) (pl_publisher s) (pl_kafka s) AtReceive"
    using assms(1,3) by (simp_all add: quiet_inv_def)
  then obtain ms where ms: "rd_connection (pl_reader s) = Some ms"
    by (auto simp: reads_def)
  show ?thesis
  proof (cases ms)
    case (Cons m ms')
    with message_gets_further [OF assms(1) _ ok] ms show ?thesis by simp
  next
    case Nil
    then obtain result leave where p: "pl_publisher s = Replying result leave"
      using assms(1,4,5) ms live by (cases "pl_publisher s") (auto simp: drained_def)
    moreover have "length (pl_results s @ held (pl_publisher s)) \<le> 1"
      using assms(1,2) by (simp add: pipeline_inv_def)
    ultimately show ?thesis
      using reply_gets_further live by auto
  qed
qed

lemma quiet_progress:
  assumes "kafka_up env" and "standby_up env" and inv: "pipeline_inv env resolve txs0 s" "quiet_inv env topic base txs s"
    and "running (pl_control s)" and "\<not> drained s"
  shows "gets_further env topic (length base + length (all_events txs)) s"
proof (cases "\<exists>event. pl_publisher s = Publishing event")
  case True
  then show ?thesis
    using publisher_gets_further assms(1) by blast
next
  case False
  have core: "core_inv env resolve txs0 (pl_reader s) (pl_results s) (pl_publisher s) (pl_kafka s)"
    using inv by (simp add: pipeline_inv_def)
  have live: "alive (pl_publisher s)" and ok: "log_ok env topic base txs (pl_reader s) (pl_publisher s) (pl_kafka s) (pl_control s)"
    using inv by (simp_all add: quiet_inv_def)
  have conn: "rd_connection (pl_reader s) \<noteq> None"
    using log_ok_connected ok assms(5) by blast
  show ?thesis
  proof (cases "pl_control s")
    case AtTop
    with top_gets_further [OF AtTop core live assms(2) conn] ok show ?thesis by simp
  next
    case AtReceive
    with receive_gets_further [OF AtReceive inv assms(6)] False show ?thesis by blast
  next
    case (Queueing tx n)
    with queue_gets_further [OF Queueing] ok show ?thesis by simp
  next
    case (Handing work tx n)
    show ?thesis
    proof (cases "pl_publisher s")
      case Idle
      with hand_gets_further [OF Handing Idle] ok Handing show ?thesis by simp
    next
      case (Replying result leave)
      show ?thesis
      proof (cases "pl_results s")
        case Nil
        with reply_gets_further [OF Replying] live Replying show ?thesis by simp
      next
        case (Cons result' results)
        from result_gets_further [OF Handing Cons core live assms(2) conn] show ?thesis .
      qed
    qed (use False live in auto)
  qed (use assms(5) in auto)
qed

text \<open>What is left to do gets less and less, so a quiet run leads to a drained state.\<close>

lemma quiet_drains:
  assumes "kafka_up env" and "standby_up env" and "serves env resolve txs0"
  shows "pipeline_inv env resolve txs0 s \<Longrightarrow> quiet_inv env topic base txs s \<Longrightarrow> running (pl_control s) \<Longrightarrow>
    \<exists>t. (quiet_step env topic)\<^sup>*\<^sup>* s t \<and> drained t \<and> quiet_inv env topic base txs t"
proof (induction "left_to_do (length base + length (all_events txs)) s" arbitrary: s rule: less_induct)
  case less
  show ?case
  proof (cases "drained s")
    case True
    with less.prems(2) show ?thesis by blast
  next
    case False
    obtain t where step: "quiet_step env topic s t" and lt: "left_to_do (length base + length (all_events txs)) t < left_to_do (length base + length (all_events txs)) s"
      using quiet_progress [OF assms(1,2) less.prems False] by (auto simp: gets_further_def)
    have "pipeline_inv env resolve txs0 t"
      using pipeline_inv_step [OF assms(3) quiet_step_is_step [OF step] less.prems(1)] .
    moreover have "quiet_inv env topic base txs t"
      using quiet_inv_step [OF assms(1) step less.prems(1,2)] .
    moreover have "running (pl_control t)"
      using quiet_runs_on [OF step less.prems(1,2) assms(2) less.prems(3)] .
    ultimately show ?thesis
      using less.hyps [OF lt] step by (blast intro: converse_rtranclp_into_rtranclp)
  qed
qed

lemma quiet_runs_never_return:
  assumes "kafka_up env" and "standby_up env" and "serves env resolve txs0" and "(quiet_step env topic)\<^sup>*\<^sup>* s t"
  shows "pipeline_inv env resolve txs0 s \<Longrightarrow> quiet_inv env topic base txs s \<Longrightarrow> running (pl_control s) \<Longrightarrow>
    pipeline_inv env resolve txs0 t \<and> quiet_inv env topic base txs t \<and> running (pl_control t)"
  using assms(4)
proof (induction rule: rtranclp_induct)
  case (step t u)
  then have inv: "pipeline_inv env resolve txs0 t" "quiet_inv env topic base txs t" "running (pl_control t)"
    by simp_all
  show ?case
    using pipeline_inv_step [OF assms(3) quiet_step_is_step [OF step(2)] inv(1)] quiet_inv_step [OF assms(1) step(2) inv(1,2)]
      quiet_runs_on [OF step(2) inv(1,2) assms(2) inv(3)] by blast
qed simp

end
