(* ===== verification/Orderly_System.thy ===== *)
theory Orderly_System
  imports Orderly_Reader Full_System Quiet_Progress
begin

text \<open>
  The two programs on an orderly day: the topic is a redelivery of the source's transactions, so
  the writer that consumes it leads the destination through the states of the source.
\<close>

section \<open>What the two sides rely on\<close>

definition dependable ::
  "reader_env \<Rightarrow> (string \<Rightarrow> string \<Rightarrow> string list) \<Rightarrow> writer_env \<Rightarrow> lsn \<Rightarrow> source_tx list \<Rightarrow> database \<Rightarrow> bool" where
  "dependable renv resolve wenv l txs d0 \<longleftrightarrow>
     serves renv resolve txs \<and> committed_after txs l \<and> distinct (all_events txs) \<and> (\<forall>e \<in> set (all_events txs). wf_event e) \<and>
     kafka_honest renv \<and> reads_back renv wenv (all_events txs) \<and>
     no_faults (we_db wenv) \<and> lsn_codec (we_db wenv) \<and> events_apply (we_db wenv) (all_events txs) d0 \<noteq> None"

lemma dependable_numbered: "dependable renv resolve wenv l txs d0 \<Longrightarrow> \<forall>(tx, es) \<in> set txs. numbered tx es"
  using served_numbered by (fastforce simp: dependable_def)

lemma dependable_marshals: "dependable renv resolve wenv l txs d0 \<Longrightarrow> marshals renv"
  by (simp add: dependable_def kafka_honest_def marshals_def)

section \<open>Transaction boundaries\<close>

lemma numbered_nth:
  "numbered tx es \<Longrightarrow> k < length es \<Longrightarrow>
     Sequence (Source (es ! k)) = int (Suc k) \<and> TransactionEventCount (Source (es ! k)) = int (length es)"
  by (simp add: numbered_def)

text \<open>Events that stop at the last one of a transaction are those of the first transactions.\<close>

lemma whole_prefix:
  "\<forall>(tx, es) \<in> set txs. numbered tx es \<Longrightarrow> all_events txs = es @ rest \<Longrightarrow>
   es = [] \<or> Sequence (Source (last es)) = TransactionEventCount (Source (last es)) \<Longrightarrow>
   \<exists>before todo. txs = before @ todo \<and> es = all_events before"
proof (induction txs arbitrary: es)
  case (Cons x txs)
  obtain tx es0 where x: "x = (tx, es0)"
    by (cases x)
  have n: "numbered tx es0"
    using Cons.prems(1) x by simp
  have split: "es0 @ all_events txs = es @ rest"
    using Cons.prems(2) x by simp
  consider "es = []" | "es \<noteq> []" "length es < length es0" | "length es0 \<le> length es"
    by linarith
  then show ?case
  proof cases
    case 1
    then show ?thesis
      by (intro exI [of _ "[]"] exI [of _ "x # txs"]) simp
  next
    case 2
    then have "last es = es0 ! (length es - 1)"
      using split by (metis diff_less last_conv_nth length_greater_0_conv less_trans nth_append zero_less_one)
    with numbered_nth [OF n, of "length es - 1"] 2
    have "Sequence (Source (last es)) = int (length es)" "TransactionEventCount (Source (last es)) = int (length es0)"
      by (cases es; simp)+
    with Cons.prems(3) 2 show ?thesis by simp
  next
    case 3
    then obtain es1 where es1: "es = es0 @ es1" "all_events txs = es1 @ rest"
      using split by (metis append_eq_append_conv_if append_take_drop_id)
    then have "\<exists>before todo. txs = before @ todo \<and> es1 = all_events before"
    proof (intro Cons.IH)
      show "es1 = [] \<or> Sequence (Source (last es1)) = TransactionEventCount (Source (last es1))"
        using Cons.prems(3) es1(1) by (cases "es1 = []") auto
    qed (use Cons.prems(1) in auto)
    then obtain before todo where "txs = before @ todo" "es1 = all_events before"
      by blast
    with es1(1) x show ?thesis
      by (intro exI [of _ "x # before"] exI [of _ todo]) simp
  qed
qed simp

lemma whole_ends:
  assumes "\<forall>(tx, es) \<in> set txs. numbered tx es"
  shows "all_events txs = [] \<or> Sequence (Source (last (all_events txs))) = TransactionEventCount (Source (last (all_events txs)))"
  using assms
proof (induction txs rule: rev_induct)
  case (snoc x txs)
  obtain tx es where x: "x = (tx, es)"
    by (cases x)
  then have n: "numbered tx es"
    using snoc.prems by simp
  show ?case
  proof (cases "es = []")
    case True
    with snoc x show ?thesis by simp
  next
    case False
    then have "last (all_events (txs @ [x])) = es ! (length es - 1)"
      using x by (simp add: last_append last_conv_nth)
    with numbered_nth [OF n, of "length es - 1"] False show ?thesis
      by simp
  qed
qed simp

text \<open>Of a topic: it ends whole exactly where the last event's numbers say so.\<close>

lemma ends_whole_records:
  assumes "marshals renv" and "reads_back renv wenv es"
  shows "ends_whole wenv (map (record_for renv topic) es) \<longleftrightarrow>
    es = [] \<or> Sequence (Source (last es)) = TransactionEventCount (Source (last es))"
proof (cases "es = []")
  case False
  then have "we_unmarshal wenv (km_Value (record_for renv topic (last es))) = Inr (last es)"
    using record_reads_back [OF assms] by simp
  with False show ?thesis
    by (simp add: ends_whole_def last_map)
qed (simp add: ends_whole_def)

section \<open>The reader's invariant\<close>

definition topic_of :: "reader_env \<Rightarrow> string \<Rightarrow> source_tx list \<Rightarrow> kafka_message list" where
  "topic_of renv topic h = map (record_for renv topic) (all_events h)"

definition orderly_inv :: "reader_env \<Rightarrow> string \<Rightarrow> source_tx list \<Rightarrow> pipeline \<Rightarrow> bool" where
  "orderly_inv renv topic txs s \<longleftrightarrow>
     (\<exists>h n a. redelivery txs h n \<and> a \<le> n \<and> life_ok renv topic (topic_of renv topic h) (drop a txs) s)"

text \<open>The topic shows which transactions it has.\<close>

lemma not_handed_out:
  assumes "dependable renv resolve wenv l txs d0" and "redelivery txs h n" and "fst k = topic_of renv topic h"
    and "n \<le> i" and "i < length txs" and "snd (txs ! i) \<noteq> []"
  shows "\<not> delivered renv (snd (txs ! i)) k"
proof
  assume del: "delivered renv (snd (txs ! i)) k"
  note dep = assms(1) [unfolded dependable_def]
  define e where "e = hd (snd (txs ! i))"
  have e: "e \<in> set (snd (txs ! i))"
    using assms(6) by (simp add: e_def)
  have i: "txs ! i \<in> set (drop n txs)"
    using assms(4,5) by (auto simp: in_set_conv_nth intro: exI [of _ "i - n"])
  then have "txs ! i \<in> set txs"
    by (rule in_set_dropD)
  then have "reads_back renv wenv (snd (txs ! i))"
    using dep by (auto simp: reads_back_def)
  from delivered_record [OF del e this] obtain j where j: "j < length (fst k)" "we_unmarshal wenv (km_Value (fst k ! j)) = Inr e"
    by (auto simp: log_event_def nth_topic_log)
  define e' where "e' = all_events h ! j"
  have e': "e' \<in> set (all_events h)" "fst k ! j = record_for renv topic e'"
    using j(1) assms(3) by (simp_all add: topic_of_def e'_def del: set_concat)
  have "set (all_events h) \<subseteq> set (all_events (take n txs))"
    using redelivery_bounds [OF assms(2)] by auto
  with e'(1) have early: "e' \<in> set (all_events (take n txs))"
    by blast
  moreover have "all_events txs = all_events (take n txs) @ all_events (drop n txs)"
    by (metis append_take_drop_id concat_append map_append)
  ultimately have all: "e' \<in> set (all_events txs)" "e' \<notin> set (all_events (drop n txs))"
    using dep by (auto simp del: set_concat)
  have "we_unmarshal wenv (km_Value (fst k ! j)) = Inr e'"
    using record_reads_back [OF dependable_marshals [OF assms(1)] _ all(1)] dep e'(2) by simp
  with j(2) have "e = e'" by simp
  with all(2) e i show False by auto
qed

text \<open>So a stream that starts over starts at a transaction that was handed out, or at the next one.\<close>

lemma starts_within:
  assumes "dependable renv resolve wenv l txs d0" and "redelivery txs h n" and "fst k = topic_of renv topic h" and "covered renv txs p k"
  shows "\<exists>a m. redelivery txs h m \<and> a \<le> m \<and> filter (\<lambda>(tx, es). p < ct_EndLSN tx) txs = drop a txs"
proof -
  have "in_commit_order txs"
    using assms(1) by (simp add: dependable_def serves_def)
  then obtain before where before: "txs = before @ filter (\<lambda>(tx, es). p < ct_EndLSN tx) txs" "\<forall>(tx, es) \<in> set before. ct_EndLSN tx \<le> p"
    using after_position by blast
  define a where "a = length before"
  have drop: "filter (\<lambda>(tx, es). p < ct_EndLSN tx) txs = drop a txs" and take: "take a txs = before"
    using before(1) by (metis a_def append_eq_conv_conj)+
  have a: "a \<le> length txs"
    using before(1) by (metis a_def le_add1 length_append)
  have "delivered renv (snd (txs ! i)) k" if "i < a" for i
  proof -
    have "txs ! i \<in> set before"
      using that a take by (metis in_set_conv_nth length_take min.absorb2 nth_take)
    then have "ct_EndLSN (fst (txs ! i)) \<le> p" "(fst (txs ! i), snd (txs ! i)) \<in> set txs"
      using before(2) that a by (auto simp: case_prod_beta)
    with assms(4) show ?thesis
      by (auto simp: covered_def)
  qed
  with not_handed_out [OF assms(1-3)] a have empty: "snd (txs ! i) = []" if "n \<le> i" "i < a" for i
    using that by (meson less_le_trans)
  show ?thesis
  proof (cases "a \<le> n")
    case True
    with assms(2) drop show ?thesis by blast
  next
    case False
    then have "redelivery txs h (n + (a - n))"
      using a empty by (intro redelivery_no_records [OF assms(2)]) auto
    with False drop show ?thesis by auto
  qed
qed

lemma stream_starts_over:
  assumes "dependable renv resolve wenv l txs d0" and "redelivery txs h n" and "fst (pl_kafka s) = topic_of renv topic h"
    and "pl_control s = AtTop" and "restarts renv resolve (pl_reader s)" and "not_publishing (pl_publisher s)"
    and "pipeline_inv renv resolve txs s"
  shows "orderly_inv renv topic txs s"
proof -
  have "covered renv txs (durable (pl_reader s)) (pl_kafka s)"
    using assms(7) by (simp add: pipeline_inv_def core_inv_def)
  then obtain a m where am: "redelivery txs h m" "a \<le> m"
      "filter (\<lambda>(tx, es). durable (pl_reader s) < ct_EndLSN tx) txs = drop a txs"
    using starts_within [OF assms(1-3)] by blast
  have "reads renv (rd_decoder (pl_reader s)) (rd_connection (pl_reader s)) (drop a txs)"
    using assms(1,5) am(3) by (auto simp: reads_def restarts_def dependable_def serves_def)
  moreover have "logged renv topic (topic_of renv topic h) [] (pl_publisher s) (pl_kafka s)"
    using assms(3,6) by (cases "pl_publisher s") (simp_all add: published_def)
  ultimately have "log_ok renv topic (topic_of renv topic h) (drop a txs) (pl_reader s) (pl_publisher s) (pl_kafka s) (pl_control s)"
    unfolding assms(4) log_ok.simps by (intro exI [of _ "[]"] exI [of _ "drop a txs"]) simp
  with am show ?thesis
    unfolding orderly_inv_def by (blast intro: life_alive)
qed

lemma new_orderly_inv:
  assumes "dependable renv resolve wenv l txs d0" and "new_pipeline renv resolve l s"
  shows "orderly_inv renv topic txs s"
proof -
  have "quiet_inv renv topic [] txs s"
    using assms new_quiet_inv by (blast intro: new_quiet_inv [of renv resolve txs l s topic] dest: dependable_def [THEN iffD1])
  then have "life_ok renv topic (topic_of renv topic []) (drop 0 txs) s"
    by (intro life_alive) (simp add: quiet_inv_def topic_of_def del: log_ok.simps)
  with redelivery.nothing_yet show ?thesis
    unfolding orderly_inv_def by blast
qed

lemma topic_goes_on:
  assumes "redelivery txs h n" and "a \<le> n" and "drop a txs = before @ todo"
    and "published renv topic (topic_of renv topic h) (all_events before) k"
  shows "\<exists>m. redelivery txs (h @ before) m \<and> fst k = topic_of renv topic (h @ before)"
  using redelivery_goes_on [OF assms(3,1,2)] assms(4) by (auto simp: published_def topic_of_def)

lemma process_starts_whole:
  assumes "dependable renv resolve wenv l txs d0" and "new_process renv topic resolve (topic_of renv topic h) (drop a txs) t"
    and "ends_whole wenv (fst (pl_kafka t))"
  shows "starts_over renv topic resolve (topic_of renv topic h) (drop a txs) t"
proof -
  obtain es rest where es: "all_events (drop a txs) = es @ rest" "fst (pl_kafka t) = topic_of renv topic h @ map (record_for renv topic) es"
    and t: "t = rebooted renv resolve t"
    using assms(2) by (auto simp: new_process_def published_def)
  have numbered: "\<forall>(tx, es) \<in> set (drop a txs). numbered tx es"
    using dependable_numbered [OF assms(1)] by (blast dest: in_set_dropD)
  have "set (all_events (drop a txs)) \<subseteq> set (all_events txs)"
    by (auto dest: in_set_dropD)
  then have "set es \<subseteq> set (all_events txs)"
    unfolding es(1) by simp
  moreover have "reads_back renv wenv (all_events txs)"
    using assms(1) by (simp add: dependable_def)
  ultimately have codec: "reads_back renv wenv es"
    unfolding reads_back_def by blast
  have "ends_whole wenv (map (record_for renv topic) es)"
    using assms(3) es(2) by (cases "es = []") (simp_all add: ends_whole_def)
  with ends_whole_records [OF dependable_marshals [OF assms(1)] codec]
  have "es = [] \<or> Sequence (Source (last es)) = TransactionEventCount (Source (last es))"
    by blast
  from whole_prefix [OF numbered es(1) this] es(2)
  have "\<exists>before todo. drop a txs = before @ todo \<and> published renv topic (topic_of renv topic h) (all_events before) (pl_kafka t)"
    by (auto simp: published_def)
  moreover have "pl_control t = AtTop" "restarts renv resolve (pl_reader t)" "not_publishing (pl_publisher t)"
    by (subst t, simp add: rebooted_def new_reader_restarts)+
  ultimately show ?thesis
    by (simp add: starts_over_def)
qed

lemma orderly_inv_step:
  assumes "dependable renv resolve wenv l txs d0" and "orderly_step renv topic resolve wenv s t"
    and "pipeline_inv renv resolve txs s" and "orderly_inv renv topic txs s"
  shows "orderly_inv renv topic txs t"
proof -
  note dep = assms(1) [unfolded dependable_def] and step = assms(2) [unfolded orderly_step_def]
  obtain h n a where h: "redelivery txs h n" "a \<le> n" "life_ok renv topic (topic_of renv topic h) (drop a txs) s"
    using assms(4) by (auto simp: orderly_inv_def)
  have inv: "pipeline_inv renv resolve txs t"
    using pipeline_inv_step [OF _ _ assms(3)] dep step by blast
  have "life_ok renv topic (topic_of renv topic h) (drop a txs) t \<or> starts_over renv topic resolve (topic_of renv topic h) (drop a txs) t"
    using life_step [OF _ _ assms(3) h(3)] process_starts_whole [OF assms(1)] dep step by (metis new_process_def)
  then show ?thesis
  proof
    assume "life_ok renv topic (topic_of renv topic h) (drop a txs) t"
    with h show ?thesis
      unfolding orderly_inv_def by blast
  next
    assume over: "starts_over renv topic resolve (topic_of renv topic h) (drop a txs) t"
    then obtain before todo where "drop a txs = before @ todo"
        "published renv topic (topic_of renv topic h) (all_events before) (pl_kafka t)"
      by (auto simp: starts_over_def)
    from topic_goes_on [OF h(1,2) this] stream_starts_over [OF assms(1) _ _ _ _ _ inv] over show ?thesis
      by (auto simp: starts_over_def)
  qed
qed

interpretation orderly: step_invariant "new_pipeline renv resolve l" "orderly_step renv topic resolve wenv"
  "\<lambda>s. dependable renv resolve wenv l txs d0 \<longrightarrow> pipeline_inv renv resolve txs s \<and> orderly_inv renv topic txs s"
  for renv resolve l topic wenv txs d0
proof unfold_locales
  fix s
  assume "new_pipeline renv resolve l s"
  then show "dependable renv resolve wenv l txs d0 \<longrightarrow> pipeline_inv renv resolve txs s \<and> orderly_inv renv topic txs s"
    using new_pipeline_inv new_orderly_inv unfolding dependable_def by (metis dependable_def)
next
  fix s t
  assume inv: "dependable renv resolve wenv l txs d0 \<longrightarrow> pipeline_inv renv resolve txs s \<and> orderly_inv renv topic txs s"
    and step: "orderly_step renv topic resolve wenv s t"
  then show "dependable renv resolve wenv l txs d0 \<longrightarrow> pipeline_inv renv resolve txs t \<and> orderly_inv renv topic txs t"
    using orderly_inv_step [OF _ step] pipeline_inv_step by (metis dependable_def orderly_step_def)
qed

section \<open>The writer next to it\<close>

inductive orderly_system_step ::
  "reader_env \<Rightarrow> string \<Rightarrow> (string \<Rightarrow> string \<Rightarrow> string list) \<Rightarrow> writer_env \<Rightarrow> (nat \<Rightarrow> goerr option) \<Rightarrow> system \<Rightarrow> system \<Rightarrow> bool"
  for renv topic resolve wenv ctx_err where
  orderly_reader_step: "orderly_step renv topic resolve wenv s t \<Longrightarrow> orderly_system_step renv topic resolve wenv ctx_err (s, ws) (t, ws)"
| orderly_writer_step: "writer_step wenv ctx_err (topic_log (fst (pl_kafka s))) ws ws'
    \<Longrightarrow> orderly_system_step renv topic resolve wenv ctx_err (s, ws) (s, ws')"

lemma orderly_system_full: "orderly_system_step renv topic resolve wenv ctx_err x y \<Longrightarrow> full_step renv topic resolve wenv ctx_err x y"
  by (induction rule: orderly_system_step.induct) (auto simp: orderly_step_def intro: full_step.intros)

lemma orderly_systems_full:
  "(orderly_system_step renv topic resolve wenv ctx_err)\<^sup>*\<^sup>* x y \<Longrightarrow> (full_step renv topic resolve wenv ctx_err)\<^sup>*\<^sup>* x y"
  by (rule mono_rtranclp [rule_format]) (rule orderly_system_full)

text \<open>What the writer has done on the topic as it grew, it could have done on the topic as it is now.\<close>

lemma writer_steps_prefix:
  "(writer_step env ctx_err (topic_log ms))\<^sup>*\<^sup>* x y \<Longrightarrow> (writer_step env ctx_err (topic_log (ms @ ms')))\<^sup>*\<^sup>* x y"
  by (rule mono_rtranclp [rule_format]) (rule writer_step_prefix)

lemma orderly_runs:
  "(orderly_system_step renv topic resolve wenv ctx_err)\<^sup>*\<^sup>* x y \<Longrightarrow>
     (orderly_step renv topic resolve wenv)\<^sup>*\<^sup>* (fst x) (fst y) \<and>
     (writer_step wenv ctx_err (topic_log (fst (pl_kafka (fst y)))))\<^sup>*\<^sup>* (snd x) (snd y)"
proof (induction rule: rtranclp_induct)
  case (step y z)
  from step(2) show ?case
  proof cases
    case (orderly_reader_step s t ws)
    then obtain new where "fst (pl_kafka t) = fst (pl_kafka s) @ new"
      using pipeline_step_grows unfolding orderly_step_def log_grows_def by blast
    with orderly_reader_step step.IH writer_steps_prefix show ?thesis
      by (auto intro: rtranclp.rtrancl_into_rtrancl)
  next
    case (orderly_writer_step s ws ws')
    with step.IH show ?thesis
      by (auto intro: rtranclp.rtrancl_into_rtrancl)
  qed
qed simp

text \<open>What the topic has and what the running process still has to publish, as one redelivery.\<close>

lemma orderly_redelivery:
  assumes "orderly_inv renv topic txs s"
  shows "\<exists>h n extra. redelivery txs h n \<and> fst (pl_kafka s) @ extra = topic_of renv topic h"
proof -
  obtain h n a where h: "redelivery txs h n" "a \<le> n" "life_ok renv topic (topic_of renv topic h) (drop a txs) s"
    using assms by (auto simp: orderly_inv_def)
  then obtain es rest where "all_events (drop a txs) = es @ rest" "fst (pl_kafka s) = topic_of renv topic h @ map (record_for renv topic) es"
    unfolding life_ok_def published_def [symmetric] by (blast dest: log_prefix_published)
  then have "fst (pl_kafka s) @ map (record_for renv topic) rest = topic_of renv topic (h @ drop a txs)"
    by (simp add: topic_of_def)
  moreover obtain m where "redelivery txs (h @ drop a txs) m"
    using redelivery_goes_on [of a txs "drop a txs" "[]", OF _ h(1,2)] by auto
  ultimately show ?thesis by blast
qed

text \<open>So the writer keeps its invariant for that redelivery.\<close>

lemma redelivery_clean:
  assumes "dependable renv resolve wenv l txs d0" and "redelivery txs h n"
  shows "clean_run wenv (topic_log (topic_of renv topic h)) (transactions h) d0"
proof -
  note dep = assms(1) [unfolded dependable_def]
  have sub: "set h \<subseteq> set txs"
    using redelivery_in [OF assms(2)] .
  have "events_apply (we_db wenv) (all_events (take n txs)) d0 \<noteq> None"
    using dep events_apply_prefix by (metis append_take_drop_id concat_append map_append)
  then have "events_apply (we_db wenv) (all_events h) d0 \<noteq> None"
    using redelivery_effect [OF assms(2)] dep by simp
  moreover have "\<forall>(tx, es) \<in> set h. numbered tx es"
    using dependable_numbered [OF assms(1)] sub by blast
  moreover have "\<forall>e \<in> set (all_events h). wf_event e" "reads_back renv wenv (all_events h)"
    using dep sub by (auto simp: reads_back_def)
  ultimately show ?thesis
    using topic_clean [OF dependable_marshals [OF assms(1)]] dep by (simp add: full_topic_def topic_of_def)
qed

lemma orderly_system_inv:
  assumes "dependable renv resolve wenv l txs d0" and "new_system renv resolve l d0 x"
    and "(orderly_system_step renv topic resolve wenv ctx_err)\<^sup>*\<^sup>* x y"
  shows "pipeline_inv renv resolve txs (fst y) \<and> orderly_inv renv topic txs (fst y) \<and>
    (\<forall>h n extra. redelivery txs h n \<longrightarrow> fst (pl_kafka (fst y)) @ extra = topic_of renv topic h \<longrightarrow>
       once_inv (we_db wenv) (transactions h) d0 (snd y))"
proof -
  note runs = orderly_runs [OF assms(3)] and new = assms(2) [unfolded new_system_def]
  have "pipeline_inv renv resolve txs (fst y) \<and> orderly_inv renv topic txs (fst y)"
    using orderly.reachable_inv [of renv resolve l "fst x" topic wenv "fst y" txs d0] runs new assms(1) by blast
  moreover have "once_inv (we_db wenv) (transactions h) d0 (snd y)"
    if h: "redelivery txs h n" "fst (pl_kafka (fst y)) @ extra = topic_of renv topic h" for h n extra
  proof -
    have "(writer_step wenv ctx_err (topic_log (topic_of renv topic h)))\<^sup>*\<^sup>* (snd x) (snd y)"
      using writer_steps_prefix [of _ _ "fst (pl_kafka (fst y))" _ _ extra] runs h(2) by simp
    with once.reachable_inv new redelivery_clean [OF assms(1) h(1)] show ?thesis
      by blast
  qed
  ultimately show ?thesis by blast
qed

text \<open>The offset it has committed is the end of a transaction in the topic.\<close>

lemma committed_in_log:
  assumes "writer_inv wenv log (w, pos)"
  shows "committed_pos w \<le> length log"
proof (cases "committed_pos w")
  case (Suc n)
  with assms show ?thesis
    by (auto simp: writer_inv_def log_prefix_def log_event_def dest!: spec [of _ n])
qed simp

lemma settled_ends_whole:
  assumes "dependable renv resolve wenv l txs d0" and "redelivery txs h n" and "ms @ extra = topic_of renv topic h"
    and "settled env (transactions h) d0 w m" and "committed_pos w \<le> length ms"
  shows "ends_whole wenv (take (committed_pos w) ms)"
proof -
  have m: "m \<le> length (transactions h)" "committed_pos w = length (concat (take m (transactions h)))"
    using assms(4) by (auto simp: settled_def tx_start_def)
  obtain h1 h2 where h: "h = h1 @ h2" "take m (transactions h) = transactions h1"
    using transactions_take [OF m(1)] by blast
  have cp: "committed_pos w = length (all_events h1)"
    using m(2) by (simp only: h(2) concat_transactions)
  have "take (committed_pos w) ms = take (committed_pos w) (ms @ extra)"
    using assms(5) by simp
  also have "\<dots> = map (record_for renv topic) (all_events h1)"
    unfolding assms(3) cp by (simp add: topic_of_def h(1))
  finally have ms: "take (committed_pos w) ms = map (record_for renv topic) (all_events h1)" .
  have sub: "set h1 \<subseteq> set txs"
    using redelivery_in [OF assms(2)] h(1) by simp
  then have "\<forall>(tx, es) \<in> set h1. numbered tx es" "reads_back renv wenv (all_events h1)"
    using dependable_numbered [OF assms(1)] assms(1) by (auto simp: dependable_def reads_back_def)
  with ends_whole_records [OF dependable_marshals [OF assms(1)]] whole_ends show ?thesis
    unfolding ms by blast
qed

section \<open>Better days\<close>

text \<open>
  Environments in which the same source, the same JSON and the same destination answer otherwise:
  what may fail there has nothing to do with what failed before.
\<close>

definition same_services :: "reader_env \<Rightarrow> writer_env \<Rightarrow> reader_env \<Rightarrow> writer_env \<Rightarrow> bool" where
  "same_services renv wenv renv' wenv' \<longleftrightarrow>
     re_source renv' = re_source renv \<and> re_stream renv' = re_stream renv \<and> re_marshal renv' = re_marshal renv \<and>
     we_unmarshal wenv' = we_unmarshal wenv \<and> we_db wenv' = we_db wenv"

lemma same_services_reader:
  assumes "same_services renv wenv renv' wenv'"
  shows "serves renv' = serves renv" "reads renv' = reads renv" "pulls renv' = pulls renv" "delivered renv' = delivered renv"
    "record_for renv' = record_for renv"
  using assms by (simp_all add: same_services_def serves_def [abs_def] reads_def [abs_def] pulls_def [abs_def] delivered_def [abs_def] record_for_def [abs_def])

lemma same_services_log:
  assumes "same_services renv wenv renv' wenv'"
  shows "log_ok renv' topic base txs r p k c = log_ok renv topic base txs r p k c"
proof -
  note same = same_services_reader [OF assms]
  have "published renv' = published renv"
    by (simp add: fun_eq_iff published_def same)
  then have "logged renv' topic base es p k = logged renv topic base es p k" for es
    by (cases p) simp_all
  then show ?thesis
    by (cases "(renv, topic, base, txs, r, p, k, c)" rule: log_ok.cases) (simp_all add: same del: logged.simps)
qed

lemma same_services_pipeline:
  assumes "same_services renv wenv renv' wenv'"
  shows "pipeline_inv renv' resolve txs s = pipeline_inv renv resolve txs s"
proof -
  note same = same_services_reader [OF assms]
  have q: "queued renv' txs = queued renv txs" and c: "covered renv' txs = covered renv txs"
    by (simp_all add: fun_eq_iff queued_def covered_def same)
  have h: "handed renv' es p k = handed renv es p k" for es p k
    by (cases p) (simp_all add: same)
  have "stream_ok renv' txs r results p k x = stream_ok renv txs r results p k x" for r results p k x
    by (cases "(renv, txs, r, results, p, k, x)" rule: stream_ok.cases) (simp_all add: same q h)
  then show ?thesis
    by (simp add: pipeline_inv_def core_inv_def c)
qed

text \<open>A process that is up, and what its quiet days lead to.\<close>

definition process_up :: "pipeline \<Rightarrow> bool" where
  "process_up s \<longleftrightarrow> alive (pl_publisher s) \<and> running (pl_control s)"

lemma life_drains:
  assumes "same_services renv wenv renv' wenv'" and "kafka_up renv'" and "standby_up renv'" and "serves renv resolve txs0"
    and "pipeline_inv renv resolve txs0 s" and "life_ok renv topic base txs s" and "process_up s"
  shows "\<exists>t. (quiet_step renv' topic)\<^sup>*\<^sup>* s t \<and> drained t \<and> fst (pl_kafka t) = base @ map (record_for renv topic) (all_events txs)"
proof -
  note same = same_services_reader [OF assms(1)] same_services_log [OF assms(1)] same_services_pipeline [OF assms(1)]
  have "quiet_inv renv' topic base txs s"
    using assms(6,7) by (simp add: quiet_inv_def life_ok_def process_up_def same del: log_ok.simps)
  moreover have "serves renv' resolve txs0" "pipeline_inv renv' resolve txs0 s" "running (pl_control s)"
    using assms(4,5,7) by (simp_all add: process_up_def same)
  ultimately obtain t where "(quiet_step renv' topic)\<^sup>*\<^sup>* s t" "drained t" "quiet_inv renv' topic base txs t"
    using quiet_drains [OF assms(2,3)] by blast
  with drained_log [of renv' topic base txs t] show ?thesis
    by (auto simp: published_def same)
qed

lemma system_drains:
  assumes "dependable renv resolve wenv l txs d0" and "new_system renv resolve l d0 x"
    and "(orderly_system_step renv topic resolve wenv ctx_err)\<^sup>*\<^sup>* x y" and "process_up (fst y)"
    and "same_services renv wenv renv' wenv'" and "kafka_up renv'" and "standby_up renv'"
  shows "\<exists>t h. (quiet_step renv' topic)\<^sup>*\<^sup>* (fst y) t \<and> drained t \<and> redelivery txs h (length txs) \<and> fst (pl_kafka t) = topic_of renv topic h \<and>
    once_inv (we_db wenv) (transactions h) d0 (snd y)"
proof -
  note inv = orderly_system_inv [OF assms(1-3)]
  obtain h n a where h: "redelivery txs h n" "a \<le> n" "life_ok renv topic (topic_of renv topic h) (drop a txs) (fst y)"
    using inv by (auto simp: orderly_inv_def)
  have "serves renv resolve txs"
    using assms(1) by (simp add: dependable_def)
  from life_drains [OF assms(5-7) this _ h(3) assms(4)] inv
  obtain t where t: "(quiet_step renv' topic)\<^sup>*\<^sup>* (fst y) t" "drained t" "fst (pl_kafka t) = topic_of renv topic (h @ drop a txs)"
    by (auto simp: topic_of_def)
  obtain m where m: "redelivery txs (h @ drop a txs) m" "a + length (drop a txs) \<le> m"
    using redelivery_goes_on [of a txs "drop a txs" "[]", OF _ h(1,2)] by auto
  have "a \<le> length txs" "m \<le> length txs"
    using redelivery_bounds [OF h(1)] redelivery_bounds [OF m(1)] h(2) by auto
  then have "m = length txs"
    using m(2) by simp
  with m(1) have full: "redelivery txs (h @ drop a txs) (length txs)"
    by simp
  obtain es rest where es: "all_events (drop a txs) = es @ rest"
      "fst (pl_kafka (fst y)) = topic_of renv topic h @ map (record_for renv topic) es"
    using h(3) unfolding life_ok_def published_def [symmetric] by (blast dest: log_prefix_published)
  have "fst (pl_kafka (fst y)) @ map (record_for renv topic) rest = topic_of renv topic (h @ drop a txs)"
    by (simp add: topic_of_def es)
  with inv full have "once_inv (we_db wenv) (transactions (h @ drop a txs)) d0 (snd y)"
    by blast
  with t full show ?thesis by blast
qed

end
