(* ===== verification/Joint_Samples.thy ===== *)
theory Joint_Samples
  imports Reader_Samples Destination_Samples Orderly_System
begin

text \<open>The sample source and the sample destination put together.\<close>

text \<open>A writer that reads back what the sample reader writes: the sequence number of an insert.\<close>

definition reading_env :: writer_env where
  "reading_env = sample_writer_env\<lparr>we_unmarshal := (\<lambda>v. Inr (insert_event (digits_value v)))\<rparr>"

text \<open>A destination with the table that the sample source replicates, \<open>public.users (id, bio)\<close>.\<close>

definition bio_table :: dtable where
  "bio_table = \<lparr>tbl_columns = [(''id'', ''bigint''), (''bio'', ''text'')], tbl_primary = [''id''], tbl_unique = [],
     tbl_notnull = [''id''], tbl_defaults = [(''id'', None), (''bio'', None)], tbl_rows = []\<rparr>"

definition bio_db :: database where
  "bio_db = sample_db\<lparr>tables := [users_name \<mapsto> bio_table]\<rparr>"

lemma sample_new_writer: "new_writer_on d (sample_writer d, 0)"
  by (simp add: new_writer_on_def new_writer_def sample_writer_def sample_conn_def idle_def)

lemma wf_insert_event: "wf_event (insert_event 1)" "wf_event (insert_event 2)"
  by code_simp+

lemma inserts_apply: "events_apply sample_env [insert_event 1, insert_event 2] bio_db \<noteq> None"
  by code_simp

text \<open>Without crashes the scheduler makes the steps of a quiet day.\<close>

lemma pick_quiet:
  assumes "c \<noteq> DoCrash"
  shows "(quiet_step env topic)\<^sup>*\<^sup>* s (pick env topic resolve c s)"
proof -
  have "pick env topic resolve c s = s \<or> quiet_step env topic s (pick env topic resolve c s)"
  proof (cases c)
    case DoMessage
    then show ?thesis
      using quiet_message [of s _ _ env 0] by (auto split: control.split list.split option.split prod.split)
  next
    case DoHand
    then show ?thesis
      using quiet_hand [of s] by (auto simp: sendWork_def split: control.split publisher.split)
  next
    case DoReply
    then show ?thesis
      using quiet_reply [of s] by (auto split: publisher.split list.split)
  qed (use assms in \<open>auto simp del: on_received.simps split: control.split publisher.split prod.split list.split intro: quiet_step.intros\<close>)
  then show ?thesis by auto
qed

lemma schedule_quiet: "DoCrash \<notin> set cs \<Longrightarrow> (quiet_step env topic)\<^sup>*\<^sup>* s (schedule env topic resolve cs s)"
  unfolding schedule_def
proof (induction cs arbitrary: s)
  case (Cons c cs)
  then have "(quiet_step env topic)\<^sup>*\<^sup>* s (pick env topic resolve c s)"
    by (intro pick_quiet) auto
  with Cons show ?case
    using rtranclp_trans by fastforce
qed simp

lemma reader_steps_in_system: "(quiet_step renv topic)\<^sup>*\<^sup>* s t \<Longrightarrow> (system_step renv topic wenv ctx_err)\<^sup>*\<^sup>* (s, ws) (t, ws)"
  by (induction rule: rtranclp_induct) (auto intro: reader_moves rtranclp.rtrancl_into_rtrancl)

text \<open>An orderly schedule: where a new process may be, the topic ends whole.\<close>

fun at_top :: "control \<Rightarrow> bool" where
  "at_top AtTop \<longleftrightarrow> True"
| "at_top _ \<longleftrightarrow> False"

fun orderly_schedule ::
  "reader_env \<Rightarrow> string \<Rightarrow> (string \<Rightarrow> string \<Rightarrow> string list) \<Rightarrow> writer_env \<Rightarrow> choice list \<Rightarrow> pipeline \<Rightarrow> bool" where
  "orderly_schedule env topic resolve wenv [] s \<longleftrightarrow> True"
| "orderly_schedule env topic resolve wenv (c # cs) s \<longleftrightarrow>
     (let t = pick env topic resolve c s
      in (at_top (pl_control t) \<longrightarrow> ends_whole wenv (fst (pl_kafka t))) \<and> orderly_schedule env topic resolve wenv cs t)"

lemma new_process_at_top: "s = rebooted env resolve s \<Longrightarrow> at_top (pl_control s)"
  by (metis at_top.simps(1) pipeline.ext_inject pipeline.surjective pipeline.update_convs(1-4) rebooted_def)

lemma schedule_orderly:
  "orderly_schedule env topic resolve wenv cs s \<Longrightarrow>
     (orderly_step env topic resolve wenv)\<^sup>*\<^sup>* s (schedule env topic resolve cs s)"
  unfolding schedule_def
proof (induction cs arbitrary: s)
  case (Cons c cs)
  let ?t = "pick env topic resolve c s"
  have "?t = s \<or> orderly_step env topic resolve wenv s ?t"
    using pick_step [of env topic resolve c s] Cons.prems new_process_at_top [of ?t env resolve]
    by (auto simp: orderly_step_def Let_def simp del: pick.simps)
  moreover have "(orderly_step env topic resolve wenv)\<^sup>*\<^sup>* ?t (fold (pick env topic resolve) cs ?t)"
    using Cons by (simp add: Let_def)
  ultimately show ?case
    by (auto simp del: pick.simps intro: converse_rtranclp_into_rtranclp)
qed simp

lemma orderly_reader_in_system:
  "(orderly_step renv topic resolve wenv)\<^sup>*\<^sup>* s t \<Longrightarrow> (orderly_system_step renv topic resolve wenv ctx_err)\<^sup>*\<^sup>* (s, ws) (t, ws)"
  by (induction rule: rtranclp_induct) (auto intro: orderly_reader_step rtranclp.rtrancl_into_rtrancl)

lemma orderly_writer_in_system:
  "(writer_step wenv ctx_err (topic_log (fst (pl_kafka s))))\<^sup>*\<^sup>* ws ws' \<Longrightarrow>
     (orderly_system_step renv topic resolve wenv ctx_err)\<^sup>*\<^sup>* (s, ws) (s, ws')"
  by (induction rule: rtranclp_induct) (auto intro: orderly_writer_step rtranclp.rtrancl_into_rtrancl)

text \<open>
  The reader publishes the transaction, dies before it acknowledges it, and publishes it again from
  the slot; the writer consumes all four records.
\<close>

definition repeated_run :: "choice list" where
  "repeated_run = concat (replicate 5 [DoTop, DoMessage]) @ concat (replicate 2 [DoQueue, DoHand, DoPublish]) @ [DoCrash] @ good_run"

definition repeated_state :: pipeline where
  "repeated_state = schedule (sample_reader (\<lambda>_. None)) ''t'' sample_resolve repeated_run (sample_start (\<lambda>_. None))"

definition writer_four :: "goerr option \<times> writer" where
  "writer_four = consume_records reading_env (\<lambda>_. None) (topic_log (fst (pl_kafka repeated_state))) (sample_writer bio_db)"

lemma repeated_orderly:
  "orderly_schedule (sample_reader (\<lambda>_. None)) ''t'' sample_resolve reading_env repeated_run (sample_start (\<lambda>_. None))"
  by code_simp

lemma repeated_values: "map km_Value (fst (pl_kafka repeated_state)) = [''1'', ''2'', ''1'', ''2'']"
  by code_simp

lemma writer_four_consumes: "fst writer_four = None" "committed_pos (snd writer_four) = 4"
  by code_simp+

end
