(* ===== verification/Reader_Properties.thy ===== *)
theory Reader_Properties
  imports Writer_Wedge Joint_Samples
begin

text \<open>
  What the reader promises: no committed transaction is lost between PostgreSQL and Kafka, and
  acknowledgements come in source order; and what happens when Kafka or the reader fails in the
  middle of a transaction.
\<close>

section \<open>No loss\<close>

text \<open>C5. No transaction is lost: in every reachable state of the reader, whatever the goroutines'
  interleaving, failing services, reconnects, cancellations and crashes, each committed transaction
  that ends at or below the position reported to PostgreSQL for the slot has all its events in
  Kafka, in order.\<close>

theorem no_transaction_lost:
  assumes "serves env resolve txs" and "committed_after txs l" and "new_pipeline env resolve l s0"
    and "(pipeline_step env topic resolve)\<^sup>*\<^sup>* s0 s" and "(tx, es) \<in> set txs" and "ct_EndLSN tx \<le> rd_slot (pl_reader s)"
  shows "subseq (map (re_marshal env) es) (map (Inr \<circ> km_Value) (fst (pl_kafka s)))"
proof -
  have "pipeline_inv env resolve txs s"
    using pipeline.reachable_inv [OF assms(3,4)] assms(1,2) by blast
  from slot_delivered [OF this assms(5,6)] show ?thesis
    unfolding delivered_def .
qed

theorem no_transaction_lost_witness:
  "\<exists>s. (pipeline_step (sample_reader (\<lambda>_. None)) ''t'' sample_resolve)\<^sup>*\<^sup>* (sample_start (\<lambda>_. None)) s \<and> rd_slot (pl_reader s) = LSN 32 \<and>
     subseq [''1'', ''2''] (map km_Value (fst (pl_kafka s)))"
proof -
  let ?env = "sample_reader (\<lambda>_. None)"
  let ?s = "schedule ?env ''t'' sample_resolve good_run (sample_start (\<lambda>_. None))"
  have run: "(pipeline_step ?env ''t'' sample_resolve)\<^sup>*\<^sup>* (sample_start (\<lambda>_. None)) ?s"
    by (rule schedule_steps)
  have slot: "rd_slot (pl_reader ?s) = LSN 32"
    by code_simp
  have tx: "(descriptor 9 (LSN 16) (LSN 32) 5 2, [insert_event 1, insert_event 2]) \<in> set sample_committed"
    by (simp add: sample_committed_def)
  have payload: "map (re_marshal ?env) [insert_event 1, insert_event 2] = map Inr [''1'', ''2'']"
    by code_simp
  have "subseq (map Inr [''1'', ''2'']) (map Inr (map km_Value (fst (pl_kafka ?s))) :: (goerr + string) list)"
    using no_transaction_lost [OF sample_serves sample_committed_after sample_start_new run tx] slot payload
    by (simp add: descriptor_def comp_def)
  from subseq_map [OF this, of "case_sum (\<lambda>_. []) id"] have "subseq [''1'', ''2''] (map km_Value (fst (pl_kafka ?s)))"
    by (simp add: comp_def)
  with run slot show ?thesis by blast
qed



section \<open>A failed publication\<close>

text \<open>The reader without restarts.\<close>

definition running_step ::
  "reader_env \<Rightarrow> string \<Rightarrow> (string \<Rightarrow> string \<Rightarrow> string list) \<Rightarrow> pipeline \<Rightarrow> pipeline \<Rightarrow> bool" where
  "running_step env topic resolve s t \<longleftrightarrow> pipeline_step env topic resolve s t \<and> t \<noteq> rebooted env resolve s"

definition publisher_gone :: "pipeline \<Rightarrow> bool" where
  "publisher_gone s \<longleftrightarrow> pl_publisher s = Exited \<and> pl_results s = []"

lemma drain_nothing: "drainPublicationResults env [] r = (Inr False, [], r)"
  by (simp add: drainPublicationResults_def)

lemma recovers_in_place:
  assumes "reconnect env r = (e, r')"
  shows "durable r' = durable r"
proof -
  let ?r = "count_reader (\<lambda>c. c\<lparr>replicationRejoins := replicationRejoins c + 1\<rparr>) (inc_error ''replication'') r"
  have "durable (snd (redial env s)) = durable r" if "durable s = durable r" for s
    using that by (auto simp: redial_def dialReplication_def Let_def split: option.split)
  from retry_Do_keeps [of "\<lambda>s. durable s = durable r", OF this _ assms [unfolded reconnect_def]] show ?thesis
    by simp
qed

lemma after_drain_gone:
  assumes "after_drain env ctx_err report nxt [] r = (x, results, r')"
  shows "results = [] \<and> durable r' = durable r"
  using assms send_and_rearm_same [of env r]
  by (auto simp: after_drain_def drain_nothing same_stream_def split: if_splits prod.splits option.splits)

lemma on_received_gone:
  assumes "on_received env ctx_err msg [] r = (x, results, r')"
  shows "results = [] \<and> durable r' = durable r"
  using assms
proof (cases "(env, ctx_err, msg, [] :: publicationResult list, r)" rule: on_received.cases)
  case (1 env' ctx' e timeout results' r'')
  then have h: "on_receive_error env ctx_err timeout [] r = (x, results, r')"
    using assms by auto
  show ?thesis
  proof (cases "ctx_err = None \<and> timeout")
    case True
    then have "after_drain env ctx_err (\<lambda>_. True) NextIteration [] r = (x, results, r')"
      using h on_timeout_drains [of ctx_err env "[]" r] by simp
    then show ?thesis
      by (rule after_drain_gone)
  next
    case False
    then show ?thesis
      using h finalStandby_same [of env r] recovers_in_place [of env r]
      by (auto simp: on_receive_error_def same_stream_def split: prod.splits option.splits if_splits)
  qed
next
  case (5 env' ctx' reply results' r'')
  then show ?thesis
    using assms after_drain_gone by (fastforce simp: on_keepalive_drains split: if_splits)
next
  case (8 env' ctx' walStart m results' r'')
  then show ?thesis
    using assms by (auto simp: on_logical_message_def split: sum.splits prod.splits option.splits)
qed auto

lemma gone_step:
  assumes "running_step env topic resolve s t" and "publisher_gone s"
  shows "publisher_gone t \<and> pl_kafka t = pl_kafka s \<and> durable (pl_reader t) = durable (pl_reader s)"
proof -
  have s: "pl_publisher s = Exited" "pl_results s = []"
    using assms(2) by (simp_all add: publisher_gone_def)
  have "pipeline_step env topic resolve s t" "t \<noteq> rebooted env resolve s"
    using assms(1) by (simp_all add: running_step_def)
  then show ?thesis
  proof (cases rule: pipeline_step.cases)
    case (step_top ctx_err nxt results r)
    then show ?thesis
      using s after_drain_gone [of env ctx_err] by (fastforce simp: publisher_gone_def stream_top_drains)
  next
    case (step_receive msg ctx_err nxt results r)
    then show ?thesis
      using s on_received_gone [of env ctx_err msg] by (simp add: publisher_gone_def)
  next
    case (step_message m ms ctx_err walStart nxt results r)
    then show ?thesis
      using s on_received_gone [OF step_message(4) [unfolded s(2)]] by (simp add: publisher_gone_def)
  next
    case (step_queue tx n q r)
    then show ?thesis
      using s by (auto simp: publisher_gone_def queueTransactionEvents_def split: if_splits sum.splits option.splits prod.splits)
  next
    case (step_status work tx n ctx_err nxt' r)
    then show ?thesis
      using s send_and_rearm_same [of env "pl_reader s"]
      by (auto simp: publisher_gone_def sendWork_def same_stream_def split: option.splits prod.splits)
  next
    case (step_done work tx n ctx_err e nxt' r)
    then show ?thesis
      using s by (simp add: publisher_gone_def sendWork_def)
  qed (use s in \<open>simp_all add: publisher_gone_def\<close>)
qed

text \<open>C38. A failed publication hangs the reader. The publisher leaves for good after a hard failure;
  when its result reaches \<open>sendWork\<close> of a descriptor and the replication connection is dialled
  again, \<open>sendWork\<close> returns nil, and the stream loop goes on without a publisher: as long as the
  process runs, nothing is published and the durable position does not move. (The comments say
  that the transaction is replayed once publishing succeeds again.)\<close>

theorem publish_failure_hangs:
  assumes "pl_control s = Handing (TxWork tx) tx n" and "pl_publisher s = Exited" and "pl_results s = [result]"
    and "pr_err result = Some err" and "recoverPublication env None (pl_reader s) = (None, r)"
  shows "\<exists>t. pipeline_step env topic resolve s t \<and> pl_control t = AtTop \<and>
    (\<forall>u. (running_step env topic resolve)\<^sup>*\<^sup>* t u \<longrightarrow>
       pl_kafka u = pl_kafka s \<and> durable (pl_reader u) = durable (pl_reader t) \<and> publisher_gone u)"
proof -
  have "sendWork env None (GotResult result) (pl_reader s) = (SendReturns None, r)"
    using assms(4,5) by (simp add: sendWork_def applyPublicationResult_def)
  from step_result [OF assms(1,3) this]
  have step: "pipeline_step env topic resolve s (s\<lparr>pl_reader := r, pl_control := AtTop, pl_results := []\<rparr>)"
    by simp
  let ?t = "s\<lparr>pl_reader := r, pl_control := AtTop, pl_results := []\<rparr>"
  have "pl_kafka u = pl_kafka s \<and> durable (pl_reader u) = durable (pl_reader ?t) \<and> publisher_gone u"
    if "(running_step env topic resolve)\<^sup>*\<^sup>* ?t u" for u
    using that
  proof (induction rule: rtranclp_induct)
    case base
    then show ?case
      using assms(2) by (simp add: publisher_gone_def)
  next
    case (step u v)
    with gone_step show ?case by metis
  qed
  with step show ?thesis
    by (intro exI [of _ ?t]) simp
qed

text \<open>A Kafka that takes the first event and then fails for long enough.\<close>

definition outage :: "nat \<Rightarrow> (goerr \<times> bool) option" where
  "outage n = (if n = 0 then None else Some (ServiceErr ''broker'', False))"

definition outage_run :: "choice list" where
  "outage_run = concat (replicate 5 [DoTop, DoMessage]) @ [DoQueue, DoHand, DoPublish, DoQueue, DoHand, DoPublish, DoReply, DoQueue]"

theorem publish_failure_hangs_witness:
  "\<exists>s t. (pipeline_step (sample_reader outage) ''t'' sample_resolve)\<^sup>*\<^sup>* (sample_start outage) s \<and>
     pipeline_step (sample_reader outage) ''t'' sample_resolve s t \<and> pl_control t = AtTop \<and> publisher_gone t"
proof -
  let ?env = "sample_reader outage"
  let ?s = "schedule ?env ''t'' sample_resolve outage_run (sample_start outage)"
  have run: "(pipeline_step ?env ''t'' sample_resolve)\<^sup>*\<^sup>* (sample_start outage) ?s"
    by (rule schedule_steps)
  have c: "case pl_control ?s of Handing (TxWork tx) tx' n \<Rightarrow> tx = tx' | _ \<Rightarrow> False"
    by code_simp
  have p: "case pl_publisher ?s of Exited \<Rightarrow> True | _ \<Rightarrow> False"
    by code_simp
  have r: "length (pl_results ?s) = 1" "list_all (\<lambda>result. pr_err result \<noteq> None) (pl_results ?s)"
    by code_simp+
  have f: "fst (recoverPublication ?env None (pl_reader ?s)) = None"
    by code_simp
  obtain tx n where tx: "pl_control ?s = Handing (TxWork tx) tx n"
    using c by (auto split: control.splits publishWork.splits)
  obtain result err where res: "pl_results ?s = [result]" "pr_err result = Some err"
    using r by (cases "pl_results ?s") auto
  have gone: "pl_publisher ?s = Exited"
    using p by (cases "pl_publisher ?s") auto
  obtain r' where "recoverPublication ?env None (pl_reader ?s) = (None, r')"
    using f by (metis prod.collapse)
  from publish_failure_hangs [OF tx gone res this, of "''t''" sample_resolve] run show ?thesis
    by (metis rtranclp.rtrancl_refl)
qed

section \<open>A transaction cut short\<close>

text \<open>C12. A transaction that breaks off wedges the writer: when the log has the first event of a transaction of
  several and then a record that does not go on with it, the writer never gets past that event,
  whatever it is restarted and retried. Such logs are what the reader leaves behind when it
  crashes, or gives up on Kafka, in the middle of a transaction, and then publishes the
  transaction again from its first event.\<close>

theorem broken_transaction_wedges_writer:
  assumes "breaks_off env log p e1 e2" and "new_writer (w0, 0)" and "(writer_step env ctx_err log)\<^sup>*\<^sup>* (w0, 0) (w, pos)"
  shows "committed_pos w \<le> p \<and> pos \<le> Suc p"
  using wedge_reachable [OF assms] by (simp add: wedge_inv_def)

text \<open>The reader crashes after the first of two events, and starts again.\<close>

definition crash_run :: "choice list" where
  "crash_run = concat (replicate 5 [DoTop, DoMessage]) @ [DoQueue, DoHand, DoPublish, DoCrash] @ good_run"

definition crashed_log :: "kafka_record list" where
  "crashed_log = map (\<lambda>(i, v). \<lparr>rec_topic = ''t'', rec_partition = 0, rec_offset = i, rec_key = [], rec_value = v\<rparr>)
     [(0, ''1''), (1, ''1''), (2, ''2'')]"

theorem broken_transaction_wedges_writer_witness:
  "\<exists>s w. (pipeline_step (sample_reader (\<lambda>_. None)) ''t'' sample_resolve)\<^sup>*\<^sup>* (sample_start (\<lambda>_. None)) s \<and>
     map km_Value (fst (pl_kafka s)) = map rec_value crashed_log \<and>
     (writer_step reading_env (\<lambda>_. None) crashed_log)\<^sup>*\<^sup>* (sample_writer sample_db, 0) (w, 1) \<and> committed_pos w = 0"
proof -
  let ?env = "sample_reader (\<lambda>_. None)"
  let ?s = "schedule ?env ''t'' sample_resolve crash_run (sample_start (\<lambda>_. None))"
  have run: "(pipeline_step ?env ''t'' sample_resolve)\<^sup>*\<^sup>* (sample_start (\<lambda>_. None)) ?s"
    by (rule schedule_steps)
  have log: "map km_Value (fst (pl_kafka ?s)) = map rec_value crashed_log"
    by code_simp
  let ?e1 = "insert_event 1"
  have e: "log_event reading_env crashed_log 0 ?e1" "log_event reading_env crashed_log (Suc 0) ?e1"
    by (simp_all add: log_event_def crashed_log_def reading_env_def digits_value_def)
  have "log_offsets crashed_log"
    by (simp add: log_offsets_def crashed_log_def nth_Cons split: nat.split)
  with e have broken: "breaks_off reading_env crashed_log 0 ?e1 ?e1"
    by (simp add: breaks_off_def insert_event_def event_of_def descriptor_def)
  have new: "new_writer (sample_writer sample_db, 0)"
    by (simp add: new_writer_def sample_writer_def sample_conn_def idle_def)
  let ?r = "handleEvent reading_env (\<lambda>_. None) (crashed_log ! 0) ?e1 (sample_writer sample_db)"
  have "fst ?r = None"
    by code_simp
  then obtain w where "?r = (None, w)"
    by (cases ?r) auto
  from step_event [OF e(1) this]
  have w: "(writer_step reading_env (\<lambda>_. None) crashed_log)\<^sup>*\<^sup>* (sample_writer sample_db, 0) (w, 1)"
    by simp
  from broken_transaction_wedges_writer [OF broken new w] run log w show ?thesis
    by auto
qed

end
