(* ===== verification/Process_Shell.thy ===== *)
theory Process_Shell
  imports Reader Observer Cdcctl Writer
begin

text \<open>
  What is around the programs: the \<open>main\<close> functions with their exit status, the goroutines that
  report at every tick, and the protocol log of the reader. A printed line is its format with its
  arguments. Signals only cancel the context that \<open>run\<close> is given; the HTTP server of the metrics is
  not modelled.
\<close>

section \<open>Exit status\<close>

text \<open>The status, and what is printed on the way out, for what \<open>run\<close> returned.\<close>

definition reader_main :: "goerr option \<Rightarrow> nat \<times> (string \<times> goerr) option" where
  "reader_main returned =
     (case returned of
        Some err \<Rightarrow> if \<not> errors_is err Canceled then (1, Some (''source reader stopped: %v'', err)) else (0, None)
      | None \<Rightarrow> (0, None))"

definition writer_main :: "goerr option \<Rightarrow> nat \<times> (string \<times> goerr) option" where
  "writer_main returned =
     (case returned of
        Some err \<Rightarrow> if \<not> errors_is err Canceled then (1, Some (''destination writer stopped: %v'', err)) else (0, None)
      | None \<Rightarrow> (0, None))"

definition cdcctl_main :: "outcome \<Rightarrow> nat \<times> (string \<times> goerr) option" where
  "cdcctl_main ended =
     (case ended of
        ExitedWith code \<Rightarrow> (code, None)
      | Finished (Some err) out c \<Rightarrow> (1, Some (''cdcctl:'', err))
      | Finished None out c \<Rightarrow> (0, None))"

section \<open>Reporting at every tick\<close>

text \<open>What wakes the goroutine, with the state it sees: a tick, or the end of its context.\<close>

datatype 's wake = Ticked 's | ContextDone

fun ticker_loop :: "('s \<Rightarrow> 'line) \<Rightarrow> 's wake list \<Rightarrow> 'line list" where
  "ticker_loop report [] = []"
| "ticker_loop report (ContextDone # wakes) = []"
| "ticker_loop report (Ticked s # wakes) = report s # ticker_loop report wakes"

type_synonym log_line = "string \<times> string list"

definition source_metrics_line :: "reader_env \<Rightarrow> reader \<Rightarrow> log_line" where
  "source_metrics_line env r =
     (''trace stage=source_metrics events_published=%d transactions_acked=%d publish_failures=%d replication_rejoins=%d kafka_durable_lsn=%s'',
      [itoa (uint (eventsPublished (rd_counts r))), itoa (uint (transactionsAcked (rd_counts r))),
       itoa (uint (publishFailures (rd_counts r))), itoa (uint (replicationRejoins (rd_counts r))), lsn_arg env (durable r)])"

definition reader_metrics_loop :: "reader_env \<Rightarrow> reader wake list \<Rightarrow> log_line list" where
  "reader_metrics_loop env = ticker_loop (source_metrics_line env)"

definition observer_Start :: "kafka_offsets wake list \<Rightarrow> metrics_line option list" where
  "observer_Start = ticker_loop logMetrics"

lemma ticker_loop_reports: "ticker_loop report (map Ticked states @ ContextDone # later) = map report states"
  by (induction states) auto

section \<open>The protocol log\<close>

definition logLogicalMessage :: "reader_env \<Rightarrow> message \<Rightarrow> lsn \<Rightarrow> log_line list" where
  "logLogicalMessage env message walStart =
     (case message of
        RelationMsg m \<Rightarrow>
          [(''protocol message=Relation wal_start=%s relation_id=%d table=%s.%s replica_identity=%c columns=%d'',
            [lsn_arg env walStart, itoa (uint (RelationID m)), Namespace m, RelationName m, [ReplicaIdentity m],
             itoa (int (length (Columns m)))])]
      | BeginMsg xid \<Rightarrow>
          [(''protocol message=Begin wal_start=%s txid=%d'', [lsn_arg env walStart, itoa (uint xid)])]
      | InsertMsg rid tuple \<Rightarrow>
          [(''protocol message=Insert wal_start=%s relation_id=%d tuple_columns=%d'',
            [lsn_arg env walStart, itoa (uint rid), itoa (int (tupleColumnCount tuple))])]
      | UpdateMsg rid oldType oldTuple newTuple \<Rightarrow>
          [(''protocol message=Update wal_start=%s relation_id=%d old_tuple=%s new_tuple_columns=%d'',
            [lsn_arg env walStart, itoa (uint rid), oldTupleKind oldType, itoa (int (tupleColumnCount newTuple))])]
      | DeleteMsg rid oldType oldTuple \<Rightarrow>
          [(''protocol message=Delete wal_start=%s relation_id=%d old_tuple=%s tuple_columns=%d'',
            [lsn_arg env walStart, itoa (uint rid), oldTupleKind oldType, itoa (int (tupleColumnCount oldTuple))])]
      | TruncateMsg rids \<Rightarrow>
          [(''protocol message=Truncate wal_start=%s relations=%d'', [lsn_arg env walStart, itoa (int (length rids))])]
      | CommitMsg commitLSN endLSN commitTime \<Rightarrow>
          [(''protocol message=Commit wal_start=%s commit_lsn=%s end_lsn=%s'',
            [lsn_arg env walStart, lsn_arg env commitLSN, lsn_arg env endLSN])]
      | OtherMsg \<Rightarrow> [])"

text \<open>Every message the decoder takes leaves one line, every other one none.\<close>

lemma logLogicalMessage_once: "length (logLogicalMessage env m walStart) = (if m = OtherMsg then 0 else 1)"
  by (cases m) (simp_all add: logLogicalMessage_def)

end
