(* ===== verification/Reader_Exit.thy ===== *)
theory Reader_Exit
  imports Process_Shell Reader_Samples
begin

text \<open>
  How the reader ends: a failed publication is only ever received by \<open>sendWork\<close>, so the branches
  of \<open>stream\<close> that recover from one in other places, and would return the nil of a successful
  reconnect, are never taken.
\<close>

fun settled_publisher :: "publisher \<Rightarrow> bool" where
  "settled_publisher (Publishing event) \<longleftrightarrow> False"
| "settled_publisher (Replying result leave) \<longleftrightarrow> \<not> leave"
| "settled_publisher _ \<longleftrightarrow> True"

definition failed_results :: "publicationResult list \<Rightarrow> bool" where
  "failed_results results \<longleftrightarrow> (\<exists>result \<in> set results. pr_err result \<noteq> None)"

lemma failed_results_simps [simp]:
  "\<not> failed_results []" "failed_results (result # results) \<longleftrightarrow> pr_err result \<noteq> None \<or> failed_results results"
  by (simp_all add: failed_results_def)

definition exit_inv :: "pipeline \<Rightarrow> bool" where
  "exit_inv s \<longleftrightarrow> pl_control s \<noteq> Returned None \<and> (failed_results (pl_results s) \<longrightarrow> pl_publisher s = Exited) \<and>
     (pl_control s \<in> {AtTop, AtReceive} \<longrightarrow> \<not> failed_results (pl_results s) \<and> settled_publisher (pl_publisher s))"

section \<open>The operations\<close>

lemma apply_succeeds:
  assumes "core_inv env resolve txs r (result # results) p k" and "pr_err result = None"
  shows "\<exists>r'. applyPublicationResult env result r = (None, r')"
proof -
  have "durable r \<le> ct_EndLSN (pr_transaction result)"
    using assms by (auto simp: core_inv_def adjacent_def)
  then have "(ct_EndLSN (pr_transaction result) < durable r) = False"
    by simp
  with assms(2) show ?thesis
    by (simp add: applyPublicationResult_def)
qed

lemma drain_succeeds:
  "drain_results env advanced results r = (x, rest, r') \<Longrightarrow> core_inv env resolve txs r results p k \<Longrightarrow> \<not> failed_results results
    \<Longrightarrow> (\<exists>b. x = Inr b) \<and> rest = []"
proof (induction results arbitrary: advanced r)
  case (Cons result results)
  then obtain r1 where r1: "applyPublicationResult env result r = (None, r1)"
    using apply_succeeds [OF Cons.prems(2)] by auto
  with apply_core [OF this Cons.prems(2)] Cons show ?case
    by simp
qed auto

text \<open>Where the loop goes from a turn of it.\<close>

fun goes_on :: "stream_next \<Rightarrow> bool" where
  "goes_on (Return None) \<longleftrightarrow> False"
| "goes_on _ \<longleftrightarrow> True"

lemma after_drain_succeeds:
  assumes "core_inv env resolve txs r results p k" and "\<not> failed_results results" and "goes_on nxt"
    and "after_drain env ctx_err report nxt results r = (nxt', rest, r')"
  shows "goes_on nxt' \<and> rest = []"
  using drain_succeeds [OF _ assms(1,2), of False] assms(3,4)
  by (auto simp: after_drain_def drainPublicationResults_def split: prod.splits sum.splits option.splits if_splits)

lemma on_received_succeeds:
  assumes "core_inv env resolve txs r results p k" and "\<not> failed_results results"
    and "on_received env ctx_err msg results r = (nxt, rest, r')"
  shows "goes_on nxt \<and> (rest = [] \<or> rest = results)"
proof (cases "(env, ctx_err, msg, results, r)" rule: on_received.cases)
  case (1 env' ctx' e timeout results' r'')
  then have h: "on_receive_error env ctx_err timeout results r = (nxt, rest, r')"
    using assms(3) by auto
  show ?thesis
  proof (cases "ctx_err = None \<and> timeout")
    case True
    then have "after_drain env ctx_err (\<lambda>_. True) NextIteration results r = (nxt, rest, r')"
      using h on_timeout_drains [of ctx_err env results r] by simp
    from after_drain_succeeds [OF assms(1,2) _ this] show ?thesis
      by simp
  next
    case False
    then show ?thesis
      using h by (auto simp: on_receive_error_def finalStandby_def split: prod.splits option.splits if_splits)
  qed
next
  case (5 env' ctx' reply results' r'')
  then show ?thesis
    using assms(3) after_drain_succeeds [OF assms(1,2), of NextIteration ctx_err] by (auto simp: on_keepalive_drains split: if_splits)
next
  case (8 env' ctx' walStart m results' r'')
  then show ?thesis
    using assms(3) by (auto simp: on_logical_message_def split: sum.splits prod.splits option.splits)
qed (use assms(3) in auto)

lemma goes_on_after: "goes_on nxt \<Longrightarrow> after_stream nxt \<noteq> Returned None"
  by (cases nxt rule: goes_on.cases) auto

section \<open>The invariant\<close>

lemma after_send_goes_on: "after_send work tx n nxt \<noteq> Returned None"
  by (cases "(work, tx, n, nxt)" rule: after_send.cases) auto

lemma after_send_again: "after_send work tx n nxt \<in> {AtTop, AtReceive} \<Longrightarrow> nxt = SendReturns None"
  by (cases "(work, tx, n, nxt)" rule: after_send.cases) auto

lemma exit_inv_stream:
  assumes "exit_inv s" and "goes_on nxt" and "rest = [] \<or> rest = pl_results s" and "pl_control s \<in> {AtTop, AtReceive}"
  shows "exit_inv (s\<lparr>pl_reader := r, pl_control := after_stream nxt, pl_results := rest\<rparr>)"
  using assms goes_on_after [OF assms(2)] by (auto simp: exit_inv_def)

lemma exit_inv_step:
  assumes "pipeline_step env topic resolve s t" and "pipeline_inv env resolve txs s" and "exit_inv s"
  shows "exit_inv t"
proof -
  have core: "core_inv env resolve txs (pl_reader s) (pl_results s) (pl_publisher s) (pl_kafka s)"
    using assms(2) by (simp add: pipeline_inv_def)
  then have leave: "pl_publisher s = Replying result leave \<Longrightarrow> leave \<longleftrightarrow> pr_err result \<noteq> None" for result leave
    by (simp add: core_inv_def)
  have one: "length (pl_results s) \<le> 1"
    using core by (simp add: core_inv_def)
  note inv = assms(3) [unfolded exit_inv_def]
  from assms(1) show ?thesis
  proof cases
    case (step_top ctx_err nxt results r)
    then have "goes_on nxt \<and> results = []"
      using after_drain_succeeds [OF core, of Receive] inv by (simp add: stream_top_drains)
    then show ?thesis
      using exit_inv_stream [OF assms(3)] step_top by simp
  next
    case (step_receive msg ctx_err nxt results r)
    then show ?thesis
      using exit_inv_stream [OF assms(3)] on_received_succeeds [OF core _ step_receive(4)] inv by simp
  next
    case (step_message m ms ctx_err walStart nxt results r)
    then have "goes_on nxt \<and> results = pl_results s"
      by (auto simp: on_logical_message_def split: sum.splits prod.splits option.splits)
    with exit_inv_stream [OF assms(3), of nxt results] step_message(1,2) show ?thesis
      by simp
  next
    case (step_queue tx n q r)
    then show ?thesis
      using inv by (cases q) (simp_all add: exit_inv_def)
  next
    case (step_hand work tx n ctx_err nxt' r)
    then show ?thesis
      using inv by (cases work) (auto simp: exit_inv_def sendWork_def)
  next
    case (step_result work tx n result results ctx_err nxt' r)
    have rest: "results = []"
      using one step_result(3) by simp
    show ?thesis
    proof (cases "pr_err result")
      case None
      then obtain r1 where "applyPublicationResult env result (pl_reader s) = (None, r1)"
        using apply_succeeds core step_result(3) by metis
      then show ?thesis
        using step_result rest by (auto simp: exit_inv_def sendWork_def split: prod.splits option.splits)
    next
      case (Some err)
      then have "pl_publisher s = Exited"
        using inv step_result(3) by simp
      with Some show ?thesis
        using step_result(1) rest after_send_goes_on by (simp add: exit_inv_def)
    qed
  next
    case (step_status work tx n ctx_err nxt' r)
    then show ?thesis
      using inv by (auto simp: exit_inv_def sendWork_def split: prod.splits option.splits)
  next
    case (step_done work tx n ctx_err e nxt' r)
    then show ?thesis
      using inv by (auto simp: exit_inv_def sendWork_def)
  next
    case (step_publish event p k r)
    then show ?thesis
      using inv by (auto simp: exit_inv_def)
  next
    case (step_reply result leave)
    then show ?thesis
      using inv leave by (auto simp: exit_inv_def)
  qed (use inv in \<open>auto simp: exit_inv_def rebooted_def\<close>)
qed

interpretation exits: step_invariant "new_pipeline env resolve l" "pipeline_step env topic resolve"
  "\<lambda>s. serves env resolve txs \<and> committed_after txs l \<longrightarrow> pipeline_inv env resolve txs s \<and> exit_inv s"
  for env topic resolve txs l
proof unfold_locales
  fix s
  assume "new_pipeline env resolve l s"
  then show "serves env resolve txs \<and> committed_after txs l \<longrightarrow> pipeline_inv env resolve txs s \<and> exit_inv s"
    using new_pipeline_inv by (auto simp: new_pipeline_def exit_inv_def)
next
  fix s t
  assume "serves env resolve txs \<and> committed_after txs l \<longrightarrow> pipeline_inv env resolve txs s \<and> exit_inv s"
    and "pipeline_step env topic resolve s t"
  then show "serves env resolve txs \<and> committed_after txs l \<longrightarrow> pipeline_inv env resolve txs t \<and> exit_inv t"
    using pipeline_inv_step exit_inv_step by blast
qed

section \<open>The exit status\<close>

text \<open>C11. The reader ends with status 0 only when it was cancelled: in every reachable state in which
  \<open>stream\<close> has returned, whatever the goroutines' interleaving, failures, reconnects and crashes, it
  has returned an error, so \<open>main\<close> ends with status 1 unless the error is the cancellation of the
  context. The branches of the stream loop that return nil after they have recovered from a failed
  publication are never taken.\<close>

theorem clean_exit_only_when_cancelled:
  assumes "serves env resolve txs" and "committed_after txs l" and "new_pipeline env resolve l s0"
    and "(pipeline_step env topic resolve)\<^sup>*\<^sup>* s0 s" and "pl_control s = Returned returned" and "fst (reader_main returned) = 0"
  shows "\<exists>err. returned = Some err \<and> errors_is err Canceled"
proof -
  have "exit_inv s"
    using exits.reachable_inv [OF assms(3,4)] assms(1,2) by blast
  with assms(5,6) show ?thesis
    by (auto simp: exit_inv_def reader_main_def split: option.splits if_splits)
qed

text \<open>The reader is told to stop while it hands an event over.\<close>

theorem clean_exit_only_when_cancelled_witness:
  "\<exists>s err. (pipeline_step (sample_reader (\<lambda>_. None)) ''t'' sample_resolve)\<^sup>*\<^sup>* (sample_start (\<lambda>_. None)) s \<and>
     pl_control s = Returned (Some err) \<and> fst (reader_main (Some err)) = 0 \<and> errors_is err Canceled"
proof -
  let ?env = "sample_reader (\<lambda>_. None)"
  let ?s = "schedule ?env ''t'' sample_resolve (concat (replicate 5 [DoTop, DoMessage]) @ [DoQueue]) (sample_start (\<lambda>_. None))"
  let ?t = "?s\<lparr>pl_control := Returned (Some Canceled)\<rparr>"
  have "case pl_control ?s of Handing work tx n \<Rightarrow> True | _ \<Rightarrow> False"
    by code_simp
  then obtain work tx n where "pl_control ?s = Handing work tx n"
    by (auto split: control.splits)
  then have "pipeline_step ?env ''t'' sample_resolve ?s ?t"
    using step_done [of ?s work tx n ?env None Canceled "SendReturns (Some Canceled)" "pl_reader ?s"] by (simp add: sendWork_def)
  with schedule_steps have run: "(pipeline_step ?env ''t'' sample_resolve)\<^sup>*\<^sup>* (sample_start (\<lambda>_. None)) ?t"
    by (rule rtranclp.rtrancl_into_rtrancl)
  have zero: "fst (reader_main (Some Canceled)) = 0"
    by (simp add: reader_main_def errors_is_def)
  have "\<exists>err. Some Canceled = Some err \<and> errors_is err Canceled"
    by (rule clean_exit_only_when_cancelled [OF sample_serves sample_committed_after sample_start_new run _ zero]) simp
  with run zero show ?thesis
    by (intro exI [of _ ?t] exI [of _ Canceled]) simp
qed

end
