(* ===== verification/Reader_Boot.thy ===== *)
theory Reader_Boot
  imports Pipeline Program_Config Sql_Text
begin

text \<open>
  \<open>cmd/source-reader/main.go\<close> up to the stream: the Kafka topic and its durability, the fence, the
  slot and its WAL, the replica identities, and \<open>run\<close>. The answers of Kafka and of the source
  database are arguments; an error of a call is on the left.
\<close>

section \<open>Numbers\<close>

text \<open>\<open>strconv.Atoi\<close>: a sign, then digits, within 64 bits.\<close>

definition is_digit :: "char \<Rightarrow> bool" where
  "is_digit c \<longleftrightarrow> (let n = (of_char c :: nat) in 48 \<le> n \<and> n \<le> 57)"

definition Atoi :: "string \<Rightarrow> goerr + int" where
  "Atoi s =
     (let negative = (case s of c # _ \<Rightarrow> c = CHR ''-'' | [] \<Rightarrow> False);
          signed = (case s of c # _ \<Rightarrow> c = CHR ''-'' \<or> c = CHR ''+'' | [] \<Rightarrow> False);
          digits = (if signed then tl s else s);
          n = (if negative then - int (digits_value digits) else int (digits_value digits))
      in if digits = [] \<or> \<not> list_all is_digit digits then Inl (Errorf ''strconv.Atoi: parsing %q: invalid syntax'' [s])
         else if n < - (2 ^ 63) \<or> 2 ^ 63 \<le> n then Inl (Errorf ''strconv.Atoi: parsing %q: value out of range'' [s])
         else Inr n)"

section \<open>The Kafka topic\<close>

definition minimumKafkaBrokers :: nat where
  "minimumKafkaBrokers = 3"

definition minimumKafkaReplication :: nat where
  "minimumKafkaReplication = 3"

definition minimumKafkaInSyncReplicas :: nat where
  "minimumKafkaInSyncReplicas = 2"

definition kafkaTopicRetention :: int where
  "kafkaTopicRetention = 7 * 24 * 3600 * second"

text \<open>What is asked for: partitions, replication factor and topic configuration.\<close>

definition topic_request :: "nat \<times> nat \<times> (string \<times> string) list" where
  "topic_request =
     (1, minimumKafkaReplication,
      [(''min.insync.replicas'', itoa (int minimumKafkaInSyncReplicas)),
       (''retention.ms'', itoa (kafkaTopicRetention sdiv millisecond))])"

definition TopicAlreadyExists :: goerr where
  "TopicAlreadyExists = ServiceErr ''TOPIC_ALREADY_EXISTS''"

definition UnknownTopicOrPartition :: goerr where
  "UnknownTopicOrPartition = ServiceErr ''UNKNOWN_TOPIC_OR_PARTITION''"

text \<open>The answer of \<open>CreateTopics\<close>, of \<open>On\<close> for the topic, and the error in the topic's response.\<close>

definition ensureKafkaTopicConfig :: "string \<Rightarrow> goerr + goerr + goerr option \<Rightarrow> goerr option" where
  "ensureKafkaTopicConfig topic answer =
     (let failed = (\<lambda>e. Some (Wrapf ''create Kafka topic %q: %w'' [topic] e)) in
      case answer of
        Inl err \<Rightarrow> failed err
      | Inr (Inr None) \<Rightarrow> None
      | Inr (Inr (Some response_err)) \<Rightarrow> if \<not> errors_is response_err TopicAlreadyExists then failed response_err else None
      | Inr (Inl err) \<Rightarrow> if \<not> errors_is err UnknownTopicOrPartition then failed err else None)"

record kafka_partition =
  kp_Partition :: int
  kp_ISR :: "int list"

text \<open>\<open>td_NumReplicas\<close> is the answer of the client library's method of that name.\<close>

record topic_detail =
  td_Err :: "goerr option"
  td_Partitions :: "kafka_partition list"
  td_NumReplicas :: nat

record kafka_metadata =
  km_Brokers :: "int list"
  km_Topics :: "string \<rightharpoonup> topic_detail"

fun check_isr :: "string \<Rightarrow> kafka_partition list \<Rightarrow> goerr option" where
  "check_isr topic [] = None"
| "check_isr topic (part # partitions) =
     (if length (kp_ISR part) < minimumKafkaInSyncReplicas
      then Some (Errorf ''unsafe Kafka configuration: topic %q partition %d has %d in-sync replicas, want at least %d''
             [topic, itoa (kp_Partition part), itoa (int (length (kp_ISR part))), itoa (int minimumKafkaInSyncReplicas)])
      else check_isr topic partitions)"

fun read_min_isr :: "(string \<times> string) list \<Rightarrow> int \<Rightarrow> goerr + int" where
  "read_min_isr [] minISR = Inr minISR"
| "read_min_isr ((key, val) # configs) minISR =
     (if key \<noteq> ''min.insync.replicas'' then read_min_isr configs minISR
      else (case Atoi val of
              Inl e \<Rightarrow> Inl (Wrapf ''parse Kafka min.insync.replicas %q: %w'' [val] e)
            | Inr n \<Rightarrow> read_min_isr configs n))"

definition verifyKafkaDurability ::
  "string \<Rightarrow> goerr + kafka_metadata \<Rightarrow> goerr + goerr + (string \<times> string) list \<Rightarrow> goerr option" where
  "verifyKafkaDurability topic metadata configs =
     (case metadata of
        Inl e \<Rightarrow> Some (Wrapf ''fetch Kafka metadata: %w'' [] e)
      | Inr m \<Rightarrow>
     if length (km_Brokers m) < minimumKafkaBrokers
     then Some (Errorf ''unsafe Kafka configuration: %d brokers, want at least %d''
            [itoa (int (length (km_Brokers m))), itoa (int minimumKafkaBrokers)])
     else
     (case km_Topics m topic of
        None \<Rightarrow> Some (Errorf ''Kafka topic %q was not found'' [topic])
      | Some detail \<Rightarrow>
     (case td_Err detail of
        Some e \<Rightarrow> Some (Wrapf ''load Kafka topic %q: %w'' [topic] e)
      | None \<Rightarrow>
     if length (td_Partitions detail) \<noteq> 1
     then Some (Errorf ''unsafe Kafka configuration: topic %q has %d partitions, want exactly 1 to preserve event order''
            [topic, itoa (int (length (td_Partitions detail)))])
     else if td_NumReplicas detail < minimumKafkaReplication
     then Some (Errorf ''unsafe Kafka configuration: topic %q has replication factor %d, want at least %d''
            [topic, itoa (int (td_NumReplicas detail)), itoa (int minimumKafkaReplication)])
     else
     (case check_isr topic (td_Partitions detail) of
        Some e \<Rightarrow> Some e
      | None \<Rightarrow>
     (case configs of
        Inl e \<Rightarrow> Some (Wrapf ''describe Kafka topic config for %q: %w'' [topic] e)
      | Inr (Inl e) \<Rightarrow> Some (Wrapf ''read Kafka topic config for %q: %w'' [topic] e)
      | Inr (Inr cs) \<Rightarrow>
     (case read_min_isr cs 0 of
        Inl e \<Rightarrow> Some e
      | Inr minISR \<Rightarrow>
     if minISR < int minimumKafkaInSyncReplicas
     then Some (Errorf ''unsafe Kafka configuration: topic %q min.insync.replicas is %d, want at least %d''
            [topic, itoa minISR, itoa (int minimumKafkaInSyncReplicas)])
     else None))))))"

section \<open>The fence\<close>

text \<open>\<open>hash/fnv\<close>, 64-bit FNV-1a, read as a signed number.\<close>

definition fnv64a :: "string \<Rightarrow> 64 word" where
  "fnv64a s = foldl (\<lambda>h c. xor h (of_nat (of_char c)) * 1099511628211) 14695981039346656037 s"

definition fenceKey :: "string \<Rightarrow> int" where
  "fenceKey slot = sint (fnv64a slot)"

text \<open>The lock is held by the connection; \<open>try_lock\<close> answers the query for a key.\<close>

definition acquireFence :: "string \<Rightarrow> goerr option \<Rightarrow> (int \<Rightarrow> goerr + bool) \<Rightarrow> goerr option" where
  "acquireFence slot connect try_lock =
     (case connect of
        Some e \<Rightarrow> Some (Wrapf ''connect to PostgreSQL for fencing: %w'' [] e)
      | None \<Rightarrow>
     (case try_lock (fenceKey slot) of
        Inl e \<Rightarrow> Some (Wrapf ''acquire replication slot fence for %q: %w'' [slot] e)
      | Inr acquired \<Rightarrow>
          if \<not> acquired
          then Some (Errorf ''another source reader already holds the fence for slot %q; refusing to duplicate it'' [slot])
          else None))"

section \<open>The slot\<close>

definition findSlotLSN :: "(string \<Rightarrow> lsn option) \<Rightarrow> string \<Rightarrow> goerr option \<Rightarrow> goerr + string \<Rightarrow> goerr + lsn \<times> bool" where
  "findSlotLSN parse_lsn slot connect answer =
     (case connect of
        Some e \<Rightarrow> Inl (Wrapf ''connect to PostgreSQL SQL endpoint: %w'' [] e)
      | None \<Rightarrow>
     (case answer of
        Inl e \<Rightarrow> if errors_is e ErrNoRows then Inr (0, False) else Inl (Wrapf ''read replication slot %q: %w'' [slot] e)
      | Inr lsnText \<Rightarrow>
     (case parse_lsn lsnText of
        None \<Rightarrow> Inl (Wrapf ''parse acknowledged slot LSN %q: %w'' [lsnText] (ServiceErr ''ParseLSN''))
      | Some l \<Rightarrow> Inr (l, True))))"

text \<open>\<open>retained\<close> answers whether the WAL file of a position is still there.\<close>

definition verifySlotRecoverable ::
  "(string \<Rightarrow> lsn option) \<Rightarrow> (lsn \<Rightarrow> string) \<Rightarrow> string \<Rightarrow> bool \<Rightarrow> goerr option \<Rightarrow> goerr + string
     \<Rightarrow> (string \<Rightarrow> goerr + bool) \<Rightarrow> goerr option" where
  "verifySlotRecoverable parse_lsn lsn_text slot slotExists connect restart retained =
     (if \<not> slotExists then None
      else (case connect of
        Some e \<Rightarrow> Some (Wrapf ''connect to PostgreSQL for corruption check: %w'' [] e)
      | None \<Rightarrow>
     (case restart of
        Inl e \<Rightarrow> Some (Wrapf ''read slot %q restart point: %w'' [slot] e)
      | Inr restartText \<Rightarrow>
     (case parse_lsn restartText of
        None \<Rightarrow> Some (Wrapf ''parse slot %q restart point %q: %w'' [slot, restartText] (ServiceErr ''ParseLSN''))
      | Some restartLSN \<Rightarrow>
     (case retained restartText of
        Inl e \<Rightarrow> Some (Wrapf ''verify WAL retention for slot %q: %w'' [slot] e)
      | Inr kept \<Rightarrow>
          if \<not> kept
          then Some (Errorf (''corrupted state: slot %q restart point %s has been recycled away, ''
                       @ ''the required WAL no longer exists; restore the slot or reset the pipeline'') [slot, lsn_text restartLSN])
          else None)))))"

definition createReplicationSlot :: "(string \<Rightarrow> lsn option) \<Rightarrow> string \<Rightarrow> goerr option \<Rightarrow> goerr + string \<Rightarrow> goerr + lsn" where
  "createReplicationSlot parse_lsn slot connect answer =
     (case connect of
        Some e \<Rightarrow> Inl (Wrapf ''connect to PostgreSQL replication protocol: %w'' [] e)
      | None \<Rightarrow>
     (case answer of
        Inl e \<Rightarrow> Inl (Wrapf ''create replication slot %q: %w'' [slot] e)
      | Inr consistentPoint \<Rightarrow>
     (case parse_lsn consistentPoint of
        None \<Rightarrow> Inl (Wrapf ''parse slot consistent point %q: %w'' [consistentPoint] (ServiceErr ''ParseLSN''))
      | Some l \<Rightarrow> Inr l)))"

section \<open>Replica identities\<close>

text \<open>A row of the discovery query: schema, table, replica identity mode, primary key, index columns.\<close>

record published_table =
  pt_schema :: string
  pt_table :: string
  pt_mode :: string
  pt_pk :: "string list"
  pt_ri :: "string list"

definition pt_name :: "published_table \<Rightarrow> string" where
  "pt_name t = pt_schema t @ ''.'' @ pt_table t"

definition identity_key :: "published_table \<Rightarrow> goerr + string list" where
  "identity_key t =
     (let chosen =
        (if pt_mode t = ''n''
         then Inl (Errorf (''unsafe source configuration: table %s has REPLICA IDENTITY NOTHING, ''
                     @ ''so deletes and update keys would be lost; run ''
                     @ ''ALTER TABLE %s REPLICA IDENTITY DEFAULT (or FULL / USING INDEX) and restart the reader'')
                     [pt_name t, pt_name t])
         else if pt_mode t = ''d'' then Inr (pt_pk t)
         else if pt_mode t = ''i'' then Inr (pt_ri t)
         else if pt_mode t = ''f'' then Inr (pt_pk t)
         else Inl (Errorf ''table %s has unknown replica identity %q'' [pt_name t, pt_mode t]))
      in case chosen of
           Inl e \<Rightarrow> Inl e
         | Inr key \<Rightarrow>
             if key = []
             then Inl (Errorf (''unsafe source configuration: table %s has REPLICA IDENTITY %s but no key the ''
                         @ ''pipeline can address rows with; add a PRIMARY KEY (FULL/DEFAULT) or set ''
                         @ ''ALTER TABLE %s REPLICA IDENTITY USING INDEX to a unique index'')
                         [pt_name t, pt_mode t, pt_name t])
             else Inr key)"

fun identity_rows :: "(goerr + published_table) list \<Rightarrow> (string \<rightharpoonup> string list) \<Rightarrow> goerr + (string \<rightharpoonup> string list)" where
  "identity_rows [] found = Inr found"
| "identity_rows (Inl e # rows) found = Inl (Wrapf ''scan published table for replica identity discovery: %w'' [] e)"
| "identity_rows (Inr t # rows) found =
     (case identity_key t of
        Inl e \<Rightarrow> Inl e
      | Inr key \<Rightarrow> identity_rows rows (found(pt_name t \<mapsto> key)))"

definition discoverIdentity ::
  "goerr option \<Rightarrow> goerr + (goerr + published_table) list \<times> goerr option \<Rightarrow> goerr + (string \<rightharpoonup> string list)" where
  "discoverIdentity connect answer =
     (case connect of
        Some e \<Rightarrow> Inl (Wrapf ''connect to source to discover replica identities: %w'' [] e)
      | None \<Rightarrow>
     (case answer of
        Inl e \<Rightarrow> Inl (Wrapf ''list published tables for replica identity discovery: %w'' [] e)
      | Inr (rows, rows_err) \<Rightarrow>
     (case identity_rows rows Map.empty of
        Inl e \<Rightarrow> Inl e
      | Inr found \<Rightarrow>
          (case rows_err of
             Some e \<Rightarrow> Inl (Wrapf ''iterate published tables for replica identity discovery: %w'' [] e)
           | None \<Rightarrow> Inr found))))"

text \<open>The resolver \<open>run\<close> gives to the decoder: a map lookup, nil for a table that is not in the map.\<close>

definition identity_resolver :: "(string \<rightharpoonup> string list) \<Rightarrow> string \<Rightarrow> string \<Rightarrow> string list" where
  "identity_resolver found namespace relation_name =
     (case found (namespace @ ''.'' @ relation_name) of None \<Rightarrow> [] | Some key \<Rightarrow> key)"

section \<open>run\<close>

text \<open>The answers \<open>run\<close> gets before it streams, call by call.\<close>

record reader_boot =
  rb_kafka_client :: "goerr option"
  rb_kafka_ping :: "goerr option"
  rb_create_topic :: "goerr + goerr + goerr option"
  rb_metadata :: "goerr + kafka_metadata"
  rb_topic_configs :: "goerr + goerr + (string \<times> string) list"
  rb_sql_connect :: "nat \<Rightarrow> goerr option"
  rb_try_lock :: "int \<Rightarrow> goerr + bool"
  rb_slot_lsn :: "goerr + string"
  rb_restart_lsn :: "goerr + string"
  rb_wal_retained :: "string \<Rightarrow> goerr + bool"
  rb_published :: "goerr + (goerr + published_table) list \<times> goerr option"
  rb_replication_connect :: "goerr option"
  rb_create_slot :: "goerr + string"

definition boot_reader :: "reader_env \<Rightarrow> reader_boot \<Rightarrow> reader_config \<Rightarrow> goerr + reader" where
  "boot_reader env b cfg =
     (if \<not> identPattern (rc_slot cfg) then Inl (Errorf ''invalid replication slot name %q'' [rc_slot cfg])
      else if \<not> identPattern (rc_publication cfg) then Inl (Errorf ''invalid publication name %q'' [rc_publication cfg])
      else
     (case rb_kafka_client b of
        Some e \<Rightarrow> Inl (Wrapf ''create Kafka producer: %w'' [] e)
      | None \<Rightarrow>
     (case rb_kafka_ping b of
        Some e \<Rightarrow> Inl (Wrapf ''connect to Kafka: %w'' [] e)
      | None \<Rightarrow>
     (case ensureKafkaTopicConfig (rc_kafkaTopic cfg) (rb_create_topic b) of
        Some e \<Rightarrow> Inl e
      | None \<Rightarrow>
     (case verifyKafkaDurability (rc_kafkaTopic cfg) (rb_metadata b) (rb_topic_configs b) of
        Some e \<Rightarrow> Inl e
      | None \<Rightarrow>
     (case acquireFence (rc_slot cfg) (rb_sql_connect b 0) (rb_try_lock b) of
        Some e \<Rightarrow> Inl e
      | None \<Rightarrow>
     (case findSlotLSN (re_parse_lsn env) (rc_slot cfg) (rb_sql_connect b 1) (rb_slot_lsn b) of
        Inl e \<Rightarrow> Inl e
      | Inr (foundLSN, slotExists) \<Rightarrow>
     (case verifySlotRecoverable (re_parse_lsn env) (lsn_arg env) (rc_slot cfg) slotExists (rb_sql_connect b 2) (rb_restart_lsn b) (rb_wal_retained b) of
        Some e \<Rightarrow> Inl e
      | None \<Rightarrow>
     (case discoverIdentity (rb_sql_connect b 3) (rb_published b) of
        Inl e \<Rightarrow> Inl e
      | Inr found \<Rightarrow>
     (case (if slotExists then Inr foundLSN
            else createReplicationSlot (re_parse_lsn env) (rc_slot cfg) (rb_replication_connect b) (rb_create_slot b)) of
        Inl e \<Rightarrow> Inl e
      | Inr startLSN \<Rightarrow>
          (let r = new_reader env (identity_resolver found) 0 startLSN in
           case dialReplication env startLSN r of
             (Inl e, _) \<Rightarrow> Inl e
           | (Inr connection, r1) \<Rightarrow> Inr (r1\<lparr>rd_connection := Some connection\<rparr>))))))))))))"

end
