(* ===== verification/Transport.thy ===== *)
theory Transport
  imports Program_Config
begin

text \<open>
  \<open>internal/transport\<close>: the TLS configuration of PostgreSQL and Kafka connections and the SASL
  mechanism, from environment variables. Reading files, parsing certificates and parsing a DSN are
  parameters; so is the connection itself.
\<close>

section \<open>Settings\<close>

text \<open>A \<open>tls.Config\<close>, in the fields that are set here. A pool is the certificates read into it.\<close>

record tls_config =
  tls_ServerName :: string
  tls_InsecureSkipVerify :: bool
  tls_RootCAs :: "string option"
  tls_Certificates :: "(string \<times> string) list"

definition empty_tls :: tls_config where
  "empty_tls = \<lparr>tls_ServerName = [], tls_InsecureSkipVerify = False, tls_RootCAs = None, tls_Certificates = []\<rparr>"

text \<open>
  A parsed DSN: the host, the TLS configuration of the first attempt (nil is a plain connection) and
  those of the fallback attempts that the driver makes when the first fails.
\<close>

record pg_config =
  pg_Host :: string
  pg_TLSConfig :: "tls_config option"
  pg_Fallbacks :: "tls_config option list"

text \<open>
  \<open>read_file\<close> is \<open>os.ReadFile\<close>; \<open>valid_pem\<close> whether a pool takes a certificate from the text;
  \<open>key_pair\<close> is \<open>tls.LoadX509KeyPair\<close>; \<open>parse_dsn\<close> is \<open>pgx.ParseConfig\<close>.
\<close>

record transport_env =
  te_getenv :: "string \<Rightarrow> string"
  te_read_file :: "string \<Rightarrow> goerr + string"
  te_valid_pem :: "string \<Rightarrow> bool"
  te_key_pair :: "string \<Rightarrow> string \<Rightarrow> goerr option"
  te_parse_dsn :: "string \<Rightarrow> goerr + pg_config"

section \<open>Certificates\<close>

text \<open>The part both TLS functions share: the root certificates and the client certificate.\<close>

definition load_certificates ::
  "transport_env \<Rightarrow> string \<Rightarrow> string \<Rightarrow> string \<Rightarrow> string \<Rightarrow> string \<Rightarrow> tls_config \<Rightarrow> goerr + tls_config" where
  "load_certificates env ca_name pair_name caCert clientCert clientKey tls =
     (case (if caCert = [] then Inr tls
            else (case te_read_file env caCert of
                    Inl e \<Rightarrow> Inl (Wrapf ''read %s %s: %w'' [ca_name, caCert] e)
                  | Inr pem \<Rightarrow>
                      if \<not> te_valid_pem env pem then Inl (Errorf ''no valid certificates in %s %s'' [ca_name, caCert])
                      else Inr (tls\<lparr>tls_RootCAs := Some pem\<rparr>))) of
        Inl e \<Rightarrow> Inl e
      | Inr tls1 \<Rightarrow>
          if clientCert \<noteq> [] \<and> clientKey \<noteq> []
          then (case te_key_pair env clientCert clientKey of
                  Some e \<Rightarrow> Inl (Wrapf ''load %s: %w'' [pair_name] e)
                | None \<Rightarrow> Inr (tls1\<lparr>tls_Certificates := [(clientCert, clientKey)]\<rparr>))
          else Inr tls1)"

definition postgresTLSFromEnv :: "transport_env \<Rightarrow> string \<Rightarrow> goerr + tls_config option \<times> string" where
  "postgresTLSFromEnv env host =
     (let sslMode = te_getenv env ''PGSSLMODE''; rootCert = te_getenv env ''PGSSLROOTCERT'';
          clientCert = te_getenv env ''PGSSLCERT''; clientKey = te_getenv env ''PGSSLKEY''
      in if rootCert = [] \<and> clientCert = [] \<and> clientKey = [] then Inr (None, sslMode)
         else (case load_certificates env ''PGSSLROOTCERT'' ''PGSSLCERT/PGSSLKEY'' rootCert clientCert clientKey
                      (empty_tls\<lparr>tls_ServerName := host\<rparr>) of
                 Inl e \<Rightarrow> Inl e
               | Inr tls \<Rightarrow> Inr (Some tls, sslMode)))"

section \<open>PostgreSQL\<close>

text \<open>The configuration \<open>ConnectPostgres\<close> connects with.\<close>

definition ConnectPostgres :: "transport_env \<Rightarrow> string \<Rightarrow> goerr + pg_config" where
  "ConnectPostgres env dsn =
     (case te_parse_dsn env dsn of
        Inl e \<Rightarrow> Inl (Wrapf ''parse postgres dsn: %w'' [] e)
      | Inr cfg \<Rightarrow>
     (case postgresTLSFromEnv env (pg_Host cfg) of
        Inl e \<Rightarrow> Inl (Wrapf ''postgres tls config: %w'' [] e)
      | Inr (tls, sslMode) \<Rightarrow>
          if sslMode = ''disable'' then Inr (cfg\<lparr>pg_TLSConfig := None\<rparr>)
          else if sslMode = ''require''
          then Inr (cfg\<lparr>pg_TLSConfig := Some ((case tls of None \<Rightarrow> empty_tls | Some t \<Rightarrow> t)\<lparr>tls_InsecureSkipVerify := True\<rparr>)\<rparr>)
          else if sslMode = ''verify-ca'' \<or> sslMode = ''verify-full''
          then (let t = (case tls of None \<Rightarrow> empty_tls | Some t \<Rightarrow> t);
                    t' = (if sslMode = ''verify-full'' then t\<lparr>tls_ServerName := pg_Host cfg\<rparr> else t)
                in Inr (cfg\<lparr>pg_TLSConfig := Some t'\<rparr>))
          else (case tls of
                  None \<Rightarrow> Inr cfg
                | Some t \<Rightarrow> Inr (cfg\<lparr>pg_TLSConfig := Some (t\<lparr>tls_ServerName := pg_Host cfg\<rparr>)\<rparr>))))"

section \<open>Kafka\<close>

datatype scram = Sha256 string string | Sha512 string string

datatype kafka_option = DialTLSConfig tls_config | SASL scram

definition kafkaTLSFromEnv :: "transport_env \<Rightarrow> goerr + tls_config option" where
  "kafkaTLSFromEnv env =
     (let enabled = (te_getenv env ''KAFKA_TLS_ENABLED'' = ''true''); caCert = te_getenv env ''KAFKA_CA_CERT'';
          clientCert = te_getenv env ''KAFKA_CLIENT_CERT''; clientKey = te_getenv env ''KAFKA_CLIENT_KEY''
      in if \<not> enabled \<and> caCert = [] \<and> clientCert = [] \<and> clientKey = [] then Inr None
         else (case load_certificates env ''KAFKA_CA_CERT'' ''KAFKA_CLIENT_CERT/KAFKA_CLIENT_KEY'' caCert clientCert clientKey empty_tls of
                 Inl e \<Rightarrow> Inl e
               | Inr tls \<Rightarrow> Inr (Some tls)))"

definition kafkaSASLFromEnv :: "transport_env \<Rightarrow> scram option" where
  "kafkaSASLFromEnv env =
     (let user = te_getenv env ''KAFKA_SASL_USERNAME''; pass = te_getenv env ''KAFKA_SASL_PASSWORD''
      in if user = [] \<or> pass = [] then None
         else if te_getenv env ''KAFKA_SASL_MECHANISM'' = ''SCRAM-SHA-512'' then Some (Sha512 user pass)
         else Some (Sha256 user pass))"

definition KafkaOptions :: "transport_env \<Rightarrow> kafka_option list" where
  "KafkaOptions env =
     (case kafkaTLSFromEnv env of Inl e \<Rightarrow> [] | Inr None \<Rightarrow> [] | Inr (Some tls) \<Rightarrow> [DialTLSConfig tls]) @
     (case kafkaSASLFromEnv env of None \<Rightarrow> [] | Some mechanism \<Rightarrow> [SASL mechanism])"

end
