(* ===== verification/Program_Properties.thy ===== *)
theory Program_Properties
  imports Retry Reader_Boot Reader_Samples Transport Cdcctl Recovery_Properties
begin

text \<open>
  The programs around the pipeline: retries, the checks a reader makes before it streams, TLS
  settings, and the command line tool.
\<close>

section \<open>Retries\<close>

text \<open>C0. The backoff of an attempt: the base delay doubled per attempt and capped, less a jitter of at most
  a fifth, and never under a millisecond. For a configuration whose cap is below \<open>2^62\<close>
  nanoseconds the doubling does not overflow and the random number generator does not panic.\<close>

theorem backoff_bounds:
  assumes "sane_config c"
  shows "let b = min (Max_delay c) (Base c * 2 ^ nat (attempt - 1)) in
    \<exists>d. Backoff c attempt rnd = Some d \<and> millisecond \<le> d \<and> b - b div 5 \<le> d \<and> d \<le> max millisecond b"
proof -
  have "baseBackoff c attempt = min (Max_delay c) (Base c * 2 ^ nat (attempt - 1))"
    using assms by (auto simp: baseBackoff_def sane_config_def intro: base_loop_eq)
  with Backoff_Some [OF assms, of attempt rnd] show ?thesis
    by (auto simp: Let_def)
qed

theorem backoff_bounds_witness:
  "\<exists>d. Backoff Default 4 77 = Some d \<and> 640 * millisecond \<le> d \<and> d \<le> 800 * millisecond"
  using backoff_bounds [OF sane_Default, of 4 77] by (auto simp: Default_def millisecond_def Let_def min_def max_def)

text \<open>The base waits between the 20 attempts of the default configuration.\<close>

lemma default_budget: "sum_list (map (\<lambda>attempt. baseBackoff Default (int attempt)) [1..<20]) = 31100 * millisecond"
  by code_simp



section \<open>Before the stream\<close>

text \<open>The values of \<open>min.insync.replicas\<close> in a topic configuration, in the order they are listed.\<close>

definition min_isr_values :: "(string \<times> string) list \<Rightarrow> string list" where
  "min_isr_values cs = map snd (filter (\<lambda>(key, val). key = ''min.insync.replicas'') cs)"

lemma min_isr_values_simps [simp]:
  "min_isr_values [] = []"
  "min_isr_values ((key, v) # cs) = (if key = ''min.insync.replicas'' then v # min_isr_values cs else min_isr_values cs)"
  by (simp_all add: min_isr_values_def)

lemma read_min_isr_values:
  "read_min_isr cs m = Inr n \<longleftrightarrow>
     (\<forall>v \<in> set (min_isr_values cs). \<exists>k. Atoi v = Inr k) \<and>
     (if min_isr_values cs = [] then n = m else Atoi (last (min_isr_values cs)) = Inr n)"
  by (induction cs m rule: read_min_isr.induct) (auto split: sum.splits)


text \<open>The checks and answers after which a reader streams from \<open>l\<close>.\<close>

definition slot_position :: "reader_env \<Rightarrow> reader_boot \<Rightarrow> lsn \<Rightarrow> bool" where
  "slot_position env b l \<longleftrightarrow>
     (\<exists>t. rb_slot_lsn b = Inr t \<and> re_parse_lsn env t = Some l \<and>
        (\<exists>w k. rb_restart_lsn b = Inr w \<and> re_parse_lsn env w = Some k \<and> rb_wal_retained b w = Inr True)) \<or>
     (\<exists>e t. rb_slot_lsn b = Inl e \<and> errors_is e ErrNoRows \<and> rb_create_slot b = Inr t \<and> re_parse_lsn env t = Some l)"

lemma identity_rows_sound:
  "identity_rows rows found = Inr found' \<Longrightarrow>
     \<exists>ts. rows = map Inr ts \<and>
       (\<forall>t \<in> set ts. pt_mode t \<in> {''d'', ''i'', ''f''} \<and> (\<exists>u \<in> set ts. pt_name u = pt_name t \<and>
          found' (pt_name t) = Some (if pt_mode u = ''i'' then pt_ri u else pt_pk u) \<and>
          (if pt_mode u = ''i'' then pt_ri u else pt_pk u) \<noteq> [])) \<and>
       (\<forall>name. name \<notin> pt_name ` set ts \<longrightarrow> found' name = found name)"
proof (induction rows found rule: identity_rows.induct)
  case (3 t rows found)
  let ?key = "\<lambda>u. if pt_mode u = ''i'' then pt_ri u else pt_pk u"
  obtain key where key: "identity_key t = Inr key"
    using 3(2) by (auto split: sum.splits)
  have k: "pt_mode t \<in> {''d'', ''i'', ''f''}" "key = ?key t" "key \<noteq> []"
    using key by (auto simp: identity_key_def Let_def split: if_splits sum.splits)
  have rest: "identity_rows rows (found(pt_name t \<mapsto> key)) = Inr found'"
    using 3(2) key by simp
  obtain ts where ts: "rows = map Inr ts"
      "\<forall>t \<in> set ts. pt_mode t \<in> {''d'', ''i'', ''f''} \<and> (\<exists>u \<in> set ts. pt_name u = pt_name t \<and>
          found' (pt_name t) = Some (?key u) \<and> ?key u \<noteq> [])"
      "\<forall>name. name \<notin> pt_name ` set ts \<longrightarrow> found' name = (found(pt_name t \<mapsto> key)) name"
    using 3(1) [OF key rest] by (elim exE conjE) iprover
  have t: "\<exists>u \<in> set (t # ts). pt_name u = pt_name t \<and> found' (pt_name t) = Some (?key u) \<and> ?key u \<noteq> []"
  proof (cases "pt_name t \<in> pt_name ` set ts")
    case True
    then obtain v where "v \<in> set ts" "pt_name v = pt_name t" by auto
    with ts(2) show ?thesis by (metis list.set_intros(2))
  next
    case False
    with ts(3) k show ?thesis by simp
  qed
  show ?case
    using t ts k by (intro exI [of _ "t # ts"]) auto
qed simp_all

lemma discoverIdentity_sound:
  assumes "discoverIdentity connect answer = Inr found"
  shows "\<exists>ts. answer = Inr (map Inr ts, None) \<and>
    (\<forall>t \<in> set ts. pt_mode t \<noteq> ''n'' \<and> identity_resolver found (pt_schema t) (pt_table t) \<noteq> []) \<and>
    (distinct (map pt_name ts) \<longrightarrow> (\<forall>t \<in> set ts. identity_resolver found (pt_schema t) (pt_table t) =
       (if pt_mode t = ''i'' then pt_ri t else pt_pk t)))"
proof -
  let ?key = "\<lambda>u. if pt_mode u = ''i'' then pt_ri u else pt_pk u"
  obtain rows where a: "answer = Inr (rows, None)" and rows: "identity_rows rows Map.empty = Inr found"
    using assms by (auto simp: discoverIdentity_def split: option.splits sum.splits)
  obtain ts where ts: "rows = map Inr ts"
      "\<forall>t \<in> set ts. pt_mode t \<in> {''d'', ''i'', ''f''} \<and> (\<exists>u \<in> set ts. pt_name u = pt_name t \<and>
         found (pt_name t) = Some (?key u) \<and> ?key u \<noteq> [])"
    using identity_rows_sound [OF rows] by (elim exE conjE) iprover
  have res: "identity_resolver found (pt_schema t) (pt_table t) = (case found (pt_name t) of None \<Rightarrow> [] | Some key \<Rightarrow> key)" for t
    by (simp add: identity_resolver_def pt_name_def)
  have "pt_mode t \<noteq> ''n'' \<and> identity_resolver found (pt_schema t) (pt_table t) \<noteq> []" if "t \<in> set ts" for t
    using bspec [OF ts(2) that] by (auto simp: res)
  moreover have "identity_resolver found (pt_schema t) (pt_table t) = ?key t" if d: "distinct (map pt_name ts)" and t: "t \<in> set ts" for t
  proof -
    obtain u where "u \<in> set ts" "pt_name u = pt_name t" "found (pt_name t) = Some (?key u)"
      using ts(2) t by blast
    moreover from this d t have "u = t"
      by (auto simp: distinct_map inj_on_def)
    ultimately show ?thesis by (simp add: res)
  qed
  ultimately show ?thesis
    using a ts(1) by blast
qed

lemma slot_position_cases:
  assumes "findSlotLSN (re_parse_lsn env) slot c1 (rb_slot_lsn b) = Inr (foundLSN, slotExists)"
    and "verifySlotRecoverable (re_parse_lsn env) (lsn_arg env) slot slotExists c2 (rb_restart_lsn b) (rb_wal_retained b) = None"
    and "(if slotExists then Inr foundLSN else createReplicationSlot (re_parse_lsn env) slot c3 (rb_create_slot b)) = Inr l"
  shows "slot_position env b l"
  using assms
  by (auto simp: slot_position_def findSlotLSN_def verifySlotRecoverable_def createReplicationSlot_def
      split: option.splits sum.splits if_splits)

text \<open>C34. A reader that gets past its start-up may stream: the topic passed the durability check, the fence
  of its slot is held, it starts at the position its slot has acknowledged (whose WAL is still
  there) or at the consistent point of a new slot, and its decoder finds for every published table
  a row key, the columns of the table's own primary key or replica identity index.\<close>

theorem booted_reader_ready:
  assumes "boot_reader env b cfg = Inr r"
  shows "\<exists>l resolve ts.
    verifyKafkaDurability (rc_kafkaTopic cfg) (rb_metadata b) (rb_topic_configs b) = None \<and>
    rb_try_lock b (fenceKey (rc_slot cfg)) = Inr True \<and> slot_position env b l \<and>
    rd_durableLSN r = l \<and> rd_connection r = Some (re_stream env l) \<and>
    rd_decoder r = NewDecoderWithIdentity resolve \<and> rb_published b = Inr (map Inr ts, None) \<and>
    (\<forall>t \<in> set ts. pt_mode t \<noteq> ''n'' \<and> resolve (pt_schema t) (pt_table t) \<noteq> []) \<and>
    (distinct (map pt_name ts) \<longrightarrow> (\<forall>t \<in> set ts. resolve (pt_schema t) (pt_table t) =
       (if pt_mode t = ''i'' then pt_ri t else pt_pk t)))"
proof -
  obtain foundLSN slotExists found l c r1 where
      kafka: "verifyKafkaDurability (rc_kafkaTopic cfg) (rb_metadata b) (rb_topic_configs b) = None"
    and fence: "acquireFence (rc_slot cfg) (rb_sql_connect b 0) (rb_try_lock b) = None"
    and slot: "findSlotLSN (re_parse_lsn env) (rc_slot cfg) (rb_sql_connect b 1) (rb_slot_lsn b) = Inr (foundLSN, slotExists)"
      "verifySlotRecoverable (re_parse_lsn env) (lsn_arg env) (rc_slot cfg) slotExists (rb_sql_connect b 2) (rb_restart_lsn b) (rb_wal_retained b) = None"
      "(if slotExists then Inr foundLSN
        else createReplicationSlot (re_parse_lsn env) (rc_slot cfg) (rb_replication_connect b) (rb_create_slot b)) = Inr l"
    and identities: "discoverIdentity (rb_sql_connect b 3) (rb_published b) = Inr found"
    and dial: "dialReplication env l (new_reader env (identity_resolver found) 0 l) = (Inr c, r1)"
    and r: "r = r1\<lparr>rd_connection := Some c\<rparr>"
    using assms unfolding boot_reader_def Let_def
    by (simp split: option.splits sum.splits prod.splits if_split_asm)
  have "rb_try_lock b (fenceKey (rc_slot cfg)) = Inr True"
    using fence by (auto simp: acquireFence_def split: option.splits sum.splits if_splits)
  moreover have "c = re_stream env l" "rd_durableLSN r1 = l" "rd_decoder r1 = NewDecoderWithIdentity (identity_resolver found)"
    using dial by (auto simp: dialReplication_def new_reader_def Let_def split: option.splits)
  ultimately show ?thesis
    using kafka slot_position_cases [OF slot] discoverIdentity_sound [OF identities] unfolding r
    by (intro exI [of _ l] exI [of _ "identity_resolver found"]) simp
qed

definition users_published :: published_table where
  "users_published = \<lparr>pt_schema = ''public'', pt_table = ''users'', pt_mode = ''d'', pt_pk = [''id''], pt_ri = []\<rparr>"

definition sample_boot :: reader_boot where
  "sample_boot = \<lparr>rb_kafka_client = None, rb_kafka_ping = None, rb_create_topic = Inr (Inr (Some TopicAlreadyExists)),
     rb_metadata = Inr \<lparr>km_Brokers = [1, 2, 3], km_Topics = [''live.users'' \<mapsto>
       \<lparr>td_Err = None, td_Partitions = [\<lparr>kp_Partition = 0, kp_ISR = [1, 3]\<rparr>], td_NumReplicas = 3\<rparr>]\<rparr>,
     rb_topic_configs = Inr (Inr [(''min.insync.replicas'', ''2'')]), rb_sql_connect = (\<lambda>_. None), rb_try_lock = (\<lambda>_. Inr True),
     rb_slot_lsn = Inr ''8'', rb_restart_lsn = Inr ''4'', rb_wal_retained = (\<lambda>_. Inr True),
     rb_published = Inr ([Inr users_published], None), rb_replication_connect = None, rb_create_slot = Inr ''8''\<rparr>"

definition sample_reader_env :: reader_env where
  "sample_reader_env = (sample_reader (\<lambda>_. None))\<lparr>re_parse_lsn := sample_parse\<rparr>"

theorem booted_reader_ready_witness:
  "\<exists>r resolve. boot_reader sample_reader_env sample_boot (reader_loadConfig (\<lambda>_. [])) = Inr r \<and>
     rd_decoder r = NewDecoderWithIdentity resolve \<and> resolve ''public'' ''users'' = [''id'']"
proof -
  let ?boot = "boot_reader sample_reader_env sample_boot (reader_loadConfig (\<lambda>_. []))"
  have "case ?boot of Inr r \<Rightarrow> True | Inl e \<Rightarrow> False"
    by code_simp
  then obtain r where r: "?boot = Inr r"
    by (cases ?boot) auto
  obtain resolve ts where d: "rd_decoder r = NewDecoderWithIdentity resolve" "rb_published sample_boot = Inr (map Inr ts, None)"
      "distinct (map pt_name ts) \<longrightarrow> (\<forall>t \<in> set ts. resolve (pt_schema t) (pt_table t) = (if pt_mode t = ''i'' then pt_ri t else pt_pk t))"
    using booted_reader_ready [OF r] by blast
  have "ts = [users_published]"
    using d(2) by (auto simp: sample_boot_def)
  then have "resolve ''public'' ''users'' = [''id'']"
    using d(3) by (simp add: users_published_def)
  with r d(1) show ?thesis by blast
qed

text \<open>A table that replicates its full old image but has no primary key is refused.\<close>

lemma full_identity_needs_primary_key:
  "identity_key \<lparr>pt_schema = s, pt_table = t, pt_mode = ''f'', pt_pk = [], pt_ri = ri\<rparr> \<noteq> Inr key"
  by (simp add: identity_key_def)

section \<open>Transport\<close>

text \<open>With \<open>PGSSLMODE=verify-full\<close> the first connection attempt verifies the certificate of the host in
  the DSN, against the configured root certificates when there are some; the attempts that the DSN
  itself lists as fallbacks (which may be plain connections) are left as they were.\<close>

theorem verify_full_pins_host:
  assumes "ConnectPostgres env dsn = Inr cfg'" and "te_getenv env ''PGSSLMODE'' = ''verify-full''"
  shows "\<exists>cfg t. te_parse_dsn env dsn = Inr cfg \<and> pg_TLSConfig cfg' = Some t \<and> tls_ServerName t = pg_Host cfg \<and>
    \<not> tls_InsecureSkipVerify t \<and> pg_Fallbacks cfg' = pg_Fallbacks cfg \<and>
    (te_getenv env ''PGSSLROOTCERT'' \<noteq> [] \<longrightarrow>
      (\<exists>pem. te_read_file env (te_getenv env ''PGSSLROOTCERT'') = Inr pem \<and> te_valid_pem env pem \<and> tls_RootCAs t = Some pem))"
  using assms
  by (auto simp: ConnectPostgres_def postgresTLSFromEnv_def load_certificates_def empty_tls_def Let_def
      split: sum.splits option.splits if_splits)

text \<open>An environment of settings and files, and the driver's reading of a DSN with \<open>sslmode=prefer\<close>.\<close>

definition sample_transport :: "(string \<rightharpoonup> string) \<Rightarrow> (string \<rightharpoonup> string) \<Rightarrow> transport_env" where
  "sample_transport settings files =
     \<lparr>te_getenv = (\<lambda>name. case settings name of None \<Rightarrow> [] | Some v \<Rightarrow> v),
      te_read_file = (\<lambda>path. case files path of None \<Rightarrow> Inl (ServiceErr ''ENOENT'') | Some text \<Rightarrow> Inr text),
      te_valid_pem = (\<lambda>text. text \<noteq> []), te_key_pair = (\<lambda>_ _. None),
      te_parse_dsn = (\<lambda>dsn. Inr \<lparr>pg_Host = dsn, pg_TLSConfig = Some (empty_tls\<lparr>tls_InsecureSkipVerify := True\<rparr>), pg_Fallbacks = [None]\<rparr>)\<rparr>"

theorem verify_full_pins_host_witness:
  "\<exists>cfg' t. ConnectPostgres (sample_transport [''PGSSLMODE'' \<mapsto> ''verify-full''] Map.empty) ''db.example'' = Inr cfg' \<and>
     pg_TLSConfig cfg' = Some t \<and> tls_ServerName t = ''db.example'' \<and> pg_Fallbacks cfg' = [None]"
proof -
  let ?env = "sample_transport [''PGSSLMODE'' \<mapsto> ''verify-full''] Map.empty"
  obtain cfg' where c: "ConnectPostgres ?env ''db.example'' = Inr cfg'"
    by (simp add: ConnectPostgres_def postgresTLSFromEnv_def sample_transport_def Let_def)
  have "te_getenv ?env ''PGSSLMODE'' = ''verify-full''"
    by (simp add: sample_transport_def)
  from verify_full_pins_host [OF c this] c show ?thesis
    by (auto simp: sample_transport_def)
qed

text \<open>Certificates that cannot be loaded turn TLS off and leave the credentials in.\<close>

lemma broken_kafka_tls_is_plaintext:
  assumes "kafkaTLSFromEnv env = Inl e" and "kafkaSASLFromEnv env = Some mechanism"
  shows "KafkaOptions env = [SASL mechanism]"
  using assms by (simp add: KafkaOptions_def)

section \<open>The command line tool\<close>

text \<open>The command comes first: \<open>-dsn\<close> before it, as the usage text and the README write it, is refused
  as an unknown command before anything is connected to, whatever follows.\<close>

theorem documented_usage_refused:
  assumes "dsn \<noteq> []" and "hd dsn \<noteq> CHR ''-''"
  shows "cdcctl_run env (''-dsn'' # dsn # rest) c =
    Finished (Some (Errorf ''unknown command %q (want list, replay, or drop)'' [''-dsn''])) [] c"
proof -
  have "flag_arg dsn = NotFlag"
    using assms by (simp add: flag_arg_def)
  then show ?thesis
    by (simp add: cdcctl_run_def parseArgs_def action_of_def)
qed

definition sample_ctl :: ctl_env where
  "sample_ctl = \<lparr>ce_db = sample_env, ce_connect = (\<lambda>_. None), ce_parse_duration = (\<lambda>_. None), ce_getenv = (\<lambda>_. []),
     ce_marshal = (\<lambda>_. Inr []), ce_rfc3339 = (\<lambda>_. []), ce_error_text = (\<lambda>_. [])\<rparr>"

theorem documented_usage_refused_witness:
  "cdcctl_run sample_ctl (''-dsn'' # ''postgres://localhost/d'' # [''replay'', ''-event'', ''0/16B6A30:1'']) (sample_conn sample_db) =
    Finished (Some (Errorf ''unknown command %q (want list, replay, or drop)'' [''-dsn''])) [] (sample_conn sample_db)"
  by (rule documented_usage_refused) simp_all

lemma table_without_all_refused:
  "parseArgs parse_duration getenv [''replay'', ''-table'', ''public.users''] =
    Refused (Errorf ''replay and drop need -event ID or -all (to act on every matching dead letter)'' [])"
  by (simp add: parseArgs_def flag_arg_def value_flags_def bool_flags_def set_flag_def action_of_def split_table_def default_command_def)

definition matches :: "command \<Rightarrow> dead_row \<Rightarrow> bool" where
  "matches cmd r \<longleftrightarrow> (cmd_schema cmd = [] \<or> dl_schema r = cmd_schema cmd) \<and> (cmd_table cmd = [] \<or> dl_table r = cmd_table cmd)"

lemma scan_all_ids: "scan_all rows = Inr records \<Longrightarrow> map rec_EventID records = map dl_event_id rows"
  by (induction rows arbitrary: records) (auto simp: scanDeadLetter_def split: sum.splits)

lemma ListDeadLetters_matches:
  assumes "ListDeadLetters env (cmd_schema cmd) (cmd_table cmd) c = (Inr records, c')" and "idle c"
  shows "idle c' \<and> db c' = db c \<and> rec_EventID ` set records = dl_event_id ` {r \<in> set (dead_letters (db c)). matches cmd r}"
proof -
  let ?ps = "(if cmd_schema cmd \<noteq> [] then [PText (cmd_schema cmd)] else []) @ (if cmd_table cmd \<noteq> [] then [PText (cmd_table cmd)] else [])"
  let ?sql = "DeadLetterListSQL (cmd_schema cmd \<noteq> []) (cmd_table cmd \<noteq> [])"
  obtain res where x: "exec env ?sql ?ps c = (Inr res, c')" and res: "\<And>rows. res = DeadRows rows \<Longrightarrow> scan_all rows = Inr records"
    using assms(1) by (auto simp: ListDeadLetters_def Let_def split: prod.splits sum.splits sql_result.splits)
  obtain now where run: "run_stmt env now ?sql ?ps (db c) = Inr (res, db c')" and i: "idle c'"
    using exec_cases [OF x] assms(2) by (auto simp: idle_def view_def split: option.splits)
  have "db c' = db c" and rows: "res = DeadRows (sort_key dl_occurred (filter (matches cmd) (dead_letters (db c))))"
    using run by (auto simp: matches_def nth_param_def fun_eq_iff intro!: arg_cong [of _ _ "sort_key dl_occurred"] filter_cong split: if_splits)
  moreover have "rec_EventID ` set records = dl_event_id ` set (filter (matches cmd) (dead_letters (db c)))"
    using scan_all_ids [OF res [OF rows]] by (metis list.set_map set_sort)
  ultimately show ?thesis
    using i by auto
qed

lemma replay_records_failed:
  "replay_records env records replayed failed out c = (replayed', failed', out', c') \<Longrightarrow> failed \<noteq> [] \<Longrightarrow> failed' \<noteq> []"
  by (induction env records replayed failed out c rule: replay_records.induct) (auto split: prod.splits option.splits)

lemma replay_records_settle:
  "replay_records env records replayed [] out c = (replayed', [], out', c') \<Longrightarrow> idle c \<Longrightarrow>
     (\<forall>record \<in> set records. applied_events (db c') (rec_EventID record) \<noteq> None) \<and>
     (\<forall>i. applied_events (db c) i \<noteq> None \<longrightarrow> applied_events (db c') i \<noteq> None) \<and>
     dead_letters (db c') = filter (\<lambda>r. dl_event_id r \<notin> rec_EventID ` set records) (dead_letters (db c))"
proof (induction records arbitrary: replayed out c)
  case (Cons letter records)
  let ?i = "rec_EventID letter"
  obtain x out1 c1 where one: "replay_one env ?i c = (x, out1, c1)" by (cases "replay_one env ?i c") auto
  have x: "x = None"
    using Cons.prems(1) one by (cases x) (auto dest: replay_records_failed)
  then have rest: "replay_records env records (replayed @ [?i]) [] (out @ out1) c1 = (replayed', [], out', c')"
    using Cons.prems(1) one by simp
  obtain b where "ReplayDeadLetter env ?i c = (Inr b, c1)"
    using one x by (auto simp: replay_one_def split: prod.splits sum.splits)
  from ReplayDeadLetter_success [OF this Cons.prems(2)] have c1: "idle c1" "applied_events (db c1) ?i \<noteq> None"
      "\<And>i. applied_events (db c) i \<noteq> None \<Longrightarrow> applied_events (db c1) i \<noteq> None"
      "dead_letters (db c1) = filter (\<lambda>r. dl_event_id r \<noteq> ?i) (dead_letters (db c))"
    by blast+
  note ih = Cons.IH [OF rest c1(1)]
  have "dead_letters (db c') = filter (\<lambda>r. dl_event_id r \<notin> rec_EventID ` set (letter # records)) (dead_letters (db c))"
    using ih c1(4) by (auto intro: filter_cong)
  then show ?case
    using ih c1(2,3) by (metis set_ConsD)
qed simp

text \<open>C33. \<open>cdcctl replay -all\<close> (with or without \<open>-schema\<close> and \<open>-table\<close>) that ends without an error has
  settled every dead letter that matches: their events' markers are committed, the matching dead
  letters are gone and the others untouched.\<close>

theorem replay_all_settles:
  assumes "replayHandler env cmd c = (None, out, c')" and "cmd_eventID cmd = []"
    and "tx_view c = None" and "\<not> tx_aborted c" and "distinct (map dl_event_id (dead_letters (db c)))"
  shows "dead_letters (db c') = filter (\<lambda>r. \<not> matches cmd r) (dead_letters (db c)) \<and>
    (\<forall>r \<in> set (dead_letters (db c)). matches cmd r \<longrightarrow> applied_events (db c') (dl_event_id r) \<noteq> None)"
proof -
  have i: "idle c" using assms(3,4) by (simp add: idle_def)
  obtain records c1 where l: "ListDeadLetters env (cmd_schema cmd) (cmd_table cmd) c = (Inr records, c1)"
    using assms(1,2) by (auto simp: replayHandler_def split: prod.splits sum.splits)
  from ListDeadLetters_matches [OF l i] have c1: "idle c1" "db c1 = db c" "rec_EventID ` set records = dl_event_id ` {r \<in> set (dead_letters (db c)). matches cmd r}"
    by blast+
  have settled: "\<forall>record \<in> set records. applied_events (db c') (rec_EventID record) \<noteq> None"
      "dead_letters (db c') = filter (\<lambda>r. dl_event_id r \<notin> rec_EventID ` set records) (dead_letters (db c))"
  proof (atomize (full), cases "records = []")
    case False
    then obtain replayed out1 where "replay_records env records [] [] [] c1 = (replayed, [], out1, c')"
      using assms(1,2) l by (auto simp: replayHandler_def split: prod.splits if_splits)
    from replay_records_settle [OF this c1(1)] show "(\<forall>record \<in> set records. applied_events (db c') (rec_EventID record) \<noteq> None) \<and>
        dead_letters (db c') = filter (\<lambda>r. dl_event_id r \<notin> rec_EventID ` set records) (dead_letters (db c))"
      unfolding c1(2) by blast
  qed (use assms(1,2) l c1(2) in \<open>simp add: replayHandler_def\<close>)
  have mem: "dl_event_id r \<in> rec_EventID ` set records \<longleftrightarrow> matches cmd r" if "r \<in> set (dead_letters (db c))" for r
    using that assms(5) unfolding c1(3) by (auto simp: distinct_map inj_on_def)
  have "dead_letters (db c') = filter (\<lambda>r. \<not> matches cmd r) (dead_letters (db c))"
    unfolding settled(2) by (rule filter_cong [OF refl]) (simp add: mem)
  moreover have "applied_events (db c') (dl_event_id r) \<noteq> None" if r: "r \<in> set (dead_letters (db c))" "matches cmd r" for r
  proof -
    obtain letter where "letter \<in> set records" "dl_event_id r = rec_EventID letter"
      using mem [OF r(1)] r(2) by blast
    then show ?thesis using settled(1) by simp
  qed
  ultimately show ?thesis by blast
qed

theorem replay_all_settles_witness:
  "applied_events (db (snd (snd (replayHandler sample_env ((default_command (\<lambda>_. []))\<lparr>cmd_all := True\<rparr>) (sample_conn after_letter))))) ''e4'' \<noteq> None"
proof -
  let ?cmd = "(default_command (\<lambda>_. []))\<lparr>cmd_all := True\<rparr>"
  let ?r = "replayHandler sample_env ?cmd (sample_conn after_letter)"
  have "fst ?r = None"
    by code_simp
  then have r: "?r = (None, fst (snd ?r), snd (snd ?r))"
    by (cases ?r) auto
  have "map dl_event_id (dead_letters after_letter) = [''e4'']"
    by code_simp
  then have d: "distinct (map dl_event_id (dead_letters after_letter))" "\<exists>x \<in> set (dead_letters after_letter). dl_event_id x = ''e4''"
    by auto
  have "cmd_eventID ?cmd = []" "matches ?cmd x" for x
    by (simp_all add: default_command_def matches_def)
  moreover have "distinct (map dl_event_id (dead_letters (db (sample_conn after_letter))))"
    using d(1) by (simp only: sample_conn_idle)
  ultimately have "\<forall>x \<in> set (dead_letters (db (sample_conn after_letter))).
      applied_events (db (snd (snd ?r))) (dl_event_id x) \<noteq> None"
    using replay_all_settles [OF r _ sample_conn_idle(1,2)] by blast
  with d(2) show ?thesis
    unfolding sample_conn_idle by metis
qed

end
