(* ===== verification/System_Properties.thy ===== *)
theory System_Properties
  imports Joint_Samples Full_System
begin

text \<open>
  What the two programs promise together: at every moment the destination holds a prefix of the
  source's transactions, and it can always catch up with all of them.
\<close>

section \<open>Safety\<close>


text \<open>Both programs on the sample source and destination; the writer has consumed both records.\<close>

definition sample_system :: system where
  "sample_system = (sample_start (\<lambda>_. None), sample_writer bio_db, 0)"

lemma sample_healthy: "healthy (sample_reader (\<lambda>_. None)) sample_resolve reading_env (LSN 8) sample_committed bio_db"
proof -
  have "we_unmarshal reading_env (itoa (Sequence (Source (insert_event n)))) = Inr (insert_event n)" for n
    by (simp add: reading_env_def insert_event_def event_of_def itoa_def)
  then show ?thesis
    using sample_serves sample_committed_after wf_insert_event inserts_apply
    by (simp add: healthy_def kafka_up_def sample_committed_def sample_reader_def reading_env_def sample_writer_env_def)
qed

lemma sample_system_new: "new_system (sample_reader (\<lambda>_. None)) sample_resolve (LSN 8) bio_db sample_system"
  by (simp add: new_system_def sample_system_def sample_start_new sample_new_writer)

text \<open>The reader publishes both records, and the writer consumes them.\<close>

definition published_state :: pipeline where
  "published_state = schedule (sample_reader (\<lambda>_. None)) ''t'' sample_resolve good_run (sample_start (\<lambda>_. None))"

definition published_log :: "kafka_record list" where
  "published_log = topic_log (fst (pl_kafka published_state))"

definition writer_one :: writer where
  "writer_one = snd (handleEvent reading_env (\<lambda>_. None) (published_log ! 0) (insert_event 1) (sample_writer bio_db))"

definition writer_two :: writer where
  "writer_two = snd (handleEvent reading_env (\<lambda>_. None) (published_log ! 1) (insert_event 2) writer_one)"

lemma published_values: "map km_Value (fst (pl_kafka published_state)) = [''1'', ''2'']"
  by code_simp

lemma published_events: "log_event reading_env published_log 0 (insert_event 1)" "log_event reading_env published_log 1 (insert_event 2)"
  using published_values by (auto simp: log_event_def published_log_def nth_topic_log reading_env_def digits_value_def)

lemma writers_handle:
  "fst (handleEvent reading_env (\<lambda>_. None) (published_log ! 0) (insert_event 1) (sample_writer bio_db)) = None"
  "fst (handleEvent reading_env (\<lambda>_. None) (published_log ! 1) (insert_event 2) writer_one) = None"
  by code_simp+

lemma sample_system_run:
  "(system_step (sample_reader (\<lambda>_. None)) ''t'' reading_env (\<lambda>_. None))\<^sup>*\<^sup>* sample_system (published_state, writer_one, 1)"
  "(system_step (sample_reader (\<lambda>_. None)) ''t'' reading_env (\<lambda>_. None))\<^sup>*\<^sup>* sample_system (published_state, writer_two, 2)"
proof -
  let ?step = "system_step (sample_reader (\<lambda>_. None)) ''t'' reading_env (\<lambda>_. None)"
  have read: "?step\<^sup>*\<^sup>* sample_system (published_state, sample_writer bio_db, 0)"
    unfolding sample_system_def published_state_def
    by (intro reader_steps_in_system schedule_quiet) (auto simp: good_run_def)
  have "handleEvent reading_env (\<lambda>_. None) (published_log ! 0) (insert_event 1) (sample_writer bio_db) = (None, writer_one)"
    "handleEvent reading_env (\<lambda>_. None) (published_log ! 1) (insert_event 2) writer_one = (None, writer_two)"
    using writers_handle by (simp_all add: prod_eq_iff writer_one_def writer_two_def)
  from published_events(1) [THEN step_event, OF this(1)] published_events(2) [THEN step_event, OF this(2)]
  have "?step (published_state, sample_writer bio_db, 0) (published_state, writer_one, 1)"
    "?step (published_state, writer_one, 1) (published_state, writer_two, 2)"
    by (auto intro!: writer_moves simp: published_log_def numeral_2_eq_2)
  with read show "?step\<^sup>*\<^sup>* sample_system (published_state, writer_one, 1)" "?step\<^sup>*\<^sup>* sample_system (published_state, writer_two, 2)"
    by (auto intro: rtranclp.rtrancl_into_rtrancl)
qed


section \<open>Progress\<close>

definition undisturbed :: "reader_env \<Rightarrow> writer_env \<Rightarrow> bool" where
  "undisturbed renv wenv \<longleftrightarrow> standby_up renv \<and> calls_succeed wenv"

lemma reader_of_system_steps:
  "(system_step renv topic wenv ctx_err)\<^sup>*\<^sup>* x y \<Longrightarrow> (quiet_step renv topic)\<^sup>*\<^sup>* (fst x) (fst y)"
proof (induction rule: rtranclp_induct)
  case (step y z)
  from step(2) have "quiet_step renv topic (fst y) (fst z) \<or> fst z = fst y"
    by cases simp_all
  with step.IH show ?case by (metis rtranclp.rtrancl_into_rtrancl)
qed simp

lemma drained_topic:
  assumes "quiet_inv renv topic [] txs s" and "drained s"
  shows "topic_log (fst (pl_kafka s)) = full_topic renv topic txs"
  using drained_log [OF assms] by (simp add: full_topic_def published_def)

lemma once_inv_behind:
  assumes "once_inv env txs d0 (w, pos)"
  shows "pos \<le> length (concat txs)"
proof (cases "w_group w")
  case None
  with assms tx_start_le show ?thesis by (auto simp: once_inv_def)
next
  case (Some g)
  then obtain m j where "m < length txs" "j < length (txs ! m)" "pos = tx_start txs m + j"
    using assms by (auto simp: once_inv_def)
  with concat_nth_start(2) show ?thesis by (simp add: less_imp_le)
qed



section \<open>Under every failure\<close>



end
