(* ===== verification/Spec2Isabelle.thy ===== *)
theory Spec2Isabelle
  imports Source_Properties Destination_Properties Event_Properties Writer_Properties Recovery_Properties Snapshot_Properties
    Reader_Properties Reader_Exit Program_Properties System_Properties
begin

text \<open>
  Verification development of pg-live-sync: a PostgreSQL source reader that publishes committed
  transactions to one Kafka partition, and a destination writer that replays them into another
  PostgreSQL, with a tool for the events it could not apply.

  \<^bold>\<open>The program.\<close> The source reader (\<open>cmd/source-reader/main.go\<close>) reads the logical replication
  stream of a slot. Its decoder (\<open>internal/source/decoder.go\<close>) turns pgoutput messages into row
  changes, buffers those of the open transaction (in a spool file beyond a limit) and, at the
  commit, hands them out as numbered events (\<open>internal/cdc/event.go\<close>). The stream goroutine passes
  each event and then the transaction's descriptor to the publisher goroutine, which writes events
  to Kafka and answers descriptors through a channel of one slot; only those answers advance the
  durable position, and only the durable position is reported to PostgreSQL. The destination
  writer (\<open>cmd/destination-writer/main.go\<close>) copies the tables once (\<open>snapshot.go\<close>), then collects
  the events of a transaction into a group, applies them in one destination transaction
  (\<open>applier.go\<close>: a marker per event, upserts and deletes guarded by the commit position, a
  watermark per truncated table), commits it, and then commits the Kafka offset. An event that
  cannot be applied is quarantined (\<open>deadletter.go\<close>), and \<open>cmd/cdcctl\<close> lists, replays or drops it.
  All of it relies on \<open>internal/retry\<close>, \<open>errclass\<close>, \<open>transport\<close> and \<open>metrics\<close>.

  \<^bold>\<open>Which theory models what.\<close>

  \<^item> \<open>Prelude\<close>: rows as canonical association lists, log positions with their order, decimal text,
    the locale \<open>step_invariant\<close>.
  \<^item> \<open>Errclass\<close>, \<open>Retry\<close>, \<open>Metrics\<close>, \<open>Observer\<close>, \<open>Transport\<close>, \<open>Program_Config\<close>: the packages both
    programs share. Errors are values: \<open>goerr option\<close> for \<open>error\<close>, \<open>goerr + 'a\<close> for \<open>(T, error)\<close>,
    with the chain that \<open>errors.As\<close> and \<open>errors.Is\<close> walk; a panic is an error value.
  \<^item> \<open>Cdc_Event\<close>: the event, its validation and its Kafka key.
  \<^item> \<open>Decoder\<close>: \<open>decoder.go\<close>, each method a function from the decoder's state to a result and the
    next state, the temporary files being part of the state. \<open>Change_Queue\<close> states its two
    interfaces as locales, a buffer of changes and a source of events; \<open>Decoder_Correct\<close> interprets
    both on the decoder. \<open>Decoder_Rows\<close> is about rows, keys and event identifiers, \<open>Decoder_Files\<close>
    about spool files.
  \<^item> \<open>Reader\<close>: the operations of the reader's two goroutines; \<open>Pipeline\<close>: the goroutines, their
    channels, the Kafka log and crashes as one step relation; \<open>Reader_Boot\<close>: \<open>run\<close> up to the stream.
  \<^item> \<open>Sql_Text\<close>: the text of the SQL the applier builds; \<open>Dest_Db\<close>: what the statements mean on a
    database of tables, and a connection with its transaction, so that every statement may fail.
    \<open>Applier\<close>, \<open>Schema_Repair\<close>, \<open>Dead_Letter\<close>, \<open>Snapshot\<close>: \<open>internal/destination\<close> on that
    connection. \<open>Writer\<close>: the consumer loop, and \<open>run\<close>.
  \<^item> \<open>Cdcctl\<close>: the command line tool. \<open>Process_Shell\<close>: exit status, tickers and protocol log.
  \<^item> \<open>Event_Effect\<close>: the specification of the applier, what an event means as a function of the
    database alone.

  \<^bold>\<open>What the lemmas show.\<close>

  \<^item> \<open>Source_Properties\<close>: the decoder returns exactly the changes of a transaction, numbered and
    identified, whatever part of them was spooled; rows and keys are never guessed.
  \<^item> \<open>Applier_Runs\<close>, \<open>Applier_Markers\<close>: what holds whatever fails (nothing is committed before
    COMMIT, markers are never forgotten). \<open>Applier_Refines\<close>, \<open>Batch_Refines\<close>, \<open>Replay\<close>: on a server
    that answers, \<open>ApplyInTx\<close> and the batched \<open>ApplyBatch\<close> refine \<open>Event_Effect\<close>, and what was
    applied can be delivered again. \<open>Event_Properties\<close> reads off what happens to the rows.
  \<^item> \<open>Writer_Correct\<close>: the invariant of the writer under every failure (no offset ahead of the
    destination); \<open>Writer_Once\<close>, \<open>Writer_Progress\<close>: exactly once and to the end, on a topic of whole
    transactions; \<open>Writer_Wedge\<close>: what a topic with a transaction cut short does to it.
    \<open>Destination_Properties\<close> and \<open>Writer_Properties\<close> state the results.
  \<^item> \<open>Pipeline_Correct\<close>: the invariant of the reader under every interleaving, failure and crash;
    \<open>Reader_Properties\<close> states no loss and the order of acknowledgements, \<open>Reader_Exit\<close> how the
    process ends.
  \<^item> \<open>Quiet_Reader\<close>, \<open>Quiet_Progress\<close>: as long as the connection and Kafka hold, the topic is
    record by record the prefix of the source's transactions that the writer expects, and a
    measure of what is left to do gets less; \<open>End_To_End\<close> runs such a reader and a writer that may
    crash together, \<open>Full_System\<close> any reader and any writer; \<open>System_Properties\<close> states that the
    destination follows the source, can always catch up, and that nothing acknowledged is lost.
  \<^item> \<open>Recovery_Properties\<close>, \<open>Snapshot_Properties\<close>, \<open>Program_Properties\<close>: dead letters, the initial
    copy, and retries, boot checks, TLS and the command line.
  \<^item> \<open>Reader_Samples\<close>, \<open>Destination_Samples\<close>, \<open>Joint_Samples\<close>: the concrete source, destination and
    schedules on which the witnesses evaluate.

  \<^bold>\<open>Interfaces.\<close> \<open>change_buffer\<close> and \<open>event_source\<close> (interpreted as \<open>spool\<close> and \<open>events\<close> in
  \<open>Decoder_Correct\<close>), \<open>marking_operations\<close> (interpreted in \<open>Replay\<close> on \<open>event_apply\<close>), and
  \<open>step_invariant\<close>, a start, a step and what every step keeps, interpreted once per state machine:
  \<open>spool_files\<close>, \<open>offsets\<close>, \<open>once\<close>, \<open>pipeline\<close>, \<open>exits\<close>, \<open>quiet\<close>, \<open>system\<close> and \<open>full_system\<close>.

  \<^bold>\<open>Parameters.\<close> The environments (\<open>source_env\<close>, \<open>reader_env\<close>, \<open>dest_env\<close>, \<open>writer_env\<close>,
  \<open>ctl_env\<close> and the boot records) hold what is not code of the repository: the JSON and position
  codecs, files, clocks, random numbers, timers, cancellation, the answers of Kafka and of
  PostgreSQL's catalogs, and for every call whether it fails. A call is told apart by a counter in
  the state that it advances, so that a service may answer differently each time; theorems hold
  for all such functions unless a named hypothesis (\<open>no_faults\<close>, \<open>serves\<close>, \<open>kafka_up\<close> and the
  like) says otherwise, and each witness meets its hypotheses on a concrete one.

  \<^bold>\<open>Bounds and fuel.\<close> Machine integers keep their width (positions and counters are 64-bit words,
  transaction numbers 32-bit words, durations wrap at 64 bits in \<open>Retry\<close>). A retry loop recurses on
  the attempts left, at most 20 in the configuration the programs use. \<open>WaitForSlot\<close> and \<open>consume\<close>
  run until their context ends; they take the number of turns to look at as an argument, and their
  properties hold for every number. The goroutines of the reader and the life of the writer are
  step relations, with no bound.

  \<^bold>\<open>Limits of the model.\<close> Log lines are left out except those of \<open>Process_Shell\<close>. A context that may
  end is one that may end at any point. The writer may crash between any two operations of the loop,
  between the two commits of a group, and while it quarantines a poison event: after any number of
  the healthy events and after the schema repair, but not between the statements of the repair. SQL text is modelled where the program builds it; the literal statements are given by
  their meaning, with PostgreSQL's other failures as the faults of \<open>dest_env\<close>, and catalog queries
  by their answers. Strings are lists of characters of one byte. A histogram is the list of its
  observations.

  \<^bold>\<open>Not modelled.\<close> The Kafka, PostgreSQL and Prometheus client libraries, the HTTP server that
  \<open>StartServer\<close> runs, signal handling (a signal ends the context), the operation timeout of cdcctl,
  \<open>stopTimer\<close>, and the tests, scripts and deployment files, which run the program and are not part
  of it.
\<close>

end
